(* ===== verification/Prelude.thy ===== *)
theory Prelude
  imports Main "HOL-Library.Word" "HOL-Library.Monad_Syntax" "HOL-Library.Sublist"
begin

text \<open>
  Shared vocabulary of the development.

  Machine integers are words of their C++ width; \<open>size_t\<close> is \<open>nat\<close>, with the wrap-around
  of a 64-bit \<open>size_t\<close> written out where the code subtracts.  A \<open>std::array\<close> is a list
  whose length the invariants fix.

  The value \<open>None\<close> of a stateful operation stands for undefined behaviour or for a loop
  that does not return: an array access out of its bounds (\<open>rd\<close>, \<open>wr\<close>, \<open>slice\<close>), a shift by
  the width of the type or more (\<open>shl32\<close>), an endless loop.  That no operation of the
  program yields \<open>None\<close> is a theorem, never an assumption.
\<close>

unbundle bit_operations_syntax

section \<open>Machine types\<close>

type_synonym u8 = "8 word"
type_synonym u16 = "16 word"
type_synonym u32 = "32 word"
type_synonym i16 = "16 word"

text \<open>\<open>i16\<close> is the \<open>int16_t\<close> of the source: two's complement, read with \<open>sint\<close>.\<close>

section \<open>Collections of facts\<close>

named_theorems wire_simps \<open>constants and small functions of the wire format\<close>
named_theorems op_defs \<open>definitions of the session's operations\<close>

section \<open>Checked memory accesses\<close>

definition rd :: "'a list \<Rightarrow> nat \<Rightarrow> 'a option" where
  "rd xs i = (if i < length xs then Some (xs ! i) else None)"

definition wr :: "'a list \<Rightarrow> nat \<Rightarrow> 'a \<Rightarrow> 'a list option" where
  "wr xs i v = (if i < length xs then Some (xs[i := v]) else None)"

definition slice :: "'a list \<Rightarrow> nat \<Rightarrow> nat \<Rightarrow> 'a list option" where
  "slice xs start n = (if start + n \<le> length xs then Some (take n (drop start xs)) else None)"

definition shl32 :: "u32 \<Rightarrow> nat \<Rightarrow> u32 option" where
  "shl32 x n = (if n < 32 then Some (push_bit n x) else None)"

definition size_sub :: "nat \<Rightarrow> nat \<Rightarrow> nat" where
  "size_sub a b = (if b \<le> a then a - b else a + 2 ^ 64 - b)"

lemma rd_Some [simp]: "i < length xs \<Longrightarrow> rd xs i = Some (xs ! i)"
  by (simp add: rd_def)

lemma wr_Some [simp]: "i < length xs \<Longrightarrow> wr xs i v = Some (xs[i := v])"
  by (simp add: wr_def)

lemma slice_Some [simp]: "start + n \<le> length xs \<Longrightarrow> slice xs start n = Some (take n (drop start xs))"
  by (simp add: slice_def)

lemma shl32_Some [simp]: "n < 32 \<Longrightarrow> shl32 x n = Some (push_bit n x)"
  by (simp add: shl32_def)

lemma size_sub_le [simp]: "b \<le> a \<Longrightarrow> size_sub a b = a - b"
  by (simp add: size_sub_def)

lemma size_sub_underflow: "size_sub 0 1 = 2 ^ 64 - 1"
  by (simp add: size_sub_def)

section \<open>Counting loops\<close>

text \<open>\<open>for_loop is body s\<close> is \<open>for (i : is) body\<close>, the state threaded through.\<close>

fun for_loop :: "nat list \<Rightarrow> (nat \<Rightarrow> 's \<Rightarrow> 's option) \<Rightarrow> 's \<Rightarrow> 's option" where
  "for_loop [] body s = Some s"
| "for_loop (i # is) body s = body i s \<bind> for_loop is body"

lemma for_loop_append:
  "for_loop (is @ js) body s = for_loop is body s \<bind> for_loop js body"
  by (induction "is" arbitrary: s) (auto split: Option.bind_splits)

text \<open>A loop whose body always succeeds is the corresponding fold.\<close>

lemma for_loop_fold:
  assumes "\<And>i s. i \<in> set is \<Longrightarrow> P s \<Longrightarrow> body i s = Some (f i s) \<and> P (f i s)" and "P s"
  shows "for_loop is body s = Some (fold f is s) \<and> P (fold f is s)"
  using assms
proof (induction "is" arbitrary: s)
  case (Cons i js)
  from Cons.prems have "body i s = Some (f i s)" and "P (f i s)" by auto
  then show ?case using Cons.IH [of "f i s"] Cons.prems(1) by simp
qed simp

section \<open>Lists\<close>

text \<open>
  Writing consecutive cells: the closed form of every copy loop of the program.
\<close>

lemma length_fold_update [simp]:
  "length (fold (\<lambda>i ys. ys[off + i := f i]) is ys) = length ys"
  by (induction "is" arbitrary: ys) auto

lemma fold_update_nth:
  assumes "off + n \<le> length ys" and "k < length ys"
  shows "fold (\<lambda>i ys. ys[off + i := f i]) [0..<n] ys ! k =
    (if off \<le> k \<and> k < off + n then f (k - off) else ys ! k)"
  using assms
proof (induction n)
  case (Suc n)
  then show ?case by (auto simp: nth_list_update)
qed auto

lemma fold_update:
  assumes "off + n \<le> length ys"
  shows "fold (\<lambda>i ys. ys[off + i := f i]) [0..<n] ys =
    take off ys @ map f [0..<n] @ drop (off + n) ys"
proof (rule nth_equalityI)
  show "length (fold (\<lambda>i ys. ys[off + i := f i]) [0..<n] ys) =
    length (take off ys @ map f [0..<n] @ drop (off + n) ys)"
    using assms by simp
  fix k assume k: "k < length (fold (\<lambda>i ys. ys[off + i := f i]) [0..<n] ys)"
  then have "k < length ys" by simp
  with assms show "fold (\<lambda>i ys. ys[off + i := f i]) [0..<n] ys ! k =
    (take off ys @ map f [0..<n] @ drop (off + n) ys) ! k"
    by (simp add: fold_update_nth nth_append min_def) (auto simp: less_diff_conv)
qed

lemma map_nth_upt [simp]: "n \<le> length xs \<Longrightarrow> map ((!) xs) [0..<n] = take n xs"
  by (rule nth_equalityI) auto

text \<open>A shift of the tail of an array to its front, as the framer compacts its buffer.\<close>

lemma fold_shift:
  assumes "next + n \<le> length ys"
  shows "fold (\<lambda>i ys. ys[i := ys ! (next + i)]) [0..<n] ys = take n (drop next ys) @ drop n ys"
  using assms
proof (induction n)
  case (Suc n)
  then have IH: "fold (\<lambda>i ys. ys[i := ys ! (next + i)]) [0..<n] ys =
    take n (drop next ys) @ drop n ys" by simp
  from Suc.prems have len: "length (take n (drop next ys)) = n" by simp
  have "(take n (drop next ys) @ drop n ys) ! (next + n) = ys ! (next + n)"
    using Suc.prems len by (cases "next") (auto simp: nth_append add.commute)
  moreover have "(take n (drop next ys) @ drop n ys)[n := ys ! (next + n)] =
    take n (drop next ys) @ ys ! (next + n) # drop (Suc n) ys"
    using Suc.prems len by (simp add: list_update_append Cons_nth_drop_Suc [symmetric])
  moreover have "take (Suc n) (drop next ys) = take n (drop next ys) @ [ys ! (next + n)]"
    using Suc.prems by (simp add: take_Suc_conv_app_nth)
  ultimately show ?case using IH by simp
qed simp

section \<open>Words\<close>

lemma less_256_of_nat [simp]: "unat (x :: u8) < 256"
  using unsigned_less [of x] by simp

lemma unat_le_255: "unat (x :: u8) \<le> 255"
  using less_256_of_nat [of x] by linarith

lemma take_bit_unat_u8 [simp]: "8 \<le> n \<Longrightarrow> take_bit n (unat (x :: u8)) = unat x"
  by (rule take_bit_nat_eq_self, rule less_le_trans [OF less_256_of_nat])
    (use power_increasing [of 8 n "2 :: nat"] in simp)

lemma unat_ucast_8_16 [simp]: "unat (ucast (x :: u8) :: u16) = unat x"
  by (simp add: unsigned_ucast_eq)

lemma unat_ucast_8_32 [simp]: "unat (ucast (x :: u8) :: u32) = unat x"
  by (simp add: unsigned_ucast_eq)

lemma unat_u16_less [simp]: "unat (x :: u16) < 65536"
  using unsigned_less [of x] by simp

end
