(* ===== verification/Ring.thy ===== *)
theory Ring
  imports Prelude
begin

text \<open>
  Bounded queues.  The locale \<open>bounded_fifo\<close> is what the session relies on of its request queue;
  \<open>ring_items\<close> reads a ring buffer (an array, the index of its head and a count) as the list of
  its elements in order, with the facts that make a ring buffer satisfy the locale.
\<close>

section \<open>The interface\<close>

text \<open>Pushing a list of elements, and the next \<open>n\<close> elements a queue hands out.\<close>

primrec push_all :: "('a \<Rightarrow> 's \<Rightarrow> 's option) \<Rightarrow> 'a list \<Rightarrow> 's \<Rightarrow> 's option" where
  "push_all push [] s = Some s"
| "push_all push (x # xs) s = push x s \<bind> push_all push xs"

primrec drain :: "('s \<Rightarrow> 'a option) \<Rightarrow> ('s \<Rightarrow> 's) \<Rightarrow> nat \<Rightarrow> 's \<Rightarrow> 'a option list" where
  "drain front pop 0 s = []"
| "drain front pop (Suc n) s = front s # drain front pop n (pop s)"

locale bounded_fifo =
  fixes items :: "'s \<Rightarrow> 'a list" and capacity :: "'s \<Rightarrow> nat"
    and front :: "'s \<Rightarrow> 'a option" and push :: "'a \<Rightarrow> 's \<Rightarrow> 's option" and pop :: "'s \<Rightarrow> 's"
    and ok :: "'s \<Rightarrow> bool" and admissible :: "'a \<Rightarrow> bool"
  assumes front_items: "ok s \<Longrightarrow> items s \<noteq> [] \<Longrightarrow> front s = Some (hd (items s))"
    and push_items: "ok s \<Longrightarrow> admissible x \<Longrightarrow> length (items s) < capacity s \<Longrightarrow>
      \<exists>s'. push x s = Some s' \<and> ok s' \<and> items s' = items s @ [x] \<and> capacity s' = capacity s"
    and pop_items: "ok s \<Longrightarrow> items s \<noteq> [] \<Longrightarrow>
      ok (pop s) \<and> items (pop s) = tl (items s) \<and> capacity (pop s) = capacity s"
begin

lemma push_all_items:
  assumes "ok s" and "length (items s) + length xs \<le> capacity s" and "\<forall>x \<in> set xs. admissible x"
  shows "\<exists>s'. push_all push xs s = Some s' \<and> ok s' \<and> items s' = items s @ xs \<and>
    capacity s' = capacity s"
  using assms
proof (induction xs arbitrary: s)
  case (Cons x xs)
  then obtain s' where "push x s = Some s'" "ok s'" "items s' = items s @ [x]" "capacity s' = capacity s"
    using push_items [of s x] by auto
  with Cons.IH [of s'] Cons.prems show ?case by auto
qed simp

lemma drain_items:
  assumes "ok s" and "n \<le> length (items s)"
  shows "drain front pop n s = map Some (take n (items s))"
  using assms
proof (induction n arbitrary: s)
  case (Suc n)
  then have ne: "items s \<noteq> []" by auto
  from pop_items [OF Suc.prems(1) ne] Suc.IH [of "pop s"] Suc.prems(2)
  have "drain front pop n (pop s) = map Some (take n (tl (items s)))" by simp
  with front_items [OF Suc.prems(1) ne] ne show ?case by (cases "items s") simp_all
qed simp

lemma first_in_first_out:
  assumes "ok s" and "length (items s) + length xs \<le> capacity s" and "\<forall>x \<in> set xs. admissible x"
  shows "\<exists>s'. push_all push xs s = Some s' \<and>
    drain front pop (length (items s) + length xs) s' = map Some (items s @ xs)"
  using push_all_items [OF assms] drain_items by force

end

section \<open>Ring buffers\<close>

definition ring_items :: "'a list \<Rightarrow> nat \<Rightarrow> nat \<Rightarrow> 'a list" where
  "ring_items q h n = map (\<lambda>k. q ! ((h + k) mod length q)) [0..<n]"

lemma length_ring_items [simp]: "length (ring_items q h n) = n"
  by (simp add: ring_items_def)

lemma ring_items_0 [simp]: "ring_items q h 0 = []"
  by (simp add: ring_items_def)

lemma ring_items_eq_Nil_iff [simp]: "ring_items q h n = [] \<longleftrightarrow> n = 0"
  by (simp add: ring_items_def)

lemma ring_slots_distinct:
  assumes "h < c" and "k < n" and "n < (c :: nat)"
  shows "(h + k) mod c \<noteq> (h + n) mod c"
proof
  assume "(h + k) mod c = (h + n) mod c"
  then have "(h + n) mod c = (h + k) mod c" by simp
  then have "c dvd (h + n) - (h + k)" using assms(2) by (subst (asm) mod_eq_dvd_iff_nat) simp_all
  then have "c dvd n - k" by simp
  with assms show False by (auto dest: dvd_imp_le)
qed

lemma ring_push:
  assumes "h < length q" and "n < length q"
  shows "ring_items (q[(h + n) mod length q := x]) h (n + 1) = ring_items q h n @ [x]"
proof -
  have "(q[(h + n) mod length q := x]) ! ((h + k) mod length q) = q ! ((h + k) mod length q)"
    if "k < n" for k
    using ring_slots_distinct [OF assms(1) that assms(2)] by simp
  moreover have "(h + n) mod length q < length q" using assms by (intro mod_less_divisor) auto
  ultimately show ?thesis by (simp add: ring_items_def)
qed

lemma ring_hd:
  assumes "h < length q" and "0 < n"
  shows "hd (ring_items q h n) = q ! h"
  using assms by (simp add: ring_items_def hd_map)

lemma ring_pop:
  assumes "h < length q" and "0 < n"
  shows "ring_items q ((h + 1) mod length q) (n - 1) = tl (ring_items q h n)"
proof (rule nth_equalityI)
  fix k assume "k < length (ring_items q ((h + 1) mod length q) (n - 1))"
  then have "Suc k < n" and "k < n - Suc 0" by simp_all
  moreover have "((h + 1) mod length q + k) mod length q = (h + Suc k) mod length q"
    by (simp add: mod_add_left_eq)
  ultimately show "ring_items q ((h + 1) mod length q) (n - 1) ! k = tl (ring_items q h n) ! k"
    by (simp add: ring_items_def nth_tl)
qed simp

lemma ring_item_in_array: "x \<in> set (ring_items q h n) \<Longrightarrow> q \<noteq> [] \<Longrightarrow> x \<in> set q"
  by (auto simp: ring_items_def)

end
