(* ===== verification/Protocol.thy ===== *)
theory Protocol
  imports Prelude
begin

text \<open>
  The frame codec: \<open>include/haidi_protocol.hpp\<close> and \<open>src/haidi_protocol.cpp\<close>.  Frame layout
  constants, Data IDs, the alarm-threshold block, the checksum, the encoder, the big-endian
  readers and the three scalings.

  \<open>DataId\<close>, \<open>AlarmClass\<close>, \<open>AlarmLevel\<close> and \<open>HostAddress\<close> are scoped enumerations over
  \<open>uint8_t\<close> into which the code casts arbitrary bytes (a received Data ID, the arguments of
  \<open>poll_alarm_threshold\<close>), so each is the 8-bit word it is stored in and its enumerators are
  constants.  The enumerators of \<open>AlarmClass\<close> carry the prefix \<open>CLASS\<close>, and
  \<open>DataId::NONE\<close> is \<open>DATA_ID_NONE\<close>.
\<close>

type_synonym data_id = u8
type_synonym alarm_class = u8
type_synonym alarm_level = u8
type_synonym host_address = u8
type_synonym message_bytes = "u8 list" \<comment> \<open>13 bytes\<close>
type_synonym data_bytes = "u8 list" \<comment> \<open>8 bytes\<close>

section \<open>Frame layout\<close>

definition MSG_MAX_LEN :: nat where [simp]: "MSG_MAX_LEN = 13"
definition MSG_LAST_INDEX :: nat where [simp]: "MSG_LAST_INDEX = MSG_MAX_LEN - 1"
definition MSG_START_INDEX :: nat where [simp]: "MSG_START_INDEX = 0"
definition MSG_ADDRESS_INDEX :: nat where [simp]: "MSG_ADDRESS_INDEX = 1"
definition MSG_DATA_ID_INDEX :: nat where [simp]: "MSG_DATA_ID_INDEX = 2"
definition MSG_LEN_INDEX :: nat where [simp]: "MSG_LEN_INDEX = 3"
definition DATA_OFFSET :: nat where [simp]: "DATA_OFFSET = 4"
definition DATA_LEN :: nat where [simp]: "DATA_LEN = 8"
definition START_FLAG :: u8 where [simp]: "START_FLAG = 0xA5"
definition LENGTH_FLAG :: u8 where [simp]: "LENGTH_FLAG = 0x08"
definition BMS_ADDRESS :: u8 where [simp]: "BMS_ADDRESS = 0x01"

definition HOST_BLE :: host_address where [simp]: "HOST_BLE = 0x80"
definition HOST_GPRS :: host_address where [simp]: "HOST_GPRS = 0x20"
definition HOST_COMP :: host_address where [simp]: "HOST_COMP = 0x40"
definition HOST_BROADCAST :: host_address where [simp]: "HOST_BROADCAST = 0xFF"

section \<open>Data IDs\<close>

definition DATA_ID_NONE :: data_id where [simp]: "DATA_ID_NONE = 0x00"
definition CAPACITY_VOLTAGE :: data_id where [simp]: "CAPACITY_VOLTAGE = 0x50"
definition BMU_CELL_TEMP_COUNT :: data_id where [simp]: "BMU_CELL_TEMP_COUNT = 0x51"
definition TOTAL_CHARGE_DISCHARGE_AH :: data_id where [simp]: "TOTAL_CHARGE_DISCHARGE_AH = 0x52"
definition BATTERY_OPERATION_MODE :: data_id where [simp]: "BATTERY_OPERATION_MODE = 0x53"
definition FIRMWARE_INDEX :: data_id where [simp]: "FIRMWARE_INDEX = 0x54"
definition MANUFACTURER_NAME :: data_id where [simp]: "MANUFACTURER_NAME = 0x55"
definition BATTERY_NAME :: data_id where [simp]: "BATTERY_NAME = 0x56"
definition BATTERY_SERIAL_NUMBER :: data_id where [simp]: "BATTERY_SERIAL_NUMBER = 0x57"
definition BATTERY_PRODUCTION_DATE :: data_id where [simp]: "BATTERY_PRODUCTION_DATE = 0x58"
definition CELL_VOLTAGE_ALARM :: data_id where [simp]: "CELL_VOLTAGE_ALARM = 0x59"
definition TOTAL_VOLTAGE_ALARM :: data_id where [simp]: "TOTAL_VOLTAGE_ALARM = 0x5A"
definition CURRENT_ALARM :: data_id where [simp]: "CURRENT_ALARM = 0x5B"
definition TEMPERATURE_ALARM :: data_id where [simp]: "TEMPERATURE_ALARM = 0x5C"
definition SOC_ALARM :: data_id where [simp]: "SOC_ALARM = 0x5D"
definition DIFFERENCE_ALARM :: data_id where [simp]: "DIFFERENCE_ALARM = 0x5E"
definition BALANCING_PARAMS :: data_id where [simp]: "BALANCING_PARAMS = 0x5F"
definition CURRENT_PARAMS :: data_id where [simp]: "CURRENT_PARAMS = 0x60"
definition RTC :: data_id where [simp]: "RTC = 0x61"
definition SOFTWARE_VERSION :: data_id where [simp]: "SOFTWARE_VERSION = 0x62"
definition HARDWARE_VERSION :: data_id where [simp]: "HARDWARE_VERSION = 0x63"
definition FAULT_RECORDS :: data_id where [simp]: "FAULT_RECORDS = 0x64"
definition BOARD_NUMBER :: data_id where [simp]: "BOARD_NUMBER = 0x65"
definition HEATING_TEMPERATURE :: data_id where [simp]: "HEATING_TEMPERATURE = 0x66"
definition ACTIVE_BALANCING_SWITCH :: data_id where [simp]: "ACTIVE_BALANCING_SWITCH = 0x67"
definition ACTIVE_BALANCING_PARAMS :: data_id where [simp]: "ACTIVE_BALANCING_PARAMS = 0x68"
definition INVERTER_PARAMS :: data_id where [simp]: "INVERTER_PARAMS = 0x69"
definition SN_SERIAL_NUMBER :: data_id where [simp]: "SN_SERIAL_NUMBER = 0x6A"
definition ALARM_THRESHOLD_FIRST :: data_id where [simp]: "ALARM_THRESHOLD_FIRST = 0x70"
definition ALARM_THRESHOLD_LAST :: data_id where [simp]: "ALARM_THRESHOLD_LAST = 0x8A"
definition TOTAL_VOLTAGE_CURRENT_SOC :: data_id where [simp]: "TOTAL_VOLTAGE_CURRENT_SOC = 0x90"
definition CELL_VOLTAGE_EXTREMES :: data_id where [simp]: "CELL_VOLTAGE_EXTREMES = 0x91"
definition CELL_TEMPERATURE_EXTREMES :: data_id where [simp]: "CELL_TEMPERATURE_EXTREMES = 0x92"
definition CHARGE_DISCHARGE_MOS_STATUS :: data_id where [simp]: "CHARGE_DISCHARGE_MOS_STATUS = 0x93"
definition STATUS_INFO :: data_id where [simp]: "STATUS_INFO = 0x94"
definition CELL_VOLTAGES :: data_id where [simp]: "CELL_VOLTAGES = 0x95"
definition CELL_TEMPERATURES :: data_id where [simp]: "CELL_TEMPERATURES = 0x96"
definition CELL_BALANCING_BITS :: data_id where [simp]: "CELL_BALANCING_BITS = 0x97"
definition FAULT_STATUS :: data_id where [simp]: "FAULT_STATUS = 0x98"
definition BALANCING_STATE :: data_id where [simp]: "BALANCING_STATE = 0x99"
definition BATTERY_STATUS :: data_id where [simp]: "BATTERY_STATUS = 0x9A"
definition WAKEUP_SOURCE :: data_id where [simp]: "WAKEUP_SOURCE = 0xD8"
definition DISCHARGE_MOS_CONTROL :: data_id where [simp]: "DISCHARGE_MOS_CONTROL = 0xD9"
definition CHARGE_MOS_CONTROL :: data_id where [simp]: "CHARGE_MOS_CONTROL = 0xDA"

section \<open>The alarm-threshold block\<close>

definition CLASS_CELL_OVERVOLTAGE :: alarm_class where [simp]: "CLASS_CELL_OVERVOLTAGE = 0"
definition CLASS_CELL_UNDERVOLTAGE :: alarm_class where [simp]: "CLASS_CELL_UNDERVOLTAGE = 1"
definition CLASS_CURRENT :: alarm_class where [simp]: "CLASS_CURRENT = 2"
definition CLASS_HIGH_TEMPERATURE :: alarm_class where [simp]: "CLASS_HIGH_TEMPERATURE = 3"
definition CLASS_LOW_TEMPERATURE :: alarm_class where [simp]: "CLASS_LOW_TEMPERATURE = 4"
definition CLASS_TOTAL_OVERVOLTAGE :: alarm_class where [simp]: "CLASS_TOTAL_OVERVOLTAGE = 5"
definition CLASS_TOTAL_UNDERVOLTAGE :: alarm_class where [simp]: "CLASS_TOTAL_UNDERVOLTAGE = 6"
definition CLASS_VOLTAGE_DIFFERENCE :: alarm_class where [simp]: "CLASS_VOLTAGE_DIFFERENCE = 7"
definition CLASS_TEMPERATURE_DIFFERENCE :: alarm_class where [simp]: "CLASS_TEMPERATURE_DIFFERENCE = 8"

definition LEVEL_1 :: alarm_level where [simp]: "LEVEL_1 = 0"
definition LEVEL_2 :: alarm_level where [simp]: "LEVEL_2 = 1"
definition LEVEL_3 :: alarm_level where [simp]: "LEVEL_3 = 2"

definition ALARM_CLASS_COUNT :: u8 where [simp]: "ALARM_CLASS_COUNT = 9"
definition ALARM_LEVEL_COUNT :: u8 where [simp]: "ALARM_LEVEL_COUNT = 3"

text \<open>
  The arithmetic is done in \<open>int\<close> and the result converted to \<open>uint8_t\<close> by the cast; modulo
  256 that is the arithmetic of 8-bit words.
\<close>

definition alarm_threshold_id :: "alarm_class \<Rightarrow> alarm_level \<Rightarrow> data_id" where
  "alarm_threshold_id cls lvl = ALARM_THRESHOLD_FIRST + lvl * ALARM_CLASS_COUNT + cls"

definition is_alarm_threshold_id :: "data_id \<Rightarrow> bool" where
  "is_alarm_threshold_id i \<longleftrightarrow> i \<ge> ALARM_THRESHOLD_FIRST \<and> i \<le> ALARM_THRESHOLD_LAST"

text \<open>
  Division and remainder act on a promoted \<open>int\<close> difference, which is negative below the
  block: C++ truncates towards zero and the cast takes the value modulo 256.
\<close>

definition alarm_class_of :: "data_id \<Rightarrow> alarm_class" where
  "alarm_class_of i =
    (let d = uint i - uint ALARM_THRESHOLD_FIRST
     in word_of_int (sgn d * (\<bar>d\<bar> mod uint ALARM_CLASS_COUNT)))"

definition alarm_level_of :: "data_id \<Rightarrow> alarm_level" where
  "alarm_level_of i =
    (let d = uint i - uint ALARM_THRESHOLD_FIRST
     in word_of_int (sgn d * (\<bar>d\<bar> div uint ALARM_CLASS_COUNT)))"

section \<open>Codec\<close>

definition calc_chksum :: "message_bytes \<Rightarrow> u8" where
  "calc_chksum bytes = fold (\<lambda>i sum. sum + bytes ! i) [0..<MSG_LAST_INDEX] 0"

definition encode :: "host_address \<Rightarrow> data_id \<Rightarrow> data_bytes \<Rightarrow> message_bytes" where
  "encode host i data =
    (let msg = replicate MSG_MAX_LEN 0;
         msg = msg[MSG_START_INDEX := START_FLAG];
         msg = msg[MSG_ADDRESS_INDEX := host];
         msg = msg[MSG_DATA_ID_INDEX := i];
         msg = msg[MSG_LEN_INDEX := LENGTH_FLAG];
         msg = fold (\<lambda>k m. m[DATA_OFFSET + k := data ! k]) [0..<DATA_LEN] msg
     in msg[MSG_LAST_INDEX := calc_chksum msg])"

definition encode_read :: "host_address \<Rightarrow> data_id \<Rightarrow> message_bytes" where
  "encode_read host i = encode host i (replicate DATA_LEN 0)"

definition is_known_data_id :: "data_id \<Rightarrow> bool" where
  "is_known_data_id raw \<longleftrightarrow>
    (raw \<ge> 0x50 \<and> raw \<le> 0x6A) \<or> (raw \<ge> 0x70 \<and> raw \<le> 0x8A) \<or>
    (raw \<ge> 0x90 \<and> raw \<le> 0x9A) \<or> (raw \<ge> 0xD8 \<and> raw \<le> 0xDA)"

definition data_of :: "message_bytes \<Rightarrow> data_bytes" where
  "data_of frame =
    fold (\<lambda>k d. d[k := frame ! (DATA_OFFSET + k)]) [0..<DATA_LEN] (replicate DATA_LEN 0)"

definition be16 :: "data_bytes \<Rightarrow> nat \<Rightarrow> u16" where
  "be16 data off = push_bit 8 (ucast (data ! off)) OR ucast (data ! (off + 1))"

definition be32 :: "data_bytes \<Rightarrow> nat \<Rightarrow> u32" where
  "be32 data off =
    push_bit 24 (ucast (data ! off)) OR push_bit 16 (ucast (data ! (off + 1))) OR
    push_bit 8 (ucast (data ! (off + 2))) OR ucast (data ! (off + 3))"

definition CURRENT_OFFSET :: u16 where [simp]: "CURRENT_OFFSET = 30000"
definition TEMPERATURE_OFFSET :: u8 where [simp]: "TEMPERATURE_OFFSET = 40"
definition YEAR_OFFSET :: u16 where [simp]: "YEAR_OFFSET = 2000"

definition to_current_da :: "u16 \<Rightarrow> i16" where
  "to_current_da raw = word_of_int (uint raw - uint CURRENT_OFFSET)"

definition to_temperature_c :: "u8 \<Rightarrow> i16" where
  "to_temperature_c raw = word_of_int (uint raw - uint TEMPERATURE_OFFSET)"

definition to_year :: "u8 \<Rightarrow> u16" where
  "to_year raw = word_of_int (uint raw + uint YEAR_OFFSET)"

section \<open>Lemmas on the wire format\<close>

lemma length_8E:
  assumes "length (d :: 'a list) = 8"
  obtains a0 a1 a2 a3 a4 a5 a6 a7 where "d = [a0, a1, a2, a3, a4, a5, a6, a7]"
  using assms by (auto simp: length_Suc_conv eval_nat_numeral)

lemma upt_8 [wire_simps]: "[0..<8] = [0, 1, 2, 3, 4, 5, 6, 7 :: nat]"
  by (simp add: upt_rec)

lemma upt_12 [wire_simps]: "[0..<12] = [0, 1, 2, 3, 4, 5, 6, 7, 8, 9, 10, 11 :: nat]"
  by (simp add: upt_rec)

lemma calc_chksum_sum:
  assumes "12 \<le> length f"
  shows "calc_chksum f = sum_list (take 12 f)"
proof -
  have "fold (\<lambda>i sum. sum + f ! i) [0..<n] (0 :: u8) = sum_list (take n f)"
    if "n \<le> length f" for n
    using that
    by (induction n) (simp_all add: take_Suc_conv_app_nth)
  with assms show ?thesis by (simp add: calc_chksum_def)
qed

text \<open>The frame as the sequence of its fields.\<close>

lemma frame_fields:
  assumes "length data = 8"
  shows "fold (\<lambda>k m. m[4 + k := data ! k]) [0..<8]
      ((replicate 13 0)[0 := a, Suc 0 := h, 2 := i, 3 := l]) = [a, h, i, l] @ data @ [0 :: u8]"
proof -
  have "(replicate 13 0)[0 := a, Suc 0 := h, 2 := i, 3 := l] =
      [a, h, i, l] @ replicate 8 0 @ [0]" by (simp add: eval_nat_numeral)
  with assms show ?thesis by (simp add: fold_update)
qed

lemma encode_eq:
  assumes "length data = 8"
  shows "encode host i data =
    [START_FLAG, host, i, LENGTH_FLAG] @ data @
    [START_FLAG + (host + (i + (LENGTH_FLAG + sum_list data)))]"
  using assms frame_fields [OF assms, of START_FLAG host i LENGTH_FLAG]
  by (simp add: encode_def calc_chksum_sum Let_def nth_append list_update_append
      del: START_FLAG_def LENGTH_FLAG_def)

lemma length_encode [simp]: "length (encode host i data) = 13"
  by (simp add: encode_def Let_def)

text \<open>A frame the receiver accepts: whole, opened by the start flag, sum right.\<close>

definition valid_frame :: "message_bytes \<Rightarrow> bool" where
  "valid_frame f \<longleftrightarrow>
    length f = MSG_MAX_LEN \<and> f ! MSG_START_INDEX = START_FLAG \<and>
    f ! MSG_LAST_INDEX = calc_chksum f"

lemma data_of_eq:
  assumes "length f = 13"
  shows "data_of f = take 8 (drop 4 f)"
proof -
  have "data_of f = map (\<lambda>k. f ! (4 + k)) [0..<8]"
    using fold_update [of 0 8 "replicate 8 0" "\<lambda>k. f ! (4 + k)"] by (simp add: data_of_def)
  also have "\<dots> = take 8 (drop 4 f)"
    using assms by (intro nth_equalityI) auto
  finally show ?thesis .
qed

lemma length_data_of [simp]: "length (data_of f) = 8"
proof -
  have "data_of f = map (\<lambda>k. f ! (4 + k)) [0..<8]"
    using fold_update [of 0 8 "replicate 8 0" "\<lambda>k. f ! (4 + k)"] by (simp add: data_of_def)
  then show ?thesis by simp
qed

lemma encode_fields:
  assumes "length data = 8"
  shows "valid_frame (encode host i data)" and "data_of (encode host i data) = data"
    and "encode host i data ! MSG_ADDRESS_INDEX = host"
    and "encode host i data ! MSG_DATA_ID_INDEX = i"
    and "encode host i data ! MSG_LEN_INDEX = LENGTH_FLAG"
  using assms by (simp_all add: valid_frame_def calc_chksum_sum data_of_eq encode_eq nth_append)

text \<open>
  C35: encoding is a round trip.  Every frame the encoder builds has 13 bytes, opens with the
  start flag, carries the sender's address, the Data ID and the fixed length field in their
  places, ends in its own checksum, and \<open>data_of\<close> reads the payload back unchanged.
\<close>

theorem encode_round_trip:
  assumes "length data = DATA_LEN"
  shows "valid_frame (encode host i data) \<and> data_of (encode host i data) = data \<and>
    encode host i data ! MSG_ADDRESS_INDEX = host \<and>
    encode host i data ! MSG_DATA_ID_INDEX = i \<and>
    encode host i data ! MSG_LEN_INDEX = LENGTH_FLAG"
  using assms encode_fields [of data host i] by simp

theorem encode_round_trip_witness:
  "data_of (encode HOST_COMP DISCHARGE_MOS_CONTROL [1, 0, 0, 0, 0, 0, 0, 0]) =
    [1, 0, 0, 0, 0, 0, 0, 0]"
  using encode_round_trip [of "[1, 0, 0, 0, 0, 0, 0, 0]" HOST_COMP DISCHARGE_MOS_CONTROL] by simp

lemma sum_list_update_word:
  assumes "k < length xs"
  shows "sum_list (xs[k := b]) = sum_list xs + b - (xs ! k :: u8)"
  using assms
proof (induction xs arbitrary: k)
  case (Cons x xs)
  then show ?case by (cases k) simp_all
qed simp

text \<open>
  C36: the checksum catches every single corrupted byte.  A valid frame in which one byte, at
  any of the 13 positions, is replaced by a different value is no longer valid.
\<close>

theorem single_byte_corruption_detected:
  assumes "valid_frame f" and "k < MSG_MAX_LEN" and "b \<noteq> f ! k"
  shows "\<not> valid_frame (f[k := b])"
proof
  assume v: "valid_frame (f[k := b])"
  from assms(1) have len: "length f = 13" and sum: "f ! 12 = sum_list (take 12 f)"
    by (auto simp: valid_frame_def calc_chksum_sum)
  from v len have sum': "f[k := b] ! 12 = sum_list (take 12 (f[k := b]))"
    by (auto simp: valid_frame_def calc_chksum_sum)
  show False
  proof (cases "k = 12")
    case True
    with sum sum' len assms(3) show False by simp
  next
    case False
    with assms(2) have k: "k < 12" by simp
    let ?t = "take 12 f"
    have "sum_list (?t[k := b]) = sum_list ?t + b - ?t ! k"
      using k len by (subst sum_list_update_word) simp_all
    with sum sum' k len False have "b = f ! k" by (simp add: take_update_swap)
    with assms(3) show False by simp
  qed
qed

theorem single_byte_corruption_detected_witness:
  "\<not> valid_frame ((encode HOST_COMP RTC (replicate 8 0))[5 := 7])"
proof (rule single_byte_corruption_detected)
  show "valid_frame (encode HOST_COMP RTC (replicate 8 0))"
    using encode_fields(1) [of "replicate 8 0"] by simp
  show "7 \<noteq> encode HOST_COMP RTC (replicate 8 0) ! 5"
    by (simp add: encode_eq nth_append)
qed simp

lemma uint_alarm_threshold_id:
  assumes "c < 9" and "l < 3"
  shows "uint (alarm_threshold_id c l) = 112 + 9 * uint l + uint c"
proof -
  from assms have "uint c < 9" "uint l < 3" by (simp_all add: word_less_def)
  then show ?thesis
    by (simp add: alarm_threshold_id_def uint_word_ariths mod_simps)
qed

lemma is_alarm_uint: "is_alarm_threshold_id i \<longleftrightarrow> 112 \<le> uint i \<and> uint i \<le> 138"
  by (simp add: is_alarm_threshold_id_def word_le_def)

lemma alarm_uints:
  assumes "is_alarm_threshold_id i"
  shows "uint (alarm_class_of i) = (uint i - 112) mod 9"
    and "uint (alarm_level_of i) = (uint i - 112) div 9"
proof -
  let ?d = "uint i - 112"
  from assms have d: "0 \<le> ?d" "?d \<le> 26" by (simp_all add: is_alarm_uint)
  then have sg: "sgn ?d * (\<bar>?d\<bar> mod 9) = ?d mod 9" "sgn ?d * (\<bar>?d\<bar> div 9) = ?d div 9"
    by (auto simp: sgn_if)
  from d have "take_bit 8 (?d mod 9) = ?d mod 9" "take_bit 8 (?d div 9) = ?d div 9"
    unfolding take_bit_eq_mod by (auto simp: mod_pos_pos_trivial)
  with sg show "uint (alarm_class_of i) = ?d mod 9" and "uint (alarm_level_of i) = ?d div 9"
    unfolding alarm_class_of_def alarm_level_of_def Let_def by (simp_all add: uint_word_of_int_eq)
qed

lemma alarm_id_roundtrip:
  assumes "c < 9" and "l < 3"
  shows "is_alarm_threshold_id (alarm_threshold_id c l)"
    and "alarm_class_of (alarm_threshold_id c l) = c"
    and "alarm_level_of (alarm_threshold_id c l) = l"
proof -
  from assms have u: "uint c < 9" "uint l < 3" "0 \<le> uint c" "0 \<le> uint l"
    by (simp_all add: word_less_def)
  note id = uint_alarm_threshold_id [OF assms]
  from u show is_id: "is_alarm_threshold_id (alarm_threshold_id c l)"
    by (simp add: is_alarm_uint id)
  from u have "uint (alarm_class_of (alarm_threshold_id c l)) = uint c"
    "uint (alarm_level_of (alarm_threshold_id c l)) = uint l"
    by (simp_all add: alarm_uints [OF is_id] id)
  then show "alarm_class_of (alarm_threshold_id c l) = c"
    and "alarm_level_of (alarm_threshold_id c l) = l"
    by (simp_all add: word_uint_eq_iff)
qed

lemma alarm_id_cases:
  assumes "is_alarm_threshold_id i"
  shows "alarm_class_of i < 9" and "alarm_level_of i < 3"
    and "alarm_threshold_id (alarm_class_of i) (alarm_level_of i) = i"
proof -
  from assms have d: "112 \<le> uint i" "uint i \<le> 138" by (simp_all add: is_alarm_uint)
  then show c: "alarm_class_of i < 9" and l: "alarm_level_of i < 3"
    by (auto simp: word_less_def alarm_uints [OF assms])
  from d show "alarm_threshold_id (alarm_class_of i) (alarm_level_of i) = i"
    by (simp add: word_uint_eq_iff uint_alarm_threshold_id [OF c l] alarm_uints [OF assms])
qed

text \<open>
  The alarm-threshold block is an exact grid.  The 27 in-range (class, level) pairs and
  the Data IDs 0x70..0x8A correspond one to one: the class and the level read back from the ID
  are the pair that made it, and every ID of the block is made by exactly one in-range pair.
\<close>

lemma alarm_threshold_grid:
  "bij_betw (\<lambda>(c, l). alarm_threshold_id c l) ({c. c < ALARM_CLASS_COUNT} \<times> {l. l < ALARM_LEVEL_COUNT})
     {i. is_alarm_threshold_id i} \<and>
   bij_betw (\<lambda>i. (alarm_class_of i, alarm_level_of i)) {i. is_alarm_threshold_id i}
     ({c. c < ALARM_CLASS_COUNT} \<times> {l. l < ALARM_LEVEL_COUNT})"
proof
  show "bij_betw (\<lambda>(c, l). alarm_threshold_id c l)
      ({c. c < ALARM_CLASS_COUNT} \<times> {l. l < ALARM_LEVEL_COUNT}) {i. is_alarm_threshold_id i}"
    by (rule bij_betw_byWitness [where f' = "\<lambda>i. (alarm_class_of i, alarm_level_of i)"])
      (auto simp: alarm_id_roundtrip alarm_id_cases)
  show "bij_betw (\<lambda>i. (alarm_class_of i, alarm_level_of i)) {i. is_alarm_threshold_id i}
      ({c. c < ALARM_CLASS_COUNT} \<times> {l. l < ALARM_LEVEL_COUNT})"
    by (rule bij_betw_byWitness [where f' = "\<lambda>(c, l). alarm_threshold_id c l"])
      (auto simp: alarm_id_roundtrip alarm_id_cases)
qed

section \<open>The set of commands\<close>

definition single_ids :: "data_id list" where
  "single_ids =
    [CAPACITY_VOLTAGE, BMU_CELL_TEMP_COUNT, TOTAL_CHARGE_DISCHARGE_AH, BATTERY_OPERATION_MODE,
     FIRMWARE_INDEX, BATTERY_PRODUCTION_DATE, CELL_VOLTAGE_ALARM, TOTAL_VOLTAGE_ALARM,
     CURRENT_ALARM, TEMPERATURE_ALARM, SOC_ALARM, DIFFERENCE_ALARM, BALANCING_PARAMS,
     CURRENT_PARAMS, RTC, BOARD_NUMBER, HEATING_TEMPERATURE, ACTIVE_BALANCING_SWITCH,
     ACTIVE_BALANCING_PARAMS, INVERTER_PARAMS, TOTAL_VOLTAGE_CURRENT_SOC,
     CELL_VOLTAGE_EXTREMES, CELL_TEMPERATURE_EXTREMES, CHARGE_DISCHARGE_MOS_STATUS, STATUS_INFO,
     CELL_BALANCING_BITS, FAULT_STATUS, BALANCING_STATE, BATTERY_STATUS, WAKEUP_SOURCE]"

definition paginated_ids :: "data_id list" where
  "paginated_ids =
    [MANUFACTURER_NAME, BATTERY_NAME, BATTERY_SERIAL_NUMBER, SN_SERIAL_NUMBER,
     SOFTWARE_VERSION, HARDWARE_VERSION, CELL_VOLTAGES, CELL_TEMPERATURES]"

definition mos_ids :: "data_id list" where
  "mos_ids = [DISCHARGE_MOS_CONTROL, CHARGE_MOS_CONTROL]"

lemma u8_interval:
  assumes "a \<le> x" and "x \<le> b"
  shows "(x :: u8) \<in> set (map of_nat [unat a..<Suc (unat b)])"
proof -
  have "x = of_nat (unat x)" by simp
  moreover have "unat x \<in> set [unat a..<Suc (unat b)]"
    using assms by (auto simp: word_le_nat_alt)
  ultimately show ?thesis by (metis image_eqI set_map)
qed

lemma known_ids_iff:
  "is_known_data_id i \<longleftrightarrow>
    i \<in> set single_ids \<or> i \<in> set paginated_ids \<or> i = FAULT_RECORDS \<or> i \<in> set mos_ids \<or>
    is_alarm_threshold_id i"
proof
  assume "is_known_data_id i"
  then consider "0x50 \<le> i" "i \<le> 0x6A" | "is_alarm_threshold_id i" | "0x90 \<le> i" "i \<le> 0x9A"
    | "0xD8 \<le> i" "i \<le> 0xDA"
    by (auto simp: is_known_data_id_def is_alarm_threshold_id_def)
  then show "i \<in> set single_ids \<or> i \<in> set paginated_ids \<or> i = FAULT_RECORDS \<or>
    i \<in> set mos_ids \<or> is_alarm_threshold_id i"
  proof cases
    case 1
    from u8_interval [OF 1] show ?thesis
      by (auto simp: single_ids_def paginated_ids_def mos_ids_def upt_rec)
  next
    case 3
    from u8_interval [OF 3] show ?thesis
      by (auto simp: single_ids_def paginated_ids_def mos_ids_def upt_rec)
  next
    case 4
    from u8_interval [OF 4] show ?thesis
      by (auto simp: single_ids_def paginated_ids_def mos_ids_def upt_rec)
  qed simp
next
  assume "i \<in> set single_ids \<or> i \<in> set paginated_ids \<or> i = FAULT_RECORDS \<or>
    i \<in> set mos_ids \<or> is_alarm_threshold_id i"
  then show "is_known_data_id i"
    by (auto simp: single_ids_def paginated_ids_def mos_ids_def is_known_data_id_def
        is_alarm_threshold_id_def)
qed

text \<open>
  \<open>is_known_data_id\<close> accepts exactly the commands of the enumeration: the 30 single-frame
  reads, the 8 paginated reads, the fault-record stream, the two MOSFET writes and the 27 alarm
  thresholds.  In particular \<open>DataId::NONE\<close> is not one of them.
\<close>

lemma known_data_ids:
  "is_known_data_id i \<longleftrightarrow>
    i \<in> set single_ids \<or> i \<in> set paginated_ids \<or> i = FAULT_RECORDS \<or> i \<in> set mos_ids \<or>
    is_alarm_threshold_id i"
  by (rule known_ids_iff)

section \<open>Readings of fields\<close>

lemma unat_be16:
  assumes "off + 1 < length data"
  shows "unat (be16 data off) = 256 * unat (data ! off) + unat (data ! (off + 1))"
proof -
  let ?h = "data ! off" and ?l = "data ! (off + 1)"
  have "push_bit 8 (ucast ?h) OR (ucast ?l :: u16) = push_bit 8 (ucast ?h) + ucast ?l"
    by (rule disjunctive_add [symmetric]) (auto simp: bit_simps dest: bit_imp_le_length)
  moreover have "unat (push_bit 8 (ucast ?h) + (ucast ?l :: u16)) = 256 * unat ?h + unat ?l"
    using unat_le_255 [of ?h] unat_le_255 [of ?l]
    by (simp add: push_bit_eq_mult unat_word_ariths)
  ultimately show ?thesis by (simp add: be16_def)
qed

text \<open>
  The bias of a current reading.  A raw current is the signed value raw - 30000 as long as
  raw is at most 62767; above that the 16-bit result wraps, and the reading is that value less
  65536 (a strong charge current reads as a discharge current).
\<close>

lemma current_reading:
  "sint (to_current_da raw) =
    (if uint raw \<le> 62767 then uint raw - 30000 else uint raw - 30000 - 65536)"
proof -
  have b: "0 \<le> uint raw" "uint raw < 65536" using uint_lt2p [of raw] by simp_all
  have "sint (to_current_da raw) = (uint raw - 30000 + 32768) mod 65536 - 32768"
    unfolding to_current_da_def sint_sbintrunc' signed_take_bit_eq_take_bit_shift take_bit_eq_mod
    by simp
  moreover have "(uint raw - 30000 + 32768) mod 65536 = uint raw + 2768" if "uint raw \<le> 62767"
    using b that by (simp add: mod_pos_pos_trivial)
  moreover have "(uint raw - 30000 + 32768) mod 65536 = uint raw + 2768 - 65536"
    if "\<not> uint raw \<le> 62767"
    using b that minus_mod_self2 [of "uint raw + 2768" 65536]
    by (simp add: mod_pos_pos_trivial add.commute)
  ultimately show ?thesis by simp
qed

lemma temperature_reading: "sint (to_temperature_c raw) = uint raw - 40"
proof -
  have b: "0 \<le> uint raw" "uint raw < 256" using uint_lt2p [of raw] by simp_all
  then show ?thesis
    unfolding to_temperature_c_def sint_sbintrunc' by (simp add: signed_take_bit_int_eq_self)
qed

lemma year_reading: "uint (to_year raw) = uint raw + 2000"
proof -
  have b: "0 \<le> uint raw" "uint raw < 256" using uint_lt2p [of raw] by simp_all
  then show ?thesis
    unfolding to_year_def uint_word_of_int by simp
qed

end
