(* ===== verification/FrameParser.thy ===== *)
theory FrameParser
  imports Protocol
begin

text \<open>
  The byte-stream framer: \<open>include/haidi_frame_parser.hpp\<close> and \<open>src/haidi_frame_parser.cpp\<close>.

  \<open>feed\<close> calls back into its owner, which may reset the framer from inside the callback, so
  the body of its loop is split at the callback, which is the last thing every iteration does:
  \<open>feed_byte\<close> is the iteration up to it, and \<open>feed_with\<close> is the loop, which stores the
  framer back, runs the callback on the owner's whole state and goes on with the framer it
  finds there.  The owner is any state \<open>'s\<close> that holds a framer (\<open>get\<close>, \<open>put\<close>).
\<close>

datatype frame_error = FE_BAD_LENGTH | FE_CHECKSUM

record frame_parser =
  buf :: message_bytes
  len :: nat
  discarded :: u32

definition init_parser :: frame_parser where
  "init_parser = \<lparr>buf = replicate MSG_MAX_LEN 0, len = 0, discarded = 0\<rparr>"

definition parser_reset :: "frame_parser \<Rightarrow> frame_parser" where
  "parser_reset p = p\<lparr>len := 0, discarded := 0\<rparr>"

definition buffered :: "frame_parser \<Rightarrow> nat" where
  "buffered p = len p"

definition discarded_count :: "frame_parser \<Rightarrow> u32" where
  "discarded_count p = discarded p"

section \<open>Resynchronisation\<close>

text \<open>The scanning loop of \<open>resync\<close>: \<open>next\<close> and the discard counter.\<close>

function resync_scan :: "message_bytes \<Rightarrow> nat \<Rightarrow> nat \<Rightarrow> u32 \<Rightarrow> (nat \<times> u32) option" where
  "resync_scan b n next d =
    (if next < n
     then do {
       byte \<leftarrow> rd b next;
       if byte \<noteq> START_FLAG then resync_scan b n (next + 1) (d + 1) else Some (next, d)
     }
     else Some (next, d))"
  by pat_completeness auto
termination
  by (relation "measure (\<lambda>(b, n, next, d). n - next)") auto

declare resync_scan.simps [simp del]

definition resync :: "frame_parser \<Rightarrow> frame_parser option" where
  "resync p = do {
     (next, d) \<leftarrow> resync_scan (buf p) (len p) 1 (discarded p + 1);
     let remaining = size_sub (len p) next;
     b \<leftarrow> for_loop [0..<remaining] (\<lambda>i b. do { x \<leftarrow> rd b (next + i); wr b i x }) (buf p);
     Some (p\<lparr>buf := b, len := remaining, discarded := d\<rparr>)
   }"

section \<open>One byte\<close>

datatype parser_output = FrameOut message_bytes | ErrorOut frame_error

text \<open>What an iteration does once the byte is stored: the two checks.\<close>

definition check_buffer :: "frame_parser \<Rightarrow> (frame_parser \<times> parser_output option) option" where
  "check_buffer p = do {
     lenfield \<leftarrow> rd (buf p) MSG_LEN_INDEX;
     if len p = DATA_OFFSET \<and> lenfield \<noteq> LENGTH_FLAG then do {
       p' \<leftarrow> resync p;
       Some (p', Some (ErrorOut FE_BAD_LENGTH))
     }
     else if len p < MSG_MAX_LEN then Some (p, None)
     else do {
       sum \<leftarrow> rd (buf p) MSG_LAST_INDEX;
       if sum = calc_chksum (buf p) then Some (p\<lparr>len := 0\<rparr>, Some (FrameOut (buf p)))
       else do {
         p' \<leftarrow> resync p;
         Some (p', Some (ErrorOut FE_CHECKSUM))
       }
     }
   }"

definition feed_byte :: "u8 \<Rightarrow> frame_parser \<Rightarrow> (frame_parser \<times> parser_output option) option" where
  "feed_byte byte p =
    (if len p = 0 \<and> byte \<noteq> START_FLAG then Some (p\<lparr>discarded := discarded p + 1\<rparr>, None)
     else do {
       b \<leftarrow> wr (buf p) (len p) byte;
       check_buffer (p\<lparr>buf := b, len := len p + 1\<rparr>)
     })"

section \<open>The loop and its callbacks\<close>

definition deliver ::
  "(message_bytes \<Rightarrow> 's \<Rightarrow> 's option) option \<Rightarrow> (frame_error \<Rightarrow> 's \<Rightarrow> 's option) option \<Rightarrow>
   parser_output option \<Rightarrow> 's \<Rightarrow> 's option" where
  "deliver sink on_error out s =
    (case out of
       None \<Rightarrow> Some s
     | Some (FrameOut f) \<Rightarrow> (case sink of None \<Rightarrow> Some s | Some g \<Rightarrow> g f s)
     | Some (ErrorOut e) \<Rightarrow> (case on_error of None \<Rightarrow> Some s | Some g \<Rightarrow> g e s))"

fun feed_with ::
  "('s \<Rightarrow> frame_parser) \<Rightarrow> (frame_parser \<Rightarrow> 's \<Rightarrow> 's) \<Rightarrow>
   (message_bytes \<Rightarrow> 's \<Rightarrow> 's option) option \<Rightarrow> (frame_error \<Rightarrow> 's \<Rightarrow> 's option) option \<Rightarrow>
   u8 list \<Rightarrow> 's \<Rightarrow> 's option" where
  "feed_with get put sink on_error [] s = Some s"
| "feed_with get put sink on_error (byte # bytes) s = do {
     (p, out) \<leftarrow> feed_byte byte (get s);
     s' \<leftarrow> deliver sink on_error out (put p s);
     feed_with get put sink on_error bytes s'
   }"

text \<open>\<open>feed\<close> itself: a null data pointer is ignored.\<close>

definition parser_feed ::
  "('s \<Rightarrow> frame_parser) \<Rightarrow> (frame_parser \<Rightarrow> 's \<Rightarrow> 's) \<Rightarrow>
   (message_bytes \<Rightarrow> 's \<Rightarrow> 's option) option \<Rightarrow> (frame_error \<Rightarrow> 's \<Rightarrow> 's option) option \<Rightarrow>
   u8 list option \<Rightarrow> 's \<Rightarrow> 's option" where
  "parser_feed get put sink on_error data s =
    (case data of None \<Rightarrow> Some s | Some bytes \<Rightarrow> feed_with get put sink on_error bytes s)"

text \<open>
  The framer on its own, with callbacks that record what they are given: the owner is the
  framer and the list of its outputs so far.
\<close>

type_synonym recorder = "frame_parser \<times> parser_output list"

definition rec_put :: "frame_parser \<Rightarrow> recorder \<Rightarrow> recorder" where
  "rec_put p s = (p, snd s)"

definition rec_frame :: "message_bytes \<Rightarrow> recorder \<Rightarrow> recorder option" where
  "rec_frame f s = Some (fst s, snd s @ [FrameOut f])"

definition rec_error :: "frame_error \<Rightarrow> recorder \<Rightarrow> recorder option" where
  "rec_error e s = Some (fst s, snd s @ [ErrorOut e])"

definition frame_parser_run :: "u8 list \<Rightarrow> recorder \<Rightarrow> recorder option" where
  "frame_parser_run bytes = parser_feed fst rec_put (Some rec_frame) (Some rec_error) (Some bytes)"

section \<open>Abstract framer: the buffered bytes as a list\<close>

definition parser_inv :: "frame_parser \<Rightarrow> bool" where
  "parser_inv p \<longleftrightarrow>
    length (buf p) = MSG_MAX_LEN \<and> len p < MSG_MAX_LEN \<and>
    (0 < len p \<longrightarrow> buf p ! 0 = START_FLAG)"

definition content :: "frame_parser \<Rightarrow> u8 list" where
  "content p = take (len p) (buf p)"

text \<open>Dropping the first byte and everything up to the next byte that could start a frame.\<close>

definition sync :: "u8 list \<Rightarrow> u8 list" where
  "sync c = dropWhile (\<lambda>b. b \<noteq> START_FLAG) (tl c)"

text \<open>
  The specification of one byte, over the buffered bytes: the new buffer, the number of bytes
  thrown away, and what is reported.
\<close>

definition spec_byte :: "u8 \<Rightarrow> u8 list \<Rightarrow> u8 list \<times> nat \<times> parser_output option" where
  "spec_byte b c =
    (if c = [] \<and> b \<noteq> START_FLAG then ([], 1, None)
     else let c' = c @ [b]; drop_bytes = length c' - length (sync c') in
       if length c' = 4 \<and> c' ! 3 \<noteq> LENGTH_FLAG then (sync c', drop_bytes, Some (ErrorOut FE_BAD_LENGTH))
       else if length c' < 13 then (c', 0, None)
       else if c' ! 12 = calc_chksum c' then ([], 0, Some (FrameOut c'))
       else (sync c', drop_bytes, Some (ErrorOut FE_CHECKSUM)))"

lemma length_sync: "c \<noteq> [] \<Longrightarrow> length (sync c) < length c"
  using length_dropWhile_le [of "\<lambda>b. b \<noteq> START_FLAG" "tl c"]
  by (cases c) (auto simp: sync_def)

lemma hd_sync: "sync c \<noteq> [] \<Longrightarrow> hd (sync c) = START_FLAG"
  using hd_dropWhile [of "\<lambda>b. b \<noteq> START_FLAG" "tl c"] by (auto simp: sync_def)

lemma resync_scan_eq:
  assumes "n \<le> length b" and "next \<le> n"
  shows "resync_scan b n next d =
    Some (n - length (dropWhile (\<lambda>x. x \<noteq> START_FLAG) (drop next (take n b))),
          d + of_nat (n - next - length (dropWhile (\<lambda>x. x \<noteq> START_FLAG) (drop next (take n b)))))"
  using assms
proof (induction b n "next" d rule: resync_scan.induct)
  case (1 b n "next" d)
  show ?case
  proof (cases "next < n")
    case True
    with 1 have split: "drop next (take n b) = b ! next # drop (next + 1) (take n b)"
      by (metis Cons_nth_drop_Suc Suc_eq_plus1 length_take min.absorb2 nth_take)
    let ?r = "length (dropWhile (\<lambda>x. x \<noteq> START_FLAG) (drop (next + 1) (take n b)))"
    have r: "?r \<le> n - (next + 1)"
      using length_dropWhile_le [of "\<lambda>x. x \<noteq> START_FLAG" "drop (next + 1) (take n b)"] 1 by simp
    show ?thesis
    proof (cases "b ! next = START_FLAG")
      case True
      with \<open>next < n\<close> 1 show ?thesis by (subst resync_scan.simps) (simp add: split)
    next
      case False
      have rd: "rd b next = Some (b ! next)" using \<open>next < n\<close> 1 by simp
      have "n - next - ?r = Suc (n - (next + 1) - ?r)" using \<open>next < n\<close> r by simp
      then have d: "d + 1 + of_nat (n - (next + 1) - ?r) = d + of_nat (n - next - ?r)" by simp
      have "resync_scan b n next d = resync_scan b n (next + 1) (d + 1)"
        using \<open>next < n\<close> False rd by (subst resync_scan.simps) simp
      also have "\<dots> = Some (n - ?r, d + 1 + of_nat (n - (next + 1) - ?r))"
        using "1.IH" [OF \<open>next < n\<close> rd] False \<open>next < n\<close> "1.prems" by simp
      finally show ?thesis using False by (simp only: d split) simp
    qed
  next
    case False
    with 1 show ?thesis by (subst resync_scan.simps) simp
  qed
qed

lemma resync_eq:
  assumes "length (buf p) = 13" and "0 < len p" and "len p \<le> 13"
  shows "\<exists>p'. resync p = Some p' \<and> length (buf p') = 13 \<and> content p' = sync (content p) \<and>
    len p' = length (sync (content p)) \<and>
    discarded p' = discarded p + of_nat (len p - length (sync (content p)))"
proof -
  let ?c = "content p" and ?r = "length (sync (content p))"
  have lc: "length ?c = len p" using assms by (simp add: content_def)
  then have r: "?r < len p" using assms(2) length_sync [of ?c] by fastforce
  have tl: "drop 1 (take (len p) (buf p)) = tl ?c" by (simp add: content_def drop_Suc)
  have scan: "resync_scan (buf p) (len p) 1 (discarded p + 1) =
      Some (len p - ?r, discarded p + 1 + of_nat (len p - 1 - ?r))"
  proof -
    have "len p \<le> length (buf p)" "1 \<le> len p" using assms by simp_all
    from resync_scan_eq [OF this] show ?thesis by (simp only: tl sync_def)
  qed
  let ?next = "len p - ?r"
  have loop: "for_loop [0..<?r] (\<lambda>i b. do { x \<leftarrow> rd b (?next + i); wr b i x }) (buf p) =
      Some (take ?r (drop ?next (buf p)) @ drop ?r (buf p))"
    using for_loop_fold [of "[0..<?r]" "\<lambda>b. length b = 13"
        "\<lambda>i b. do { x \<leftarrow> rd b (?next + i); wr b i x }" "\<lambda>i b. b[i := b ! (?next + i)]" "buf p"]
      fold_shift [of ?next ?r "buf p"] assms r by simp
  have "take ?r (drop ?next (buf p)) = drop ?next ?c"
    using r by (simp add: content_def drop_take)
  also have "\<dots> = sync ?c"
  proof -
    have "sync ?c = drop (length (takeWhile (\<lambda>b. b \<noteq> START_FLAG) (tl ?c))) (tl ?c)"
      by (simp add: sync_def dropWhile_eq_drop)
    then have "sync ?c = drop (1 + length (takeWhile (\<lambda>b. b \<noteq> START_FLAG) (tl ?c))) ?c"
      by (simp add: drop_Suc)
    then show ?thesis
      by (metis (no_types, lifting) diff_diff_cancel drop_all lc le_cases length_drop r
          order_less_imp_le diff_is_0_eq' length_0_conv)
  qed
  finally have slot: "take ?r (drop ?next (buf p)) = sync ?c" .
  have "discarded p + 1 + of_nat (len p - 1 - ?r) = discarded p + of_nat (Suc (len p - 1 - ?r))"
    by simp
  also have "Suc (len p - 1 - ?r) = len p - ?r" using r by simp
  finally have d: "discarded p + 1 + of_nat (len p - 1 - ?r) = discarded p + of_nat (len p - ?r)" .
  have sz: "size_sub (len p) ?next = ?r" using r by simp
  have "resync p = Some (p\<lparr>buf := sync ?c @ drop ?r (buf p), len := ?r,
      discarded := discarded p + of_nat (len p - ?r)\<rparr>)"
    by (simp only: resync_def scan Option.bind.simps prod.case Let_def sz loop slot d)
  then show ?thesis using assms r by (simp add: content_def)
qed


text \<open>The concrete framer refines the abstract one, and in particular never fails.\<close>

lemma feed_byte_refines:
  assumes inv: "parser_inv p" and spec: "spec_byte b (content p) = (c', n, out)"
  shows "\<exists>p'. feed_byte b p = Some (p', out) \<and> parser_inv p' \<and> content p' = c' \<and>
    discarded p' = discarded p + of_nat n"
proof (cases "len p = 0 \<and> b \<noteq> START_FLAG")
  case True
  then have "content p = []" by (simp add: content_def)
  with True inv spec show ?thesis
    by (auto simp: feed_byte_def spec_byte_def parser_inv_def content_def)
next
  case False
  define q where "q = p\<lparr>buf := (buf p)[len p := b], len := Suc (len p)\<rparr>"
  from inv have len: "length (buf p) = 13" "len p < 13" by (simp_all add: parser_inv_def)
  have q: "length (buf q) = 13" "0 < len q" "len q \<le> 13" "discarded q = discarded p"
    using len by (simp_all add: q_def)
  have c: "content q = content p @ [b]"
    using len by (simp add: q_def content_def take_Suc_conv_app_nth)
  have nonempty: "\<not> (content p = [] \<and> b \<noteq> START_FLAG)"
    using False len by (auto simp: content_def)
  have lc: "length (content q) = len q" using q by (simp add: content_def)
  have start: "buf q ! 0 = START_FLAG"
    using False inv len by (cases "len p") (auto simp: parser_inv_def q_def)
  have code: "feed_byte b p =
    (if len q = 4 \<and> buf q ! 3 \<noteq> LENGTH_FLAG
     then map_option (\<lambda>r. (r, Some (ErrorOut FE_BAD_LENGTH))) (resync q)
     else if len q < 13 then Some (q, None)
     else if buf q ! 12 = calc_chksum (buf q) then Some (q\<lparr>len := 0\<rparr>, Some (FrameOut (buf q)))
     else map_option (\<lambda>r. (r, Some (ErrorOut FE_CHECKSUM))) (resync q))"
  proof -
    have "feed_byte b p = check_buffer q"
      using False len by (auto simp: feed_byte_def q_def)
    with q show ?thesis by (cases "resync q") (auto simp: check_buffer_def)
  qed
  have bytes: "buf q = content q" if "\<not> len q < 13"
    using that q by (simp add: content_def)
  obtain r where r: "resync q = Some r" "length (buf r) = 13"
      "content r = sync (content q)" "len r = length (sync (content q))"
      "discarded r = discarded p + of_nat (len q - length (sync (content q)))"
    using resync_eq [of q] q by auto
  have r_inv: "parser_inv r"
  proof -
    have "len r < 13" using r(4) length_sync [of "content q"] lc q by fastforce
    moreover have "buf r ! 0 = START_FLAG" if "0 < len r"
    proof -
      have "buf r \<noteq> []" using r(2) by auto
      with that have "buf r ! 0 = hd (content r)"
        by (simp add: content_def hd_conv_nth)
      with that r(3,4) hd_sync [of "content q"] show ?thesis by auto
    qed
    ultimately show ?thesis using r(2) by (simp add: parser_inv_def)
  qed
  have abs: "spec_byte b (content p) =
    (if len q = 4 \<and> buf q ! 3 \<noteq> LENGTH_FLAG
     then (sync (content q), len q - length (sync (content q)), Some (ErrorOut FE_BAD_LENGTH))
     else if len q < 13 then (content q, 0, None)
     else if content q ! 12 = calc_chksum (content q) then ([], 0, Some (FrameOut (content q)))
     else (sync (content q), len q - length (sync (content q)), Some (ErrorOut FE_CHECKSUM)))"
    using nonempty lc unfolding spec_byte_def c [symmetric] Let_def
    by (auto simp: content_def)
  have q_inv: "parser_inv q" if "len q < 13" using that q start by (simp add: parser_inv_def)
  have q0: "parser_inv (q\<lparr>len := 0\<rparr>)" "content (q\<lparr>len := 0\<rparr>) = []"
    using q by (simp_all add: parser_inv_def content_def)
  show ?thesis
    using spec r r_inv q_inv q0 q(4) bytes unfolding code abs
    by (cases "len q = 4 \<and> buf q ! 3 \<noteq> LENGTH_FLAG"; cases "len q < 13";
        cases "content q ! 12 = calc_chksum (content q)") auto
qed


lemma spec_frame_valid:
  assumes "spec_byte b (content p) = (c', n, Some (FrameOut f))" and "parser_inv p"
  shows "valid_frame f" and "f = content p @ [b]"
proof -
  have f: "f = content p @ [b]" "\<not> (content p = [] \<and> b \<noteq> START_FLAG)"
      "\<not> length f < 13" "f ! 12 = calc_chksum f"
    using assms(1) by (auto simp: spec_byte_def Let_def split: if_splits)
  have "f ! 0 = START_FLAG"
    using f(1,2) assms(2) by (cases "len p") (auto simp: content_def parser_inv_def nth_append)
  moreover have "length f = 13"
    using f(1,3) assms(2) by (simp add: content_def parser_inv_def)
  ultimately show "valid_frame f" using f(4) by (simp add: valid_frame_def)
  show "f = content p @ [b]" by (rule f(1))
qed

section \<open>The contract between the framer and the owner of its callbacks\<close>

text \<open>
  What the owner provides: access to the framer it holds, an invariant \<open>I\<close> that storing a
  well-formed framer keeps, and callbacks that return and keep it, the frame callback for valid
  frames only.  What the framer promises in turn: feeding any bytes returns and keeps \<open>I\<close>.
\<close>

locale framer_client =
  fixes get :: "'s \<Rightarrow> frame_parser" and put :: "frame_parser \<Rightarrow> 's \<Rightarrow> 's"
    and sink :: "message_bytes \<Rightarrow> 's \<Rightarrow> 's option" and on_error :: "frame_error \<Rightarrow> 's \<Rightarrow> 's option"
    and I :: "'s \<Rightarrow> bool"
  assumes I_parser: "I s \<Longrightarrow> parser_inv (get s)"
    and I_put: "I s \<Longrightarrow> parser_inv p \<Longrightarrow> I (put p s)"
    and sink_ok: "I s \<Longrightarrow> valid_frame f \<Longrightarrow> \<exists>s'. sink f s = Some s' \<and> I s'"
    and error_ok: "I s \<Longrightarrow> \<exists>s'. on_error e s = Some s' \<and> I s'"
begin

lemma byte_total:
  assumes "I s"
  shows "\<exists>p out s'. feed_byte b (get s) = Some (p, out) \<and>
    deliver (Some sink) (Some on_error) out (put p s) = Some s' \<and> I s'"
proof -
  obtain c n out where spec: "spec_byte b (content (get s)) = (c, n, out)"
    by (metis prod_cases3)
  from feed_byte_refines [OF I_parser [OF assms] spec] obtain p
    where p: "feed_byte b (get s) = Some (p, out)" "parser_inv p" by blast
  have put: "I (put p s)" using assms p(2) by (rule I_put)
  have "\<exists>s'. deliver (Some sink) (Some on_error) out (put p s) = Some s' \<and> I s'"
  proof (cases out)
    case None
    with put show ?thesis by (simp add: deliver_def)
  next
    case (Some out')
    then show ?thesis
      using put sink_ok [OF put] error_ok [OF put]
        spec_frame_valid(1) [OF _ I_parser [OF assms], of b c n] spec
      by (cases out') (auto simp: deliver_def)
  qed
  with p(1) show ?thesis by blast
qed

lemma feed_total: "I s \<Longrightarrow> \<exists>s'. feed_with get put (Some sink) (Some on_error) bytes s = Some s' \<and> I s'"
proof (induction bytes arbitrary: s)
  case (Cons b bytes)
  from byte_total [OF Cons.prems, of b] obtain p out s' where
    "feed_byte b (get s) = Some (p, out)" "deliver (Some sink) (Some on_error) out (put p s) = Some s'"
    "I s'" by blast
  with Cons.IH [of s'] show ?case by simp
qed simp

lemma parser_feed_total:
  "I s \<Longrightarrow> \<exists>s'. parser_feed get put (Some sink) (Some on_error) data s = Some s' \<and> I s'"
  using feed_total by (cases data) (auto simp: parser_feed_def)

end

definition rec_inv :: "recorder \<Rightarrow> bool" where
  "rec_inv s \<longleftrightarrow> parser_inv (fst s) \<and> (\<forall>f. FrameOut f \<in> set (snd s) \<longrightarrow> valid_frame f)"

interpretation rec_client: framer_client fst rec_put rec_frame rec_error rec_inv
  by unfold_locales (auto simp: rec_inv_def rec_put_def rec_frame_def rec_error_def)

lemma init_parser_inv [simp]: "parser_inv init_parser" "content init_parser = []"
  by (simp_all add: init_parser_def parser_inv_def content_def)

text \<open>
  C29: the framer is total and sound.  Fed any bytes at all, in its initial state or in any
  state reached from it, it neither accesses its buffer out of bounds nor loops, never holds a
  complete frame between bytes, and every frame it delivers has 13 bytes, opens with the start
  flag and carries its own checksum.
\<close>

theorem framer_total_and_sound:
  assumes "parser_inv p"
  shows "\<exists>p' outs. frame_parser_run bytes (p, []) = Some (p', outs) \<and> parser_inv p' \<and>
    buffered p' < MSG_MAX_LEN \<and> (\<forall>f. FrameOut f \<in> set outs \<longrightarrow> valid_frame f)"
proof -
  have "rec_inv (p, [])" using assms by (simp add: rec_inv_def)
  from rec_client.parser_feed_total [OF this, of "Some bytes"] show ?thesis
    by (auto simp: frame_parser_run_def rec_inv_def buffered_def parser_inv_def)
qed

theorem framer_total_and_sound_witness:
  "\<exists>p' outs. frame_parser_run [0xA5, 0x01, 0x90, 0x08, 0xA5] (init_parser, []) = Some (p', outs) \<and>
    buffered p' < MSG_MAX_LEN"
  using framer_total_and_sound [of init_parser "[0xA5, 0x01, 0x90, 0x08, 0xA5]"] by auto

section \<open>Streams\<close>

fun spec_run :: "u8 list \<Rightarrow> u8 list \<Rightarrow> u8 list \<times> nat \<times> parser_output list" where
  "spec_run [] c = (c, 0, [])"
| "spec_run (b # bs) c =
    (let (c1, n1, out) = spec_byte b c; (c2, n2, outs) = spec_run bs c1
     in (c2, n1 + n2, (case out of None \<Rightarrow> outs | Some x \<Rightarrow> x # outs)))"

lemma run_refines:
  assumes "parser_inv p" and "spec_run bs (content p) = (c', n, outs')"
  shows "\<exists>p'. frame_parser_run bs (p, outs) = Some (p', outs @ outs') \<and> parser_inv p' \<and>
    content p' = c' \<and> discarded p' = discarded p + of_nat n"
  using assms
proof (induction bs arbitrary: p outs c' n outs')
  case Nil
  then show ?case by (simp add: frame_parser_run_def parser_feed_def)
next
  case (Cons b bs)
  obtain c1 n1 out where s1: "spec_byte b (content p) = (c1, n1, out)" by (metis prod_cases3)
  obtain c2 n2 outs2 where s2: "spec_run bs c1 = (c2, n2, outs2)" by (metis prod_cases3)
  from feed_byte_refines [OF Cons.prems(1) s1] obtain p1 where p1:
    "feed_byte b p = Some (p1, out)" "parser_inv p1" "content p1 = c1"
    "discarded p1 = discarded p + of_nat n1" by blast
  let ?outs1 = "case out of None \<Rightarrow> outs | Some x \<Rightarrow> outs @ [x]"
  have step: "frame_parser_run (b # bs) (p, outs) = frame_parser_run bs (p1, ?outs1)"
    using p1(1) by (auto simp: frame_parser_run_def parser_feed_def deliver_def rec_put_def
        rec_frame_def rec_error_def split: option.split parser_output.split)
  from Cons.IH [OF p1(2), of c2 n2 outs2 ?outs1] p1(3,4) s2 obtain p' where
    "frame_parser_run bs (p1, ?outs1) = Some (p', ?outs1 @ outs2)" "parser_inv p'" "content p' = c2"
    "discarded p' = discarded p + of_nat n1 + of_nat n2" by auto
  with step Cons.prems(2) s1 s2 show ?case by (auto simp: add.assoc split: option.splits)
qed


text \<open>The frames of an output sequence.\<close>

definition frames_of :: "parser_output list \<Rightarrow> message_bytes list" where
  "frames_of outs = List.map_filter (\<lambda>x. case x of FrameOut f \<Rightarrow> Some f | ErrorOut e \<Rightarrow> None) outs"

lemma frames_of_simps [simp]:
  "frames_of [] = []" "frames_of (FrameOut f # outs) = f # frames_of outs"
  "frames_of (ErrorOut e # outs) = frames_of outs"
  by (simp_all add: frames_of_def List.map_filter_simps)

text \<open>A run as a partition of the stream: junk and frames alternate, then the buffer.\<close>

definition weave :: "u8 list list \<Rightarrow> message_bytes list \<Rightarrow> u8 list" where
  "weave gaps fs = concat (map2 (@) gaps fs)"

lemma weave_simps [simp]: "weave [] [] = []" "weave (g # gs) (f # fs) = g @ f @ weave gs fs"
  by (simp_all add: weave_def)

lemma sync_suffix: "c \<noteq> [] \<Longrightarrow> \<exists>junk. c = junk @ sync c \<and> length junk = length c - length (sync c)"
proof -
  assume "c \<noteq> []"
  let ?t = "takeWhile (\<lambda>b. b \<noteq> START_FLAG) (tl c)"
  have "c = (hd c # ?t) @ sync c" using \<open>c \<noteq> []\<close> by (simp add: sync_def)
  moreover from this have "length (hd c # ?t) = length c - length (sync c)"
    by (metis add_diff_cancel_right' length_append)
  ultimately show ?thesis by blast
qed

lemma spec_byte_partition:
  assumes "spec_byte b c = (c', n, out)"
  shows "\<exists>junk. c @ [b] = junk @ (case out of Some (FrameOut f) \<Rightarrow> f | _ \<Rightarrow> c') \<and>
    length junk = n \<and> (case out of Some (FrameOut f) \<Rightarrow> c' = [] | _ \<Rightarrow> True)"
  using assms sync_suffix [of "c @ [b]"]
  by (auto simp: spec_byte_def Let_def split: if_splits)

lemma spec_run_partition:
  assumes "spec_run bs c = (c', n, outs)"
  shows "\<exists>gaps rest. c @ bs = weave gaps (frames_of outs) @ rest @ c' \<and>
    length gaps = length (frames_of outs) \<and> sum_list (map length gaps) + length rest = n"
  using assms
proof (induction bs arbitrary: c c' n outs)
  case Nil
  then show ?case by (intro exI [of _ "[]"]) simp
next
  case (Cons b bs)
  obtain c1 n1 out where s1: "spec_byte b c = (c1, n1, out)" by (metis prod_cases3)
  obtain c2 n2 outs2 where s2: "spec_run bs c1 = (c2, n2, outs2)" by (metis prod_cases3)
  from spec_byte_partition [OF s1] obtain junk where junk:
    "c @ [b] = junk @ (case out of Some (FrameOut f) \<Rightarrow> f | _ \<Rightarrow> c1)" "length junk = n1"
    "case out of Some (FrameOut f) \<Rightarrow> c1 = [] | _ \<Rightarrow> True" by blast
  from Cons.IH [OF s2] obtain gaps rest where IH: "c1 @ bs = weave gaps (frames_of outs2) @ rest @ c2"
    "length gaps = length (frames_of outs2)" "sum_list (map length gaps) + length rest = n2" by blast
  have res: "c' = c2" "n = n1 + n2" "outs = (case out of None \<Rightarrow> outs2 | Some x \<Rightarrow> x # outs2)"
    using Cons.prems s1 s2 by auto
  show ?case
  proof (cases "\<exists>f. out = Some (FrameOut f)")
    case True
    then obtain f where f: "out = Some (FrameOut f)" by blast
    from junk f have cb: "c @ [b] = junk @ f" "c1 = []" by simp_all
    have "c @ b # bs = (c @ [b]) @ bs" by simp
    also have "\<dots> = junk @ f @ weave gaps (frames_of outs2) @ rest @ c2"
      using cb IH(1) by simp
    also have "\<dots> = weave (junk # gaps) (frames_of outs) @ rest @ c'"
      using f res by simp
    finally have "c @ b # bs = weave (junk # gaps) (frames_of outs) @ rest @ c'" .
    moreover have "length (junk # gaps) = length (frames_of outs)"
      "sum_list (map length (junk # gaps)) + length rest = n" using f junk IH res by auto
    ultimately show ?thesis by blast
  next
    case False
    then have fo: "frames_of outs = frames_of outs2"
      using res(3) by (auto split: option.splits) (metis parser_output.exhaust frames_of_simps(3))
    from False junk(1) have c: "c @ [b] = junk @ c1" by (auto split: option.splits parser_output.splits)
    have "c @ b # bs = (c @ [b]) @ bs" by simp
    also have "\<dots> = junk @ weave gaps (frames_of outs2) @ rest @ c2"
      using c IH(1) by simp
    finally have stream: "c @ b # bs = junk @ weave gaps (frames_of outs2) @ rest @ c2" .
    show ?thesis
    proof (cases gaps)
      case Nil
      with stream fo IH res junk(2) show ?thesis
        by (intro exI [of _ "[]"] exI [of _ "junk @ rest"]) (simp add: weave_def)
    next
      case (Cons g gs)
      then obtain f fs where "frames_of outs2 = f # fs" using IH(2) by (cases "frames_of outs2") auto
      with Cons stream fo IH res junk(2) show ?thesis
        by (intro exI [of _ "(junk @ g) # gs"] exI [of _ rest]) simp
    qed
  qed
qed

lemma feed_with_append:
  "feed_with get put sink err (xs @ ys) s =
    feed_with get put sink err xs s \<bind> feed_with get put sink err ys"
proof (induction xs arbitrary: s)
  case (Cons x xs)
  show ?case
    by (cases "feed_byte x (get s)")
      (auto simp: Cons.IH split: Option.bind_splits)
qed simp

text \<open>
  C34: no byte is lost, invented or used twice.  The bytes fed to a fresh framer are, in order,
  junk and delivered frames in alternation, then junk, then the bytes still buffered; and the
  discard counter is the number of junk bytes (modulo 2^32, the width of the counter).
\<close>

theorem framer_partitions_stream:
  "\<exists>p outs gaps rest. frame_parser_run bytes (init_parser, []) = Some (p, outs) \<and>
    bytes = weave gaps (frames_of outs) @ rest @ content p \<and>
    length gaps = length (frames_of outs) \<and>
    discarded_count p = of_nat (sum_list (map length gaps) + length rest)"
proof -
  obtain c' n outs where s: "spec_run bytes (content init_parser) = (c', n, outs)"
    by (metis prod_cases3)
  from run_refines [OF init_parser_inv(1) s, of "[]"] obtain p where
    "frame_parser_run bytes (init_parser, []) = Some (p, outs)" "content p = c'"
    "discarded p = of_nat n" by (auto simp: init_parser_def)
  moreover from spec_run_partition [OF s] obtain gaps rest where
    "bytes = weave gaps (frames_of outs) @ rest @ c'" "length gaps = length (frames_of outs)"
    "sum_list (map length gaps) + length rest = n" by auto
  ultimately show ?thesis unfolding discarded_count_def by blast
qed

text \<open>
  The result does not depend on the chunking.  For any owner and any callbacks, feeding two
  chunks one after the other is feeding their concatenation.
\<close>

lemma feed_chunking:
  "parser_feed get put sink err (Some (xs @ ys)) s =
    parser_feed get put sink err (Some xs) s \<bind> parser_feed get put sink err (Some ys)"
  by (cases "feed_with get put sink err xs s") (simp_all add: parser_feed_def feed_with_append)

section \<open>Clean streams and recovery\<close>

lemma spec_run_append:
  "spec_run (xs @ ys) c =
    (let (c1, n1, o1) = spec_run xs c; (c2, n2, o2) = spec_run ys c1 in (c2, n1 + n2, o1 @ o2))"
proof (induction xs arbitrary: c)
  case (Cons x xs)
  show ?case
    by (cases "spec_byte x c") (auto simp: Cons.IH Let_def split: prod.splits option.splits)
qed simp

text \<open>What the sender produces: valid frames with the fixed length field.\<close>

definition wire_frame :: "message_bytes \<Rightarrow> bool" where
  "wire_frame f \<longleftrightarrow> valid_frame f \<and> f ! MSG_LEN_INDEX = LENGTH_FLAG"

lemma wire_prefix:
  assumes "wire_frame f" and "k < 13"
  shows "spec_run (take k f) [] = (take k f, 0, [])"
  using assms(2)
proof (induction k)
  case (Suc k)
  from assms(1) have f: "length f = 13" "f ! 0 = START_FLAG" "f ! 3 = LENGTH_FLAG"
    by (simp_all add: wire_frame_def valid_frame_def)
  have "take (Suc k) f = take k f @ [f ! k]" using Suc.prems f(1) by (simp add: take_Suc_conv_app_nth)
  moreover have "spec_byte (f ! k) (take k f) = (take k f @ [f ! k], 0, None)"
    using Suc.prems f by (cases k) (auto simp: spec_byte_def Let_def nth_append)
  ultimately show ?case using Suc by (simp add: spec_run_append Let_def)
qed simp

lemma wire_frame_delivered:
  assumes "wire_frame f"
  shows "spec_run f [] = ([], 0, [FrameOut f])"
proof -
  from assms have f: "length f = 13" "f ! 12 = calc_chksum f"
    by (simp_all add: wire_frame_def valid_frame_def)
  have split: "f = take 12 f @ [f ! 12]"
    using f(1) take_Suc_conv_app_nth [of 12 f] by simp
  have "spec_byte (f ! 12) (take 12 f) = ([], 0, Some (FrameOut f))"
    using f split by (auto simp: spec_byte_def Let_def)
  moreover have "spec_run (take 12 f) [] = (take 12 f, 0, [])" using assms by (simp add: wire_prefix)
  ultimately have "spec_run (take 12 f @ [f ! 12]) [] = ([], 0, [FrameOut f])"
    unfolding spec_run_append by (simp add: Let_def)
  with split show ?thesis by simp
qed

lemma wire_frames_delivered:
  assumes "\<forall>f \<in> set fs. wire_frame f"
  shows "spec_run (concat fs) [] = ([], 0, map FrameOut fs)"
  using assms by (induction fs) (simp_all add: spec_run_append wire_frame_delivered)

lemma encode_wire_frame: "length data = 8 \<Longrightarrow> wire_frame (encode host i data)"
  using encode_fields [of data host i] by (simp add: wire_frame_def)

lemma junk_discarded:
  assumes "START_FLAG \<notin> set junk"
  shows "spec_run junk [] = ([], length junk, [])"
  using assms by (induction junk) (auto simp: spec_byte_def)

text \<open>The buffer always starts at a start flag, and holds fewer than 13 bytes.\<close>

definition buffer_ok :: "u8 list \<Rightarrow> bool" where
  "buffer_ok c \<longleftrightarrow> length c < 13 \<and> (c \<noteq> [] \<longrightarrow> hd c = START_FLAG)"

lemma buffer_ok_content: "parser_inv p \<Longrightarrow> buffer_ok (content p)"
  by (cases "len p") (auto simp: buffer_ok_def content_def parser_inv_def hd_conv_nth)

lemma spec_byte_buffer_ok:
  assumes "buffer_ok c" and "spec_byte b c = (c', n, out)"
  shows "buffer_ok c' \<and> (c' = [] \<or> suffix c' (c @ [b]))"
proof -
  have "suffix (sync (c @ [b])) (c @ [b])"
    unfolding sync_def using suffix_dropWhile suffix_tl suffix_order.trans by blast
  moreover have "length (sync (c @ [b])) < 13 \<and>
      (sync (c @ [b]) \<noteq> [] \<longrightarrow> hd (sync (c @ [b])) = START_FLAG)"
    using length_sync [of "c @ [b]"] hd_sync [of "c @ [b]"] assms(1) by (auto simp: buffer_ok_def)
  moreover have "hd (c @ [b]) = START_FLAG" if "\<not> (c = [] \<and> b \<noteq> START_FLAG)"
    using that assms(1) by (cases c) (auto simp: buffer_ok_def)
  ultimately show ?thesis
    using assms by (auto simp: spec_byte_def buffer_ok_def Let_def split: if_splits)
qed

lemma spec_run_buffer_ok:
  assumes "buffer_ok c" and "spec_run bs c = (c', n, outs)"
  shows "buffer_ok c' \<and> suffix c' (c @ bs)"
  using assms
proof (induction bs arbitrary: c c' n outs)
  case (Cons b bs)
  obtain c1 n1 out where s1: "spec_byte b c = (c1, n1, out)" by (metis prod_cases3)
  obtain c2 n2 outs2 where s2: "spec_run bs c1 = (c2, n2, outs2)" by (metis prod_cases3)
  from spec_byte_buffer_ok [OF Cons.prems(1) s1] have c1: "buffer_ok c1" "suffix c1 (c @ [b])"
    by auto
  from Cons.IH [OF c1(1) s2] have "buffer_ok c2" "suffix c2 (c1 @ bs)" by simp_all
  moreover from c1(2) have "suffix (c1 @ bs) ((c @ [b]) @ bs)" by (auto simp: suffix_def)
  ultimately show ?case using Cons.prems(2) s1 s2 suffix_order.trans by fastforce
qed simp





definition unchecked_frame :: message_bytes where
  "unchecked_frame = [0xA5, 0x01, 0x90, 0x77, 1, 2, 3, 4, 5, 6, 7, 8, 0xD1]"

text \<open>
  The length field is not enforced after a resynchronisation.  The check on byte 3 is made
  only when the buffer grows to exactly four bytes, so a candidate frame that resynchronisation
  leaves in the buffer with four bytes or more is never checked again.  Fed the 17 bytes below, a
  fresh framer reports one bad checksum and then delivers a frame whose length field is 0x77.
\<close>

lemma length_field_unchecked_after_resync:
  "\<exists>p. frame_parser_run ([0xA5, 0x01, 0x90, 0x08] @ unchecked_frame) (init_parser, []) =
      Some (p, [ErrorOut FE_CHECKSUM, FrameOut unchecked_frame]) \<and>
    unchecked_frame ! MSG_LEN_INDEX \<noteq> LENGTH_FLAG"
proof -
  have sum: "calc_chksum unchecked_frame = 0xD1"
    by (simp add: calc_chksum_sum unchecked_frame_def)
  have run: "spec_run ([0xA5, 0x01, 0x90, 0x08] @ unchecked_frame) [] =
      ([], 4, [ErrorOut FE_CHECKSUM, FrameOut unchecked_frame])"
    by code_simp
  have "spec_run ([0xA5, 0x01, 0x90, 0x08] @ unchecked_frame) (content init_parser) =
      ([], 4, [ErrorOut FE_CHECKSUM, FrameOut unchecked_frame])" using run by simp
  from run_refines [OF init_parser_inv(1) this, of "[]"] show ?thesis
    by (auto simp: unchecked_frame_def)
qed

end
