(* ===== verification/Payloads.thy ===== *)
theory Payloads
  imports Protocol
begin

text \<open>
  The decoded payload structs of \<open>include/haidi_payloads.hpp\<close>, one record per struct, with the
  source's field names (\<open>text\<close>, \<open>value\<close> and \<open>state\<close> are \<open>text_bytes\<close>, \<open>alarm_value\<close> and
  \<open>mos_state\<close> here), and the member functions of the structs that have some.  A \<open>std::array\<close>
  member is a list; \<open>char\<close> arrays keep the byte.  Records are built with \<open>make\<close>, positionally,
  as the source's aggregate initialisers build them.
\<close>

definition MAX_CELLS :: nat where [simp]: "MAX_CELLS = 48"
definition MAX_TEMPERATURES :: nat where [simp]: "MAX_TEMPERATURES = 21"
definition MAX_TEXT_LEN :: nat where [simp]: "MAX_TEXT_LEN = 32"
definition MAX_VERSION_LEN :: nat where [simp]: "MAX_VERSION_LEN = 14"
definition FIRMWARE_INDEX_LEN :: nat where [simp]: "FIRMWARE_INDEX_LEN = 8"
definition FAULT_RECORD_LEN :: nat where [simp]: "FAULT_RECORD_LEN = 27"
definition MAX_REASSEMBLY_LEN :: nat where [simp]: "MAX_REASSEMBLY_LEN = MAX_CELLS * 2"

section \<open>Structs\<close>

record capacity_voltage =
  capacity_mah :: u32
  voltage_mv :: u32

record bmu_cell_temp_count =
  board_count :: u8
  cell_count :: "u8 list"
  temp_count :: "u8 list"
  reserved :: u8

record total_charge_discharge_ah =
  charge_ah :: u32
  discharge_ah :: u32

record battery_operation_mode =
  battery_type :: u8
  operation_mode :: u8
  year :: u16
  month :: u8
  day :: u8
  auto_sleep_s :: u16
  zero_drift_current_da :: u8

record firmware_index =
  text_bytes :: "u8 list"

record text_payload =
  len :: u8
  text_bytes :: "u8 list"

record cell_voltage_alarm =
  overvoltage_l1_mv :: u16
  overvoltage_l2_mv :: u16
  undervoltage_l1_mv :: u16
  undervoltage_l2_mv :: u16

record total_voltage_alarm =
  overvoltage_l1_dv :: u16
  overvoltage_l2_dv :: u16
  undervoltage_l1_dv :: u16
  undervoltage_l2_dv :: u16

record current_alarm =
  charge_overcurrent_l1_da :: i16
  charge_overcurrent_l2_da :: i16
  discharge_overcurrent_l1_da :: i16
  discharge_overcurrent_l2_da :: i16

record temperature_alarm =
  charge_over_l1_c :: i16
  charge_over_l2_c :: i16
  charge_under_l1_c :: i16
  charge_under_l2_c :: i16
  discharge_over_l1_c :: i16
  discharge_over_l2_c :: i16
  discharge_under_l1_c :: i16
  discharge_under_l2_c :: i16

record soc_alarm =
  over_l1_pm :: u16
  over_l2_pm :: u16
  under_l1_pm :: u16
  under_l2_pm :: u16

record difference_alarm =
  voltage_diff_l1_mv :: u16
  voltage_diff_l2_mv :: u16
  temp_diff_l1_c :: u8
  temp_diff_l2_c :: u8
  reserved :: "u8 list"

record balancing_params =
  start_voltage_mv :: u16
  start_difference_mv :: u16
  reserved :: "u8 list"

record current_params =
  alarm_current_a :: u16
  sense_resistor_uohm :: u16
  reserved :: "u8 list"

record rtc =
  year :: u16
  month :: u8
  day :: u8
  hour :: u8
  minute :: u8
  second :: u8
  reserved :: "u8 list"

record version_payload =
  len :: u8
  text_bytes :: "u8 list"

record fault_record =
  year :: u16
  month :: u8
  day :: u8
  hour :: u8
  minute :: u8
  second :: u8
  record_id :: u8
  occurred :: bool
  total_voltage_dv :: u16
  current_da :: i16
  soc_pm :: u16
  charge_mos_on :: bool
  discharge_mos_on :: bool
  highest_cell_mv :: u16
  highest_cell_number :: u8
  lowest_cell_mv :: u16
  lowest_cell_number :: u8
  highest_temp_c :: i16
  highest_temp_number :: u8
  lowest_temp_c :: i16
  lowest_temp_number :: u8
  fault_code :: u8
  checksum_ok :: bool

record board_number =
  board_number :: u8
  bmu_count :: u8

record heating_temperature =
  heating_start_c :: i16
  fan_start_c :: i16
  key_control_mos :: u8

record active_balancing_switch =
  enabled :: bool

record active_balancing_params =
  series_count :: u8
  balancing_current_da :: u16

record inverter_params =
  inverter_type :: u8
  comm_type :: u8

record alarm_threshold =
  alarm_value :: u16
  delay_cs :: u16
  recovery_value :: u16
  recovery_delay_cs :: u16

record current_alarm_threshold =
  discharge_overcurrent_da :: i16
  discharge_delay_cs :: u16
  charge_overcurrent_da :: i16
  charge_delay_cs :: u16

record temp_alarm_threshold =
  charge_alarm_c :: i16
  charge_delay_ds :: u8
  charge_recovery_c :: i16
  charge_recovery_delay_ds :: u8
  discharge_alarm_c :: i16
  discharge_delay_ds :: u8
  discharge_recovery_c :: i16
  discharge_recovery_delay_ds :: u8

record total_voltage_current_soc =
  cumulative_voltage_dv :: u16
  measured_voltage_dv :: u16
  current_da :: i16
  soc_pm :: u16

record cell_voltage_extremes =
  highest_mv :: u16
  highest_cell_number :: u8
  lowest_mv :: u16
  lowest_cell_number :: u8
  reserved :: "u8 list"

record cell_temperature_extremes =
  highest_c :: i16
  highest_cell_number :: u8
  lowest_c :: i16
  lowest_cell_number :: u8
  reserved :: "u8 list"

record charge_discharge_mos_status =
  mos_state :: u8
  charge_mos_state :: u8
  discharge_mos_state :: u8
  bms_life :: u8
  remaining_capacity_mah :: u32

record status_info =
  series_count :: u8
  temp_sensor_count :: u8
  charger_connected :: bool
  load_connected :: bool
  io_bits :: u8
  cycle_count :: u16
  onboard_temp_c :: i16

record cell_voltages =
  count :: u8
  mv :: "u16 list"

record cell_temperatures =
  count :: u8
  celsius :: "i16 list"

record cell_balancing_bits =
  bits :: data_bytes

record fault_status =
  bits :: data_bytes

record balancing_state =
  enabled :: bool
  current_da :: i16
  position :: u8

record battery_status =
  soh_pm :: u16

record wakeup_source =
  key_signal :: bool
  button_signal :: bool
  rs485_signal :: bool
  can_signal :: bool
  charge_discharge_current :: bool

record mos_control_ack =
  requested_on :: bool
  reported_on :: bool

section \<open>Member functions\<close>

text \<open>
  \<open>TextPayload::size\<close> and \<open>view\<close>, and the same of \<open>VersionPayload\<close>: the bytes of text, clamped
  to the array.
\<close>

definition text_size :: "text_payload \<Rightarrow> nat" where
  "text_size p =
    (if unat (text_payload.len p) < length (text_payload.text_bytes p)
     then unat (text_payload.len p) else length (text_payload.text_bytes p))"

definition text_empty :: "text_payload \<Rightarrow> bool" where
  "text_empty p \<longleftrightarrow> text_size p = 0"

definition text_view :: "text_payload \<Rightarrow> u8 list option" where
  "text_view p = slice (text_payload.text_bytes p) 0 (text_size p)"

definition version_size :: "version_payload \<Rightarrow> nat" where
  "version_size p =
    (if unat (version_payload.len p) < length (version_payload.text_bytes p)
     then unat (version_payload.len p) else length (version_payload.text_bytes p))"

definition version_empty :: "version_payload \<Rightarrow> bool" where
  "version_empty p \<longleftrightarrow> version_size p = 0"

definition version_view :: "version_payload \<Rightarrow> u8 list option" where
  "version_view p = slice (version_payload.text_bytes p) 0 (version_size p)"

text \<open>
  The bit tests.  The byte is promoted to \<open>unsigned\<close> and masked; a byte index outside the
  array is undefined behaviour.
\<close>

definition cell_balancing :: "cell_balancing_bits \<Rightarrow> nat \<Rightarrow> bool option" where
  "cell_balancing p cell_index = do {
     byte \<leftarrow> rd (cell_balancing_bits.bits p) (cell_index div 8);
     mask \<leftarrow> shl32 1 (cell_index mod 8);
     Some (ucast byte AND mask \<noteq> 0)
   }"

definition fault :: "fault_status \<Rightarrow> nat \<Rightarrow> nat \<Rightarrow> bool option" where
  "fault p byte_index bit_index = do {
     byte \<leftarrow> rd (fault_status.bits p) byte_index;
     mask \<leftarrow> shl32 1 bit_index;
     Some (ucast byte AND mask \<noteq> 0)
   }"

definition fault_status_code :: "fault_status \<Rightarrow> u8" where
  "fault_status_code p = fault_status.bits p ! 7"

definition any_fault :: "fault_status \<Rightarrow> bool" where
  "any_fault p \<longleftrightarrow>
    fault_status.bits p ! 0 \<noteq> 0 \<or> fault_status.bits p ! 1 \<noteq> 0 \<or> fault_status.bits p ! 2 \<noteq> 0 \<or>
    fault_status.bits p ! 3 \<noteq> 0 \<or> fault_status.bits p ! 4 \<noteq> 0 \<or> fault_status.bits p ! 5 \<noteq> 0 \<or>
    fault_status.bits p ! 6 \<noteq> 0"

lemma mask_bit: "(ucast (b :: u8) AND push_bit n 1 \<noteq> (0 :: u32)) \<longleftrightarrow> bit b n" if "n < 32"
  using that by (auto simp: push_bit_of_1 and_exp_eq_0_iff_not_bit bit_simps dest: bit_imp_le_length)

lemma u8_zero_bits: "(b :: u8) \<noteq> 0 \<longleftrightarrow> (\<exists>n < 8. bit b n)"
  by (auto simp: bit_eq_iff dest: bit_imp_le_length)

lemma fault_bit:
  "length (fault_status.bits p) = 8 \<Longrightarrow> k < 8 \<Longrightarrow> n < 8 \<Longrightarrow>
    fault p k n = Some (bit (fault_status.bits p ! k) n)"
  by (simp add: fault_def mask_bit del: push_bit_of_1)

lemma ex_less_7: "(\<exists>k < (7 :: nat). P k) \<longleftrightarrow> P 0 \<or> P 1 \<or> P 2 \<or> P 3 \<or> P 4 \<or> P 5 \<or> P 6"
  by (auto simp: less_Suc_eq eval_nat_numeral)

text \<open>
  \<open>any_fault\<close> is exactly "some fault bit of bytes 0..6 is set", as \<open>fault\<close> reads the
  bits, and no in-range bit test reads outside the payload.
\<close>

lemma any_fault_iff:
  assumes "length (fault_status.bits p) = DATA_LEN"
  shows "any_fault p \<longleftrightarrow> (\<exists>byte_index < 7. \<exists>bit_index < 8. fault p byte_index bit_index = Some True)"
proof -
  have "(\<exists>n < 8. fault p k n = Some True) \<longleftrightarrow> fault_status.bits p ! k \<noteq> 0" if "k < 7" for k
    using that assms by (auto simp: fault_bit u8_zero_bits)
  then have "(\<exists>k < 7. \<exists>n < 8. fault p k n = Some True) \<longleftrightarrow> (\<exists>k < 7. fault_status.bits p ! k \<noteq> 0)"
    by auto
  then show ?thesis by (simp add: any_fault_def ex_less_7)
qed

lemma any_fault_iff_witness:
  "any_fault \<lparr>fault_status.bits = [0, 0, 0, 4, 0, 0, 0, 0]\<rparr>"
proof -
  let ?p = "\<lparr>fault_status.bits = [0, 0, 0, 4, 0, 0, 0, 0]\<rparr>"
  have "fault ?p 3 2 = Some True" by (simp add: fault_def)
  then show ?thesis using any_fault_iff [of ?p] by (auto intro: exI [of _ 3] exI [of _ 2])
qed

lemma cell_balancing_bit:
  assumes "length (cell_balancing_bits.bits p) = 8"
  shows "cell_balancing p i =
    (if i < 64 then Some (bit (cell_balancing_bits.bits p ! (i div 8)) (i mod 8)) else None)"
proof (cases "i < 64")
  case True
  then have "i div 8 < 8" by simp
  moreover have "i mod 8 < 32" by (rule less_trans [of _ 8]) simp_all
  ultimately show ?thesis using True assms by (simp add: cell_balancing_def mask_bit del: push_bit_of_1)
next
  case False
  then show ?thesis using assms by (simp add: cell_balancing_def rd_def)
qed

end
