(* ===== verification/Event.thy ===== *)
theory Event
  imports Payloads
begin

text \<open>
  Events and their checked accessors: \<open>include/haidi_event.hpp\<close> and \<open>src/haidi_event.cpp\<close>.

  The union \<open>EventPayload\<close> is a datatype with one constructor per member (the member that is
  active).  An accessor yields a null pointer, a pointer to the active member, or
  \<open>Inactive_member\<close>: a pointer to a member that is not the active one, through which reading is
  undefined behaviour.  The enumerators of \<open>ErrorCode\<close> carry the prefix \<open>ERR\<close>.
\<close>

datatype event_kind = RESPONSE | TIMEOUT | PROTOCOL_ERROR

datatype error_code =
  ERR_NONE | ERR_CHECKSUM | ERR_BAD_SOURCE_ADDRESS | ERR_BAD_LENGTH | ERR_UNEXPECTED_DATA_ID | ERR_UNKNOWN_DATA_ID | ERR_FRAME_SEQUENCE | ERR_TRUNCATED | ERR_WRITE_REJECTED

datatype event_payload =
    is_capacity_voltage: P_capacity_voltage (of_capacity_voltage: capacity_voltage)
  | is_bmu_cell_temp_count: P_bmu_cell_temp_count (of_bmu_cell_temp_count: bmu_cell_temp_count)
  | is_total_charge_discharge_ah: P_total_charge_discharge_ah (of_total_charge_discharge_ah: total_charge_discharge_ah)
  | is_battery_operation_mode: P_battery_operation_mode (of_battery_operation_mode: battery_operation_mode)
  | is_firmware_index: P_firmware_index (of_firmware_index: firmware_index)
  | is_text: P_text (of_text: text_payload)
  | is_cell_voltage_alarm: P_cell_voltage_alarm (of_cell_voltage_alarm: cell_voltage_alarm)
  | is_total_voltage_alarm: P_total_voltage_alarm (of_total_voltage_alarm: total_voltage_alarm)
  | is_current_alarm: P_current_alarm (of_current_alarm: current_alarm)
  | is_temperature_alarm: P_temperature_alarm (of_temperature_alarm: temperature_alarm)
  | is_soc_alarm: P_soc_alarm (of_soc_alarm: soc_alarm)
  | is_difference_alarm: P_difference_alarm (of_difference_alarm: difference_alarm)
  | is_balancing_params: P_balancing_params (of_balancing_params: balancing_params)
  | is_current_params: P_current_params (of_current_params: current_params)
  | is_rtc: P_rtc (of_rtc: rtc)
  | is_version: P_version (of_version: version_payload)
  | is_fault_record: P_fault_record (of_fault_record: fault_record)
  | is_board_number: P_board_number (of_board_number: board_number)
  | is_heating_temperature: P_heating_temperature (of_heating_temperature: heating_temperature)
  | is_active_balancing_switch: P_active_balancing_switch (of_active_balancing_switch: active_balancing_switch)
  | is_active_balancing_params: P_active_balancing_params (of_active_balancing_params: active_balancing_params)
  | is_inverter_params: P_inverter_params (of_inverter_params: inverter_params)
  | is_alarm_threshold: P_alarm_threshold (of_alarm_threshold: alarm_threshold)
  | is_current_alarm_threshold: P_current_alarm_threshold (of_current_alarm_threshold: current_alarm_threshold)
  | is_temp_alarm_threshold: P_temp_alarm_threshold (of_temp_alarm_threshold: temp_alarm_threshold)
  | is_total_voltage_current_soc: P_total_voltage_current_soc (of_total_voltage_current_soc: total_voltage_current_soc)
  | is_cell_voltage_extremes: P_cell_voltage_extremes (of_cell_voltage_extremes: cell_voltage_extremes)
  | is_cell_temperature_extremes: P_cell_temperature_extremes (of_cell_temperature_extremes: cell_temperature_extremes)
  | is_charge_discharge_mos: P_charge_discharge_mos (of_charge_discharge_mos: charge_discharge_mos_status)
  | is_status_info: P_status_info (of_status_info: status_info)
  | is_cell_voltages: P_cell_voltages (of_cell_voltages: cell_voltages)
  | is_cell_temperatures: P_cell_temperatures (of_cell_temperatures: cell_temperatures)
  | is_cell_balancing_bits: P_cell_balancing_bits (of_cell_balancing_bits: cell_balancing_bits)
  | is_fault_status: P_fault_status (of_fault_status: fault_status)
  | is_balancing_state: P_balancing_state (of_balancing_state: balancing_state)
  | is_battery_status: P_battery_status (of_battery_status: battery_status)
  | is_wakeup_source: P_wakeup_source (of_wakeup_source: wakeup_source)
  | is_mos_control_ack: P_mos_control_ack (of_mos_control_ack: mos_control_ack)

record event =
  kind :: event_kind
  event_id :: data_id
  error :: error_code
  event_retries :: u8
  frames :: u8
  payload :: event_payload

text \<open>The default member initialisers of \<open>Event\<close>.\<close>

definition default_event :: event where
  "default_event =
    \<lparr>kind = RESPONSE, event_id = CAPACITY_VOLTAGE, error = ERR_NONE, event_retries = 0, frames = 0,
     payload = P_capacity_voltage (capacity_voltage.make 0 0)\<rparr>"

section \<open>Accessors\<close>

datatype 'a access = Nullptr | Ptr 'a | Inactive_member

definition point_to :: "(event_payload \<Rightarrow> bool) \<Rightarrow> (event_payload \<Rightarrow> 'a) \<Rightarrow> event \<Rightarrow> 'a access" where
  "point_to active member e = (if active (payload e) then Ptr (member (payload e)) else Inactive_member)"

definition is_response :: "event \<Rightarrow> bool" where
  "is_response e \<longleftrightarrow> kind e = RESPONSE"

definition responds_to :: "event \<Rightarrow> data_id \<Rightarrow> bool" where
  "responds_to e i \<longleftrightarrow> is_response e \<and> event_id e = i"

definition carries_mos_ack :: "event \<Rightarrow> data_id \<Rightarrow> bool" where
  "carries_mos_ack e i \<longleftrightarrow> event_id e = i \<and> (is_response e \<or> error e = ERR_WRITE_REJECTED)"

definition responds_to_threshold :: "event \<Rightarrow> alarm_class \<Rightarrow> alarm_level \<Rightarrow> bool" where
  "responds_to_threshold e cls level \<longleftrightarrow>
    level < ALARM_LEVEL_COUNT \<and> responds_to e (alarm_threshold_id cls level)"

definition as_capacity_voltage :: "event \<Rightarrow> capacity_voltage access" where
  "as_capacity_voltage e = (if responds_to e CAPACITY_VOLTAGE then point_to is_capacity_voltage of_capacity_voltage e else Nullptr)"

definition as_bmu_cell_temp_count :: "event \<Rightarrow> bmu_cell_temp_count access" where
  "as_bmu_cell_temp_count e = (if responds_to e BMU_CELL_TEMP_COUNT then point_to is_bmu_cell_temp_count of_bmu_cell_temp_count e else Nullptr)"

definition as_total_charge_discharge_ah :: "event \<Rightarrow> total_charge_discharge_ah access" where
  "as_total_charge_discharge_ah e = (if responds_to e TOTAL_CHARGE_DISCHARGE_AH then point_to is_total_charge_discharge_ah of_total_charge_discharge_ah e else Nullptr)"

definition as_battery_operation_mode :: "event \<Rightarrow> battery_operation_mode access" where
  "as_battery_operation_mode e = (if responds_to e BATTERY_OPERATION_MODE then point_to is_battery_operation_mode of_battery_operation_mode e else Nullptr)"

definition as_firmware_index :: "event \<Rightarrow> firmware_index access" where
  "as_firmware_index e = (if responds_to e FIRMWARE_INDEX then point_to is_firmware_index of_firmware_index e else Nullptr)"

definition as_manufacturer_name :: "event \<Rightarrow> text_payload access" where
  "as_manufacturer_name e = (if responds_to e MANUFACTURER_NAME then point_to is_text of_text e else Nullptr)"

definition as_battery_name :: "event \<Rightarrow> text_payload access" where
  "as_battery_name e = (if responds_to e BATTERY_NAME then point_to is_text of_text e else Nullptr)"

definition as_battery_serial_number :: "event \<Rightarrow> text_payload access" where
  "as_battery_serial_number e = (if responds_to e BATTERY_SERIAL_NUMBER then point_to is_text of_text e else Nullptr)"

definition as_battery_production_date :: "event \<Rightarrow> rtc access" where
  "as_battery_production_date e = (if responds_to e BATTERY_PRODUCTION_DATE then point_to is_rtc of_rtc e else Nullptr)"

definition as_cell_voltage_alarm :: "event \<Rightarrow> cell_voltage_alarm access" where
  "as_cell_voltage_alarm e = (if responds_to e CELL_VOLTAGE_ALARM then point_to is_cell_voltage_alarm of_cell_voltage_alarm e else Nullptr)"

definition as_total_voltage_alarm :: "event \<Rightarrow> total_voltage_alarm access" where
  "as_total_voltage_alarm e = (if responds_to e TOTAL_VOLTAGE_ALARM then point_to is_total_voltage_alarm of_total_voltage_alarm e else Nullptr)"

definition as_current_alarm :: "event \<Rightarrow> current_alarm access" where
  "as_current_alarm e = (if responds_to e CURRENT_ALARM then point_to is_current_alarm of_current_alarm e else Nullptr)"

definition as_temperature_alarm :: "event \<Rightarrow> temperature_alarm access" where
  "as_temperature_alarm e = (if responds_to e TEMPERATURE_ALARM then point_to is_temperature_alarm of_temperature_alarm e else Nullptr)"

definition as_soc_alarm :: "event \<Rightarrow> soc_alarm access" where
  "as_soc_alarm e = (if responds_to e SOC_ALARM then point_to is_soc_alarm of_soc_alarm e else Nullptr)"

definition as_difference_alarm :: "event \<Rightarrow> difference_alarm access" where
  "as_difference_alarm e = (if responds_to e DIFFERENCE_ALARM then point_to is_difference_alarm of_difference_alarm e else Nullptr)"

definition as_balancing_params :: "event \<Rightarrow> balancing_params access" where
  "as_balancing_params e = (if responds_to e BALANCING_PARAMS then point_to is_balancing_params of_balancing_params e else Nullptr)"

definition as_current_params :: "event \<Rightarrow> current_params access" where
  "as_current_params e = (if responds_to e CURRENT_PARAMS then point_to is_current_params of_current_params e else Nullptr)"

definition as_rtc :: "event \<Rightarrow> rtc access" where
  "as_rtc e = (if responds_to e RTC then point_to is_rtc of_rtc e else Nullptr)"

definition as_software_version :: "event \<Rightarrow> version_payload access" where
  "as_software_version e = (if responds_to e SOFTWARE_VERSION then point_to is_version of_version e else Nullptr)"

definition as_hardware_version :: "event \<Rightarrow> version_payload access" where
  "as_hardware_version e = (if responds_to e HARDWARE_VERSION then point_to is_version of_version e else Nullptr)"

definition as_fault_record :: "event \<Rightarrow> fault_record access" where
  "as_fault_record e = (if responds_to e FAULT_RECORDS then point_to is_fault_record of_fault_record e else Nullptr)"

definition as_board_number :: "event \<Rightarrow> board_number access" where
  "as_board_number e = (if responds_to e BOARD_NUMBER then point_to is_board_number of_board_number e else Nullptr)"

definition as_heating_temperature :: "event \<Rightarrow> heating_temperature access" where
  "as_heating_temperature e = (if responds_to e HEATING_TEMPERATURE then point_to is_heating_temperature of_heating_temperature e else Nullptr)"

definition as_active_balancing_switch :: "event \<Rightarrow> active_balancing_switch access" where
  "as_active_balancing_switch e = (if responds_to e ACTIVE_BALANCING_SWITCH then point_to is_active_balancing_switch of_active_balancing_switch e else Nullptr)"

definition as_active_balancing_params :: "event \<Rightarrow> active_balancing_params access" where
  "as_active_balancing_params e = (if responds_to e ACTIVE_BALANCING_PARAMS then point_to is_active_balancing_params of_active_balancing_params e else Nullptr)"

definition as_inverter_params :: "event \<Rightarrow> inverter_params access" where
  "as_inverter_params e = (if responds_to e INVERTER_PARAMS then point_to is_inverter_params of_inverter_params e else Nullptr)"

definition as_sn_serial_number :: "event \<Rightarrow> text_payload access" where
  "as_sn_serial_number e = (if responds_to e SN_SERIAL_NUMBER then point_to is_text of_text e else Nullptr)"

definition as_cell_overvoltage_threshold :: "event \<Rightarrow> alarm_level \<Rightarrow> alarm_threshold access" where
  "as_cell_overvoltage_threshold e level =
    (if responds_to_threshold e CLASS_CELL_OVERVOLTAGE level
     then point_to is_alarm_threshold of_alarm_threshold e else Nullptr)"

definition as_cell_undervoltage_threshold :: "event \<Rightarrow> alarm_level \<Rightarrow> alarm_threshold access" where
  "as_cell_undervoltage_threshold e level =
    (if responds_to_threshold e CLASS_CELL_UNDERVOLTAGE level
     then point_to is_alarm_threshold of_alarm_threshold e else Nullptr)"

definition as_overcurrent_threshold :: "event \<Rightarrow> alarm_level \<Rightarrow> current_alarm_threshold access" where
  "as_overcurrent_threshold e level =
    (if responds_to_threshold e CLASS_CURRENT level
     then point_to is_current_alarm_threshold of_current_alarm_threshold e else Nullptr)"

definition as_high_temperature_threshold :: "event \<Rightarrow> alarm_level \<Rightarrow> temp_alarm_threshold access" where
  "as_high_temperature_threshold e level =
    (if responds_to_threshold e CLASS_HIGH_TEMPERATURE level
     then point_to is_temp_alarm_threshold of_temp_alarm_threshold e else Nullptr)"

definition as_low_temperature_threshold :: "event \<Rightarrow> alarm_level \<Rightarrow> temp_alarm_threshold access" where
  "as_low_temperature_threshold e level =
    (if responds_to_threshold e CLASS_LOW_TEMPERATURE level
     then point_to is_temp_alarm_threshold of_temp_alarm_threshold e else Nullptr)"

definition as_total_overvoltage_threshold :: "event \<Rightarrow> alarm_level \<Rightarrow> alarm_threshold access" where
  "as_total_overvoltage_threshold e level =
    (if responds_to_threshold e CLASS_TOTAL_OVERVOLTAGE level
     then point_to is_alarm_threshold of_alarm_threshold e else Nullptr)"

definition as_total_undervoltage_threshold :: "event \<Rightarrow> alarm_level \<Rightarrow> alarm_threshold access" where
  "as_total_undervoltage_threshold e level =
    (if responds_to_threshold e CLASS_TOTAL_UNDERVOLTAGE level
     then point_to is_alarm_threshold of_alarm_threshold e else Nullptr)"

definition as_voltage_difference_threshold :: "event \<Rightarrow> alarm_level \<Rightarrow> alarm_threshold access" where
  "as_voltage_difference_threshold e level =
    (if responds_to_threshold e CLASS_VOLTAGE_DIFFERENCE level
     then point_to is_alarm_threshold of_alarm_threshold e else Nullptr)"

definition as_temperature_difference_threshold :: "event \<Rightarrow> alarm_level \<Rightarrow> alarm_threshold access" where
  "as_temperature_difference_threshold e level =
    (if responds_to_threshold e CLASS_TEMPERATURE_DIFFERENCE level
     then point_to is_alarm_threshold of_alarm_threshold e else Nullptr)"

definition as_total_voltage_current_soc :: "event \<Rightarrow> total_voltage_current_soc access" where
  "as_total_voltage_current_soc e = (if responds_to e TOTAL_VOLTAGE_CURRENT_SOC then point_to is_total_voltage_current_soc of_total_voltage_current_soc e else Nullptr)"

definition as_cell_voltage_extremes :: "event \<Rightarrow> cell_voltage_extremes access" where
  "as_cell_voltage_extremes e = (if responds_to e CELL_VOLTAGE_EXTREMES then point_to is_cell_voltage_extremes of_cell_voltage_extremes e else Nullptr)"

definition as_cell_temperature_extremes :: "event \<Rightarrow> cell_temperature_extremes access" where
  "as_cell_temperature_extremes e = (if responds_to e CELL_TEMPERATURE_EXTREMES then point_to is_cell_temperature_extremes of_cell_temperature_extremes e else Nullptr)"

definition as_charge_discharge_mos :: "event \<Rightarrow> charge_discharge_mos_status access" where
  "as_charge_discharge_mos e = (if responds_to e CHARGE_DISCHARGE_MOS_STATUS then point_to is_charge_discharge_mos of_charge_discharge_mos e else Nullptr)"

definition as_status_info :: "event \<Rightarrow> status_info access" where
  "as_status_info e = (if responds_to e STATUS_INFO then point_to is_status_info of_status_info e else Nullptr)"

definition as_cell_voltages :: "event \<Rightarrow> cell_voltages access" where
  "as_cell_voltages e = (if responds_to e CELL_VOLTAGES then point_to is_cell_voltages of_cell_voltages e else Nullptr)"

definition as_cell_temperatures :: "event \<Rightarrow> cell_temperatures access" where
  "as_cell_temperatures e = (if responds_to e CELL_TEMPERATURES then point_to is_cell_temperatures of_cell_temperatures e else Nullptr)"

definition as_cell_balancing_bits :: "event \<Rightarrow> cell_balancing_bits access" where
  "as_cell_balancing_bits e = (if responds_to e CELL_BALANCING_BITS then point_to is_cell_balancing_bits of_cell_balancing_bits e else Nullptr)"

definition as_fault_status :: "event \<Rightarrow> fault_status access" where
  "as_fault_status e = (if responds_to e FAULT_STATUS then point_to is_fault_status of_fault_status e else Nullptr)"

definition as_balancing_state :: "event \<Rightarrow> balancing_state access" where
  "as_balancing_state e = (if responds_to e BALANCING_STATE then point_to is_balancing_state of_balancing_state e else Nullptr)"

definition as_battery_status :: "event \<Rightarrow> battery_status access" where
  "as_battery_status e = (if responds_to e BATTERY_STATUS then point_to is_battery_status of_battery_status e else Nullptr)"

definition as_wakeup_source :: "event \<Rightarrow> wakeup_source access" where
  "as_wakeup_source e = (if responds_to e WAKEUP_SOURCE then point_to is_wakeup_source of_wakeup_source e else Nullptr)"

definition as_discharge_mos_control :: "event \<Rightarrow> mos_control_ack access" where
  "as_discharge_mos_control e = (if carries_mos_ack e DISCHARGE_MOS_CONTROL then point_to is_mos_control_ack of_mos_control_ack e else Nullptr)"

definition as_charge_mos_control :: "event \<Rightarrow> mos_control_ack access" where
  "as_charge_mos_control e = (if carries_mos_ack e CHARGE_MOS_CONTROL then point_to is_mos_control_ack of_mos_control_ack e else Nullptr)"

section \<open>Payload-shape accessors\<close>

definition as_text :: "event \<Rightarrow> text_payload access" where
  "as_text e =
    (if \<not> is_response e then Nullptr
     else if event_id e = MANUFACTURER_NAME \<or> event_id e = BATTERY_NAME \<or>
       event_id e = BATTERY_SERIAL_NUMBER \<or> event_id e = SN_SERIAL_NUMBER
     then point_to is_text of_text e else Nullptr)"

definition as_version :: "event \<Rightarrow> version_payload access" where
  "as_version e =
    (if \<not> is_response e then Nullptr
     else if event_id e = SOFTWARE_VERSION \<or> event_id e = HARDWARE_VERSION
     then point_to is_version of_version e else Nullptr)"

definition as_alarm_threshold :: "event \<Rightarrow> alarm_threshold access" where
  "as_alarm_threshold e =
    (if \<not> is_response e \<or> \<not> is_alarm_threshold_id (event_id e) then Nullptr
     else let c = alarm_class_of (event_id e) in
       if c = CLASS_CURRENT \<or> c = CLASS_HIGH_TEMPERATURE \<or> c = CLASS_LOW_TEMPERATURE then Nullptr
       else point_to is_alarm_threshold of_alarm_threshold e)"

definition as_current_alarm_threshold :: "event \<Rightarrow> current_alarm_threshold access" where
  "as_current_alarm_threshold e =
    (if \<not> is_response e \<or> \<not> is_alarm_threshold_id (event_id e) then Nullptr
     else if alarm_class_of (event_id e) = CLASS_CURRENT
     then point_to is_current_alarm_threshold of_current_alarm_threshold e else Nullptr)"

definition as_temp_alarm_threshold :: "event \<Rightarrow> temp_alarm_threshold access" where
  "as_temp_alarm_threshold e =
    (if \<not> is_response e \<or> \<not> is_alarm_threshold_id (event_id e) then Nullptr
     else let c = alarm_class_of (event_id e) in
       if c = CLASS_HIGH_TEMPERATURE \<or> c = CLASS_LOW_TEMPERATURE
       then point_to is_temp_alarm_threshold of_temp_alarm_threshold e else Nullptr)"

definition as_mos_control_ack :: "event \<Rightarrow> mos_control_ack access" where
  "as_mos_control_ack e =
    (let carries_payload = carries_mos_ack e DISCHARGE_MOS_CONTROL \<or> carries_mos_ack e CHARGE_MOS_CONTROL
     in if carries_payload then point_to is_mos_control_ack of_mos_control_ack e else Nullptr)"

section \<open>Diagnostics\<close>

fun event_kind_to_string :: "event_kind \<Rightarrow> string" where
  "event_kind_to_string RESPONSE = ''RESPONSE''"
| "event_kind_to_string TIMEOUT = ''TIMEOUT''"
| "event_kind_to_string PROTOCOL_ERROR = ''PROTOCOL_ERROR''"

fun error_code_to_string :: "error_code \<Rightarrow> string" where
  "error_code_to_string ERR_NONE = ''NONE''"
| "error_code_to_string ERR_CHECKSUM = ''CHECKSUM''"
| "error_code_to_string ERR_BAD_SOURCE_ADDRESS = ''BAD_SOURCE_ADDRESS''"
| "error_code_to_string ERR_BAD_LENGTH = ''BAD_LENGTH''"
| "error_code_to_string ERR_UNEXPECTED_DATA_ID = ''UNEXPECTED_DATA_ID''"
| "error_code_to_string ERR_UNKNOWN_DATA_ID = ''UNKNOWN_DATA_ID''"
| "error_code_to_string ERR_FRAME_SEQUENCE = ''FRAME_SEQUENCE''"
| "error_code_to_string ERR_TRUNCATED = ''TRUNCATED''"
| "error_code_to_string ERR_WRITE_REJECTED = ''WRITE_REJECTED''"

definition data_id_to_string :: "data_id \<Rightarrow> string" where
  "data_id_to_string i =
    (if is_alarm_threshold_id i then ''alarm threshold'' else
     if i = DATA_ID_NONE then ''none''
     else if i = CAPACITY_VOLTAGE then ''capacity/voltage''
     else if i = BMU_CELL_TEMP_COUNT then ''bmu/cell/temp count''
     else if i = TOTAL_CHARGE_DISCHARGE_AH then ''total charge/discharge Ah''
     else if i = BATTERY_OPERATION_MODE then ''operation mode''
     else if i = FIRMWARE_INDEX then ''firmware index''
     else if i = MANUFACTURER_NAME then ''manufacturer name''
     else if i = BATTERY_NAME then ''battery name''
     else if i = BATTERY_SERIAL_NUMBER then ''battery serial number''
     else if i = BATTERY_PRODUCTION_DATE then ''production date''
     else if i = CELL_VOLTAGE_ALARM then ''cell voltage alarm''
     else if i = TOTAL_VOLTAGE_ALARM then ''total voltage alarm''
     else if i = CURRENT_ALARM then ''current alarm''
     else if i = TEMPERATURE_ALARM then ''temperature alarm''
     else if i = SOC_ALARM then ''soc alarm''
     else if i = DIFFERENCE_ALARM then ''difference alarm''
     else if i = BALANCING_PARAMS then ''balancing params''
     else if i = CURRENT_PARAMS then ''current params''
     else if i = RTC then ''rtc''
     else if i = SOFTWARE_VERSION then ''software version''
     else if i = HARDWARE_VERSION then ''hardware version''
     else if i = FAULT_RECORDS then ''fault records''
     else if i = BOARD_NUMBER then ''board number''
     else if i = HEATING_TEMPERATURE then ''heating temperature''
     else if i = ACTIVE_BALANCING_SWITCH then ''active balancing switch''
     else if i = ACTIVE_BALANCING_PARAMS then ''active balancing params''
     else if i = INVERTER_PARAMS then ''inverter params''
     else if i = SN_SERIAL_NUMBER then ''sn serial number''
     else if i = TOTAL_VOLTAGE_CURRENT_SOC then ''total voltage/current/soc''
     else if i = CELL_VOLTAGE_EXTREMES then ''cell voltage extremes''
     else if i = CELL_TEMPERATURE_EXTREMES then ''cell temperature extremes''
     else if i = CHARGE_DISCHARGE_MOS_STATUS then ''charge/discharge mos status''
     else if i = STATUS_INFO then ''status info''
     else if i = CELL_VOLTAGES then ''cell voltages''
     else if i = CELL_TEMPERATURES then ''cell temperatures''
     else if i = CELL_BALANCING_BITS then ''cell balancing bits''
     else if i = FAULT_STATUS then ''fault status''
     else if i = BALANCING_STATE then ''balancing state''
     else if i = BATTERY_STATUS then ''battery status''
     else if i = WAKEUP_SOURCE then ''wakeup source''
     else if i = DISCHARGE_MOS_CONTROL then ''discharge mos control''
     else if i = CHARGE_MOS_CONTROL then ''charge mos control''
     else ''?'')"


section \<open>Well-formed events\<close>

text \<open>
  Which member of the union a command's reply activates: the Data ID table of
  \<open>EventPayload\<close>.
\<close>

definition payload_fits :: "data_id \<Rightarrow> event_payload \<Rightarrow> bool" where
  "payload_fits i p =
    (if is_alarm_threshold_id i then
       (let c = alarm_class_of i in
        if c = CLASS_CURRENT then is_current_alarm_threshold p
        else if c = CLASS_HIGH_TEMPERATURE \<or> c = CLASS_LOW_TEMPERATURE then is_temp_alarm_threshold p
        else is_alarm_threshold p) else
     if i = CAPACITY_VOLTAGE then is_capacity_voltage p
     else if i = BMU_CELL_TEMP_COUNT then is_bmu_cell_temp_count p
     else if i = TOTAL_CHARGE_DISCHARGE_AH then is_total_charge_discharge_ah p
     else if i = BATTERY_OPERATION_MODE then is_battery_operation_mode p
     else if i = FIRMWARE_INDEX then is_firmware_index p
     else if i = CELL_VOLTAGE_ALARM then is_cell_voltage_alarm p
     else if i = TOTAL_VOLTAGE_ALARM then is_total_voltage_alarm p
     else if i = CURRENT_ALARM then is_current_alarm p
     else if i = TEMPERATURE_ALARM then is_temperature_alarm p
     else if i = SOC_ALARM then is_soc_alarm p
     else if i = DIFFERENCE_ALARM then is_difference_alarm p
     else if i = BALANCING_PARAMS then is_balancing_params p
     else if i = CURRENT_PARAMS then is_current_params p
     else if i = BATTERY_PRODUCTION_DATE then is_rtc p
     else if i = RTC then is_rtc p
     else if i = BOARD_NUMBER then is_board_number p
     else if i = HEATING_TEMPERATURE then is_heating_temperature p
     else if i = ACTIVE_BALANCING_SWITCH then is_active_balancing_switch p
     else if i = ACTIVE_BALANCING_PARAMS then is_active_balancing_params p
     else if i = INVERTER_PARAMS then is_inverter_params p
     else if i = TOTAL_VOLTAGE_CURRENT_SOC then is_total_voltage_current_soc p
     else if i = CELL_VOLTAGE_EXTREMES then is_cell_voltage_extremes p
     else if i = CELL_TEMPERATURE_EXTREMES then is_cell_temperature_extremes p
     else if i = CHARGE_DISCHARGE_MOS_STATUS then is_charge_discharge_mos p
     else if i = STATUS_INFO then is_status_info p
     else if i = CELL_BALANCING_BITS then is_cell_balancing_bits p
     else if i = FAULT_STATUS then is_fault_status p
     else if i = BALANCING_STATE then is_balancing_state p
     else if i = BATTERY_STATUS then is_battery_status p
     else if i = WAKEUP_SOURCE then is_wakeup_source p
     else if i = MANUFACTURER_NAME then is_text p
     else if i = BATTERY_NAME then is_text p
     else if i = BATTERY_SERIAL_NUMBER then is_text p
     else if i = SN_SERIAL_NUMBER then is_text p
     else if i = SOFTWARE_VERSION then is_version p
     else if i = HARDWARE_VERSION then is_version p
     else if i = CELL_VOLTAGES then is_cell_voltages p
     else if i = CELL_TEMPERATURES then is_cell_temperatures p
     else if i = FAULT_RECORDS then is_fault_record p
     else if i = DISCHARGE_MOS_CONTROL then is_mos_control_ack p
     else if i = CHARGE_MOS_CONTROL then is_mos_control_ack p
     else False)"

text \<open>
  The sizes of the arrays in a payload, and that a count names no element beyond its array.
\<close>

definition payload_sized :: "event_payload \<Rightarrow> bool" where
  "payload_sized p =
    (case p of
       P_bmu_cell_temp_count x \<Rightarrow>
         length (bmu_cell_temp_count.cell_count x) = 3 \<and> length (bmu_cell_temp_count.temp_count x) = 3
     | P_firmware_index x \<Rightarrow> length (firmware_index.text_bytes x) = FIRMWARE_INDEX_LEN
     | P_text x \<Rightarrow> length (text_payload.text_bytes x) = MAX_TEXT_LEN
     | P_version x \<Rightarrow> length (version_payload.text_bytes x) = MAX_VERSION_LEN
     | P_cell_voltages x \<Rightarrow>
         length (cell_voltages.mv x) = MAX_CELLS \<and> unat (cell_voltages.count x) \<le> MAX_CELLS
     | P_cell_temperatures x \<Rightarrow>
         length (cell_temperatures.celsius x) = MAX_TEMPERATURES \<and>
         unat (cell_temperatures.count x) \<le> MAX_TEMPERATURES
     | P_cell_balancing_bits x \<Rightarrow> length (cell_balancing_bits.bits x) = DATA_LEN
     | P_fault_status x \<Rightarrow> length (fault_status.bits x) = DATA_LEN
     | _ \<Rightarrow> True)"

text \<open>The errors that reject one frame and leave the request in flight.\<close>

definition frame_rejection :: "error_code \<Rightarrow> bool" where
  "frame_rejection x \<longleftrightarrow> x \<in> {ERR_CHECKSUM, ERR_BAD_SOURCE_ADDRESS, ERR_BAD_LENGTH,
     ERR_UNEXPECTED_DATA_ID, ERR_FRAME_SEQUENCE}"

text \<open>
  What \<open>haidi_event.hpp\<close> documents of the members of an event: \<open>error\<close> is \<open>NONE\<close> unless the
  kind is \<open>PROTOCOL_ERROR\<close>; the payload is valid on a response and on a rejected write;
  \<open>retries\<close> is set on a timeout only; \<open>frames\<close> is 1 for a single-frame reply and for a
  rejected write, 4 for a fault record, at least 1 and at most 17 for a paginated reply, and 0 for a timeout and
  for a rejected frame.
\<close>

definition event_wf :: "event \<Rightarrow> bool" where
  "event_wf e \<longleftrightarrow>
    (kind e = PROTOCOL_ERROR \<longleftrightarrow> error e \<noteq> ERR_NONE) \<and>
    (kind e = RESPONSE \<or> error e = ERR_WRITE_REJECTED \<longrightarrow> payload_fits (event_id e) (payload e)) \<and>
    (kind e \<noteq> TIMEOUT \<longrightarrow> event_retries e = 0) \<and>
    (error e = ERR_WRITE_REJECTED \<longrightarrow> event_id e \<in> set mos_ids \<and> frames e = 1) \<and>
    (kind e = TIMEOUT \<or> frame_rejection (error e) \<longrightarrow> frames e = 0) \<and>
    (kind e = RESPONSE \<longrightarrow>
      (if event_id e = FAULT_RECORDS then frames e = 4
       else if event_id e \<in> set paginated_ids then 1 \<le> frames e \<and> frames e \<le> 17
       else frames e = 1))"

lemmas accessor_defs =
  as_capacity_voltage_def
  as_bmu_cell_temp_count_def
  as_total_charge_discharge_ah_def
  as_battery_operation_mode_def
  as_firmware_index_def
  as_manufacturer_name_def
  as_battery_name_def
  as_battery_serial_number_def
  as_battery_production_date_def
  as_cell_voltage_alarm_def
  as_total_voltage_alarm_def
  as_current_alarm_def
  as_temperature_alarm_def
  as_soc_alarm_def
  as_difference_alarm_def
  as_balancing_params_def
  as_current_params_def
  as_rtc_def
  as_software_version_def
  as_hardware_version_def
  as_fault_record_def
  as_board_number_def
  as_heating_temperature_def
  as_active_balancing_switch_def
  as_active_balancing_params_def
  as_inverter_params_def
  as_sn_serial_number_def
  as_cell_overvoltage_threshold_def
  as_cell_undervoltage_threshold_def
  as_overcurrent_threshold_def
  as_high_temperature_threshold_def
  as_low_temperature_threshold_def
  as_total_overvoltage_threshold_def
  as_total_undervoltage_threshold_def
  as_voltage_difference_threshold_def
  as_temperature_difference_threshold_def
  as_total_voltage_current_soc_def
  as_cell_voltage_extremes_def
  as_cell_temperature_extremes_def
  as_charge_discharge_mos_def
  as_status_info_def
  as_cell_voltages_def
  as_cell_temperatures_def
  as_cell_balancing_bits_def
  as_fault_status_def
  as_balancing_state_def
  as_battery_status_def
  as_wakeup_source_def
  as_discharge_mos_control_def
  as_charge_mos_control_def

lemma fits_threshold:
  assumes "event_wf e" and "responds_to_threshold e c l" and "c < 9"
  shows "payload_fits (alarm_threshold_id c l) (payload e)"
    and "is_alarm_threshold_id (alarm_threshold_id c l)" and "alarm_class_of (alarm_threshold_id c l) = c"
  using assms alarm_id_roundtrip [of c l]
  by (auto simp: responds_to_threshold_def responds_to_def is_response_def event_wf_def)

lemma active_member:
  assumes "event_wf e" and "responds_to e i \<or> carries_mos_ack e i \<and> i \<in> set mos_ids"
  shows "payload_fits i (payload e)"
  using assms by (auto simp: event_wf_def responds_to_def is_response_def carries_mos_ack_def)

lemma command_accessor_ok:
  assumes "event_wf e" and "\<And>p. payload_fits i p \<Longrightarrow> active p"
  shows "(if responds_to e i then point_to active member e else Nullptr) \<noteq> Inactive_member"
  using assms active_member [of e i] by (simp add: point_to_def)

lemma mos_accessor_ok:
  assumes "event_wf e" and "\<And>p. payload_fits i p \<Longrightarrow> active p" and "i \<in> set mos_ids"
  shows "(if carries_mos_ack e i then point_to active member e else Nullptr) \<noteq> Inactive_member"
  using assms active_member [of e i] by (simp add: point_to_def)

lemma threshold_accessor_ok:
  assumes "event_wf e" and "c < 9"
    and "\<And>p. payload_fits (alarm_threshold_id c level) p \<Longrightarrow>
      is_alarm_threshold_id (alarm_threshold_id c level) \<Longrightarrow>
      alarm_class_of (alarm_threshold_id c level) = c \<Longrightarrow> active p"
  shows "(if responds_to_threshold e c level then point_to active member e else Nullptr) \<noteq> Inactive_member"
  using assms(3) [of "payload e"] fits_threshold [OF assms(1) _ assms(2), of level]
  by (simp add: point_to_def)

lemma shape_accessors_ok:
  assumes "event_wf e"
  shows "as_text e \<noteq> Inactive_member" "as_version e \<noteq> Inactive_member"
    "as_alarm_threshold e \<noteq> Inactive_member" "as_current_alarm_threshold e \<noteq> Inactive_member"
    "as_temp_alarm_threshold e \<noteq> Inactive_member" "as_mos_control_ack e \<noteq> Inactive_member"
proof -
  have fits: "payload_fits (event_id e) (payload e)" if "is_response e"
    using assms that by (simp add: event_wf_def is_response_def)
  show "as_text e \<noteq> Inactive_member" "as_version e \<noteq> Inactive_member"
    using fits by (auto simp: as_text_def as_version_def point_to_def payload_fits_def
        is_alarm_threshold_id_def)
  show "as_alarm_threshold e \<noteq> Inactive_member" "as_current_alarm_threshold e \<noteq> Inactive_member"
    "as_temp_alarm_threshold e \<noteq> Inactive_member"
    using fits by (auto simp: as_alarm_threshold_def as_current_alarm_threshold_def
        as_temp_alarm_threshold_def point_to_def payload_fits_def Let_def)
  have "payload_fits i (payload e)" if "carries_mos_ack e i" "i \<in> set mos_ids" for i
    using active_member [OF assms] that by blast
  from this [of DISCHARGE_MOS_CONTROL] this [of CHARGE_MOS_CONTROL]
  show "as_mos_control_ack e \<noteq> Inactive_member"
    by (auto simp: as_mos_control_ack_def point_to_def mos_ids_def payload_fits_def
        is_alarm_threshold_id_def Let_def)
qed

text \<open>
  C6: the accessors never misread the union.  On a well-formed event no accessor, for any
  level argument, hands out a pointer to a member that is not the active one.
\<close>

theorem accessors_read_active_member:
  assumes "event_wf e"
  shows
  "as_capacity_voltage e \<noteq> Inactive_member \<and>
   as_bmu_cell_temp_count e \<noteq> Inactive_member \<and>
   as_total_charge_discharge_ah e \<noteq> Inactive_member \<and>
   as_battery_operation_mode e \<noteq> Inactive_member \<and>
   as_firmware_index e \<noteq> Inactive_member \<and>
   as_manufacturer_name e \<noteq> Inactive_member \<and>
   as_battery_name e \<noteq> Inactive_member \<and>
   as_battery_serial_number e \<noteq> Inactive_member \<and>
   as_battery_production_date e \<noteq> Inactive_member \<and>
   as_cell_voltage_alarm e \<noteq> Inactive_member \<and>
   as_total_voltage_alarm e \<noteq> Inactive_member \<and>
   as_current_alarm e \<noteq> Inactive_member \<and>
   as_temperature_alarm e \<noteq> Inactive_member \<and>
   as_soc_alarm e \<noteq> Inactive_member \<and>
   as_difference_alarm e \<noteq> Inactive_member \<and>
   as_balancing_params e \<noteq> Inactive_member \<and>
   as_current_params e \<noteq> Inactive_member \<and>
   as_rtc e \<noteq> Inactive_member \<and>
   as_software_version e \<noteq> Inactive_member \<and>
   as_hardware_version e \<noteq> Inactive_member \<and>
   as_fault_record e \<noteq> Inactive_member \<and>
   as_board_number e \<noteq> Inactive_member \<and>
   as_heating_temperature e \<noteq> Inactive_member \<and>
   as_active_balancing_switch e \<noteq> Inactive_member \<and>
   as_active_balancing_params e \<noteq> Inactive_member \<and>
   as_inverter_params e \<noteq> Inactive_member \<and>
   as_sn_serial_number e \<noteq> Inactive_member \<and>
   as_cell_overvoltage_threshold e level \<noteq> Inactive_member \<and>
   as_cell_undervoltage_threshold e level \<noteq> Inactive_member \<and>
   as_overcurrent_threshold e level \<noteq> Inactive_member \<and>
   as_high_temperature_threshold e level \<noteq> Inactive_member \<and>
   as_low_temperature_threshold e level \<noteq> Inactive_member \<and>
   as_total_overvoltage_threshold e level \<noteq> Inactive_member \<and>
   as_total_undervoltage_threshold e level \<noteq> Inactive_member \<and>
   as_voltage_difference_threshold e level \<noteq> Inactive_member \<and>
   as_temperature_difference_threshold e level \<noteq> Inactive_member \<and>
   as_total_voltage_current_soc e \<noteq> Inactive_member \<and>
   as_cell_voltage_extremes e \<noteq> Inactive_member \<and>
   as_cell_temperature_extremes e \<noteq> Inactive_member \<and>
   as_charge_discharge_mos e \<noteq> Inactive_member \<and>
   as_status_info e \<noteq> Inactive_member \<and>
   as_cell_voltages e \<noteq> Inactive_member \<and>
   as_cell_temperatures e \<noteq> Inactive_member \<and>
   as_cell_balancing_bits e \<noteq> Inactive_member \<and>
   as_fault_status e \<noteq> Inactive_member \<and>
   as_balancing_state e \<noteq> Inactive_member \<and>
   as_battery_status e \<noteq> Inactive_member \<and>
   as_wakeup_source e \<noteq> Inactive_member \<and>
   as_discharge_mos_control e \<noteq> Inactive_member \<and>
   as_charge_mos_control e \<noteq> Inactive_member \<and>
   as_text e \<noteq> Inactive_member \<and>
   as_version e \<noteq> Inactive_member \<and>
   as_alarm_threshold e \<noteq> Inactive_member \<and>
   as_current_alarm_threshold e \<noteq> Inactive_member \<and>
   as_temp_alarm_threshold e \<noteq> Inactive_member \<and>
   as_mos_control_ack e \<noteq> Inactive_member"
  unfolding accessor_defs
  by (intro conjI command_accessor_ok mos_accessor_ok threshold_accessor_ok shape_accessors_ok assms)
    (simp_all add: payload_fits_def is_alarm_threshold_id_def [of "_ :: 8 word"] mos_ids_def)

theorem accessors_read_active_member_witness:
  "as_mos_control_ack (default_event\<lparr>event_id := CHARGE_MOS_CONTROL, frames := 1,
      payload := P_mos_control_ack (mos_control_ack.make True True)\<rparr>) \<noteq> Inactive_member"
  using accessors_read_active_member
    [of "default_event\<lparr>event_id := CHARGE_MOS_CONTROL, frames := 1,
      payload := P_mos_control_ack (mos_control_ack.make True True)\<rparr>" 0]
  by (simp add: event_wf_def default_event_def payload_fits_def is_alarm_threshold_id_def
      paginated_ids_def frame_rejection_def)

text \<open>
  The threshold accessors separate the 27 thresholds.  An event answers the accessor of at
  most one (class, level) pair, and an out-of-range level, whose computed Data ID can be another
  command's, answers none.
\<close>

lemma threshold_accessors_separate:
  assumes "c < ALARM_CLASS_COUNT" and "c' < ALARM_CLASS_COUNT"
    and "responds_to_threshold e c l" and "responds_to_threshold e c' l'"
  shows "c = c' \<and> l = l' \<and> l < ALARM_LEVEL_COUNT"
proof -
  from assms have id: "alarm_threshold_id c l = alarm_threshold_id c' l'" "l < 3" "l' < 3"
    by (auto simp: responds_to_threshold_def responds_to_def)
  with assms(1,2) alarm_id_roundtrip [of c l] alarm_id_roundtrip [of c' l'] show ?thesis by auto
qed

lemma threshold_accessors_separate_witness:
  "alarm_threshold_id CLASS_TEMPERATURE_DIFFERENCE 3 = CHARGE_DISCHARGE_MOS_STATUS \<and>
   (\<exists>e. responds_to_threshold e CLASS_CURRENT LEVEL_2 \<and>
     \<not> responds_to_threshold e CLASS_CURRENT LEVEL_3)"
proof (intro conjI exI)
  let ?e = "default_event\<lparr>event_id := alarm_threshold_id CLASS_CURRENT LEVEL_2\<rparr>"
  show "alarm_threshold_id CLASS_TEMPERATURE_DIFFERENCE 3 = CHARGE_DISCHARGE_MOS_STATUS"
    by (simp add: alarm_threshold_id_def)
  show e: "responds_to_threshold ?e CLASS_CURRENT LEVEL_2"
    by (simp add: responds_to_threshold_def responds_to_def is_response_def default_event_def)
  show "\<not> responds_to_threshold ?e CLASS_CURRENT LEVEL_3"
    using threshold_accessors_separate [of CLASS_CURRENT CLASS_CURRENT ?e LEVEL_2 LEVEL_3] e
    by auto
qed

definition named_ids :: "data_id list" where
  "named_ids = DATA_ID_NONE # FAULT_RECORDS # single_ids @ paginated_ids @ mos_ids"

text \<open>
  The diagnostic names identify the commands.  Outside the alarm block, two different
  commands (or "none") never share a name, and no command is called "?".
\<close>

lemma data_id_names_distinct:
  "distinct (map data_id_to_string named_ids) \<and> ''?'' \<notin> set (map data_id_to_string named_ids)"
  by (simp add: named_ids_def single_ids_def paginated_ids_def mos_ids_def data_id_to_string_def
      is_alarm_threshold_id_def)

end
