(* ===== verification/Decode.thy ===== *)
theory Decode
  imports Event
begin

text \<open>
  Payload decoding and the pagination metadata: \<open>src/haidi_decode.hpp\<close> and
  \<open>src/haidi_decode.cpp\<close>.

  A decoder writes into an out-parameter and returns whether it did: here it returns the payload,
  or \<open>None\<close> for \<open>false\<close>.  A pointer and a length are the list of the bytes they delimit, the
  null pointer \<open>None\<close>.  The copy loops of \<open>decode_multi\<close> access both arrays with checked reads
  and writes, whose failure is the outer \<open>None\<close>.
\<close>

record multi_frame_info =
  multi :: bool
  streaming :: bool
  frame_base :: u8
  bytes_per_frame :: u8
  frame_count :: u8
  total_bytes :: u8

definition default_multi_frame_info :: multi_frame_info where
  "default_multi_frame_info = multi_frame_info.make False False 0 0 0 0"

definition FRAME_NO_END :: u8 where [simp]: "FRAME_NO_END = 0xFF"

definition raw_be16 :: "u8 list \<Rightarrow> nat \<Rightarrow> u16 option" where
  "raw_be16 p off = do {
     hi \<leftarrow> rd p off;
     lo \<leftarrow> rd p (off + 1);
     Some (push_bit 8 (ucast hi) OR ucast lo)
   }"

definition frames_for :: "u8 \<Rightarrow> u8 \<Rightarrow> u8 \<Rightarrow> u8" where
  "frames_for items per_frame max_frames =
    (if items = 0 then 0
     else let frames = word_of_int ((uint items + uint per_frame - 1) div uint per_frame) :: u8
       in if frames > max_frames then max_frames else frames)"

definition cell_voltage_frames :: "u8 \<Rightarrow> u8" where
  "cell_voltage_frames cells = frames_for cells 3 16"

definition cell_temperature_frames :: "u8 \<Rightarrow> u8" where
  "cell_temperature_frames sensors = frames_for sensors 7 3"

definition multiframe_info :: "data_id \<Rightarrow> multi_frame_info" where
  "multiframe_info i =
    (if i = MANUFACTURER_NAME then multi_frame_info.make True False 1 7 3 16
     else if i = BATTERY_NAME \<or> i = BATTERY_SERIAL_NUMBER \<or> i = SN_SERIAL_NUMBER
       then multi_frame_info.make True False 1 7 5 32
     else if i = SOFTWARE_VERSION \<or> i = HARDWARE_VERSION
       then multi_frame_info.make True False 0 7 2 14
     else if i = CELL_VOLTAGES then multi_frame_info.make True False 0 6 0 0
     else if i = CELL_TEMPERATURES then multi_frame_info.make True False 0 7 0 0
     else if i = FAULT_RECORDS then multi_frame_info.make True True 0 7 0 0
     else default_multi_frame_info)"

section \<open>Single-frame decoders\<close>

definition decode_alarm_threshold :: "data_id \<Rightarrow> data_bytes \<Rightarrow> event_payload" where
  "decode_alarm_threshold i data =
    (let c = alarm_class_of i in
     if c = CLASS_CURRENT then
       P_current_alarm_threshold (current_alarm_threshold.make
         (to_current_da (be16 data 0)) (be16 data 2) (to_current_da (be16 data 4)) (be16 data 6))
     else if c = CLASS_HIGH_TEMPERATURE \<or> c = CLASS_LOW_TEMPERATURE then
       P_temp_alarm_threshold (temp_alarm_threshold.make
         (to_temperature_c (data ! 0)) (data ! 1) (to_temperature_c (data ! 2)) (data ! 3)
         (to_temperature_c (data ! 4)) (data ! 5) (to_temperature_c (data ! 6)) (data ! 7))
     else
       P_alarm_threshold (alarm_threshold.make
         (be16 data 0) (be16 data 2) (be16 data 4) (be16 data 6)))"

definition decode_single :: "data_id \<Rightarrow> data_bytes \<Rightarrow> event_payload option" where
  "decode_single i data =
    (if is_alarm_threshold_id i then Some (decode_alarm_threshold i data)
     else if i = CAPACITY_VOLTAGE then
       Some (P_capacity_voltage (capacity_voltage.make (be32 data 0) (be32 data 4)))
     else if i = BMU_CELL_TEMP_COUNT then
       Some (P_bmu_cell_temp_count (bmu_cell_temp_count.make (data ! 0)
         [data ! 1, data ! 2, data ! 3] [data ! 4, data ! 5, data ! 6] (data ! 7)))
     else if i = TOTAL_CHARGE_DISCHARGE_AH then
       Some (P_total_charge_discharge_ah (total_charge_discharge_ah.make (be32 data 0) (be32 data 4)))
     else if i = BATTERY_OPERATION_MODE then
       Some (P_battery_operation_mode (battery_operation_mode.make (data ! 0) (data ! 1)
         (to_year (data ! 2)) (data ! 3) (data ! 4) (be16 data 5) (data ! 7)))
     else if i = FIRMWARE_INDEX then
       Some (P_firmware_index (firmware_index.make
         (fold (\<lambda>k t. t[k := data ! k]) [0..<FIRMWARE_INDEX_LEN] (replicate FIRMWARE_INDEX_LEN 0))))
     else if i = CELL_VOLTAGE_ALARM then
       Some (P_cell_voltage_alarm (cell_voltage_alarm.make
         (be16 data 0) (be16 data 2) (be16 data 4) (be16 data 6)))
     else if i = TOTAL_VOLTAGE_ALARM then
       Some (P_total_voltage_alarm (total_voltage_alarm.make
         (be16 data 0) (be16 data 2) (be16 data 4) (be16 data 6)))
     else if i = CURRENT_ALARM then
       Some (P_current_alarm (current_alarm.make
         (to_current_da (be16 data 0)) (to_current_da (be16 data 2))
         (to_current_da (be16 data 4)) (to_current_da (be16 data 6))))
     else if i = TEMPERATURE_ALARM then
       Some (P_temperature_alarm (temperature_alarm.make
         (to_temperature_c (data ! 0)) (to_temperature_c (data ! 1)) (to_temperature_c (data ! 2))
         (to_temperature_c (data ! 3)) (to_temperature_c (data ! 4)) (to_temperature_c (data ! 5))
         (to_temperature_c (data ! 6)) (to_temperature_c (data ! 7))))
     else if i = SOC_ALARM then
       Some (P_soc_alarm (soc_alarm.make (be16 data 0) (be16 data 2) (be16 data 4) (be16 data 6)))
     else if i = DIFFERENCE_ALARM then
       Some (P_difference_alarm (difference_alarm.make
         (be16 data 0) (be16 data 2) (data ! 4) (data ! 5) [data ! 6, data ! 7]))
     else if i = BALANCING_PARAMS then
       Some (P_balancing_params (balancing_params.make
         (be16 data 0) (be16 data 2) [data ! 4, data ! 5, data ! 6, data ! 7]))
     else if i = CURRENT_PARAMS then
       Some (P_current_params (current_params.make
         (be16 data 0) (be16 data 2) [data ! 4, data ! 5, data ! 6, data ! 7]))
     else if i = BATTERY_PRODUCTION_DATE \<or> i = RTC then
       Some (P_rtc (rtc.make (to_year (data ! 0)) (data ! 1) (data ! 2) (data ! 3)
         (data ! 4) (data ! 5) [data ! 6, data ! 7]))
     else if i = BOARD_NUMBER then
       Some (P_board_number (board_number.make (data ! 0) (data ! 1)))
     else if i = HEATING_TEMPERATURE then
       Some (P_heating_temperature (heating_temperature.make
         (to_temperature_c (data ! 0)) (to_temperature_c (data ! 2)) (data ! 4)))
     else if i = ACTIVE_BALANCING_SWITCH then
       Some (P_active_balancing_switch (active_balancing_switch.make (data ! 0 \<noteq> 0)))
     else if i = ACTIVE_BALANCING_PARAMS then
       Some (P_active_balancing_params (active_balancing_params.make (data ! 0) (be16 data 1)))
     else if i = INVERTER_PARAMS then
       Some (P_inverter_params (inverter_params.make (data ! 0) (data ! 1)))
     else if i = TOTAL_VOLTAGE_CURRENT_SOC then
       Some (P_total_voltage_current_soc (total_voltage_current_soc.make
         (be16 data 0) (be16 data 2) (to_current_da (be16 data 4)) (be16 data 6)))
     else if i = CELL_VOLTAGE_EXTREMES then
       Some (P_cell_voltage_extremes (cell_voltage_extremes.make
         (be16 data 0) (data ! 2) (be16 data 3) (data ! 5) [data ! 6, data ! 7]))
     else if i = CELL_TEMPERATURE_EXTREMES then
       Some (P_cell_temperature_extremes (cell_temperature_extremes.make
         (to_temperature_c (data ! 0)) (data ! 1) (to_temperature_c (data ! 2)) (data ! 3)
         [data ! 4, data ! 5, data ! 6, data ! 7]))
     else if i = CHARGE_DISCHARGE_MOS_STATUS then
       Some (P_charge_discharge_mos (charge_discharge_mos_status.make
         (data ! 0) (data ! 1) (data ! 2) (data ! 3) (be32 data 4)))
     else if i = STATUS_INFO then
       Some (P_status_info (status_info.make (data ! 0) (data ! 1) (data ! 2 \<noteq> 0) (data ! 3 \<noteq> 0)
         (data ! 4) (be16 data 5) (to_temperature_c (data ! 7))))
     else if i = CELL_BALANCING_BITS then
       Some (P_cell_balancing_bits (cell_balancing_bits.make data))
     else if i = FAULT_STATUS then
       Some (P_fault_status (fault_status.make data))
     else if i = BALANCING_STATE then
       Some (P_balancing_state (balancing_state.make
         (data ! 0 \<noteq> 0) (to_current_da (be16 data 1)) (data ! 3)))
     else if i = BATTERY_STATUS then
       Some (P_battery_status (battery_status.make (be16 data 0)))
     else if i = WAKEUP_SOURCE then
       Some (P_wakeup_source (wakeup_source.make (data ! 0 \<noteq> 0) (data ! 1 \<noteq> 0) (data ! 2 \<noteq> 0)
         (data ! 3 \<noteq> 0) (data ! 4 \<noteq> 0)))
     else None)"

section \<open>Paginated decoders\<close>

definition decode_multi :: "data_id \<Rightarrow> u8 list option \<Rightarrow> event_payload option option" where
  "decode_multi i buf =
    (case buf of
       None \<Rightarrow> Some None
     | Some p \<Rightarrow>
       if i = MANUFACTURER_NAME \<or> i = BATTERY_NAME \<or> i = BATTERY_SERIAL_NUMBER \<or> i = SN_SERIAL_NUMBER
       then do {
         let n = (if length p > MAX_TEXT_LEN then MAX_TEXT_LEN else length p);
         t \<leftarrow> for_loop [0..<n] (\<lambda>k t. do { c \<leftarrow> rd p k; wr t k c }) (replicate MAX_TEXT_LEN 0);
         Some (Some (P_text (text_payload.make (of_nat n) t)))
       }
       else if i = SOFTWARE_VERSION \<or> i = HARDWARE_VERSION then do {
         let n = (if length p > MAX_VERSION_LEN then MAX_VERSION_LEN else length p);
         t \<leftarrow> for_loop [0..<n] (\<lambda>k t. do { c \<leftarrow> rd p k; wr t k c }) (replicate MAX_VERSION_LEN 0);
         Some (Some (P_version (version_payload.make (of_nat n) t)))
       }
       else if i = CELL_VOLTAGES then do {
         let cells = (if length p div 2 > MAX_CELLS then MAX_CELLS else length p div 2);
         v \<leftarrow> for_loop [0..<cells] (\<lambda>k v. do { x \<leftarrow> raw_be16 p (k * 2); wr v k x })
           (replicate MAX_CELLS 0);
         Some (Some (P_cell_voltages (cell_voltages.make (of_nat cells) v)))
       }
       else if i = CELL_TEMPERATURES then do {
         let temps = (if length p > MAX_TEMPERATURES then MAX_TEMPERATURES else length p);
         v \<leftarrow> for_loop [0..<temps] (\<lambda>k v. do { x \<leftarrow> rd p k; wr v k (to_temperature_c x) })
           (replicate MAX_TEMPERATURES 0);
         Some (Some (P_cell_temperatures (cell_temperatures.make (of_nat temps) v)))
       }
       else Some None)"

text \<open>The 27-byte record of Table 1.  Both readings of its sum are accepted.\<close>

definition rec16 :: "u8 list \<Rightarrow> nat \<Rightarrow> u16" where
  "rec16 r off = push_bit 8 (ucast (r ! off)) OR ucast (r ! (off + 1))"

definition decode_fault_record :: "u8 list option \<Rightarrow> fault_record option" where
  "decode_fault_record buf =
    (case buf of
       None \<Rightarrow> None
     | Some r \<Rightarrow>
       if length r < FAULT_RECORD_LEN then None
       else
         let sum_all = fold (\<lambda>k s. s + r ! k) [0..<0x1A] 0;
             sum_dec = fold (\<lambda>k s. s + r ! k) [0..<18] 0
         in Some (fault_record.make
           (to_year (r ! 0x00)) (r ! 0x01) (r ! 0x02) (r ! 0x03) (r ! 0x04) (r ! 0x05)
           (r ! 0x06) (r ! 0x07 \<noteq> 0)
           (rec16 r 0x08) (to_current_da (rec16 r 0x0A)) (rec16 r 0x0C)
           (r ! 0x0E AND 0x01 \<noteq> 0) (r ! 0x0E AND 0x02 \<noteq> 0)
           (rec16 r 0x0F) (r ! 0x11) (rec16 r 0x12) (r ! 0x14)
           (to_temperature_c (r ! 0x15)) (r ! 0x16) (to_temperature_c (r ! 0x17)) (r ! 0x18)
           (r ! 0x19)
           (r ! 0x1A = sum_all \<or> r ! 0x1A = sum_dec)))"

section \<open>The decoders and the shape of the payload\<close>

lemma decode_alarm_threshold_fits:
  assumes "is_alarm_threshold_id i"
  shows "payload_fits i (decode_alarm_threshold i data)"
  using assms by (auto simp: payload_fits_def decode_alarm_threshold_def Let_def)

lemma decode_single_cases:
  "decode_single i data = None \<and> i \<notin> set single_ids \<and> \<not> is_alarm_threshold_id i \<or>
   (\<exists>p. decode_single i data = Some p \<and> payload_fits i p \<and>
     (i \<in> set single_ids \<or> is_alarm_threshold_id i))"
proof (cases "is_alarm_threshold_id i")
  case True
  then show ?thesis by (simp add: decode_single_def decode_alarm_threshold_fits)
next
  case False
  show ?thesis
  proof (cases "i \<in> set single_ids")
    case True
    then show ?thesis
      by (simp add: single_ids_def, elim disjE)
        (simp_all add: decode_single_def payload_fits_def is_alarm_threshold_id_def)
  next
    case other: False
    with False show ?thesis by (simp add: single_ids_def decode_single_def)
  qed
qed

lemma decode_single_Some_iff:
  "decode_single i data \<noteq> None \<longleftrightarrow> i \<in> set single_ids \<or> is_alarm_threshold_id i"
  using decode_single_cases [of i data] by auto

lemma decode_single_fits: "decode_single i data = Some p \<Longrightarrow> payload_fits i p"
  using decode_single_cases [of i data] by auto

lemma nat_digits_eq:
  assumes "256 * a + b = 256 * c + (d :: nat)" and "b < 256" and "d < 256"
  shows "a = c \<and> b = d"
proof -
  from assms(2,3) have "(256 * a + b) mod 256 = b" "(256 * c + d) mod 256 = d" by simp_all
  with assms(1) have "b = d" by metis
  with assms(1) show ?thesis by simp
qed

lemma be16_eq_iff:
  assumes "off + 1 < length d" and "off + 1 < length d'"
  shows "be16 d off = be16 d' off \<longleftrightarrow> d ! off = d' ! off \<and> d ! (off + 1) = d' ! (off + 1)"
proof
  assume eq: "be16 d off = be16 d' off"
  have "256 * unat (d ! off) + unat (d ! (off + 1)) =
    256 * unat (d' ! off) + unat (d' ! (off + 1))"
    unfolding unat_be16 [OF assms(1), symmetric] unat_be16 [OF assms(2), symmetric] eq ..
  from nat_digits_eq [OF this less_256_of_nat less_256_of_nat]
  show "d ! off = d' ! off \<and> d ! (off + 1) = d' ! (off + 1)"
    by (simp add: word_unat_eq_iff)
qed (simp add: be16_def)

lemma be32_eq_iff:
  assumes "off + 3 < length d" and "off + 3 < length d'"
  shows "be32 d off = be32 d' off \<longleftrightarrow>
    d ! off = d' ! off \<and> d ! (off + 1) = d' ! (off + 1) \<and>
    d ! (off + 2) = d' ! (off + 2) \<and> d ! (off + 3) = d' ! (off + 3)" (is "?l \<longleftrightarrow> ?r")
proof
  assume eq: "be32 d off = be32 d' off"
  have pick: "ucast (drop_bit 24 (be32 xs off)) = xs ! off"
    "ucast (drop_bit 16 (be32 xs off)) = xs ! (off + 1)"
    "ucast (drop_bit 8 (be32 xs off)) = xs ! (off + 2)"
    "ucast (be32 xs off) = xs ! (off + 3)" for xs
    by (auto simp: be32_def bit_simps bit_eq_iff dest: bit_imp_le_length)
  from eq show ?r by (metis pick)
qed (simp add: be32_def)

lemma word16_of_small_int:
  fixes a b :: int
  assumes "word_of_int a = (word_of_int b :: 16 word)" and "\<bar>a - b\<bar> < 65536"
  shows "a = b"
proof -
  from assms(1) have "65536 dvd a - b"
    by (simp add: word_of_int_eq_iff take_bit_eq_mod mod_eq_dvd_iff)
  then have "a - b = 0" using dvd_imp_le_int [of "a - b" 65536] assms(2) by fastforce
  then show ?thesis by simp
qed

lemma uint_u8_bounds: "0 \<le> uint (a :: u8)" "uint (a :: u8) < 256"
  using uint_lt2p [of a] by simp_all

lemma u8_reading_diff: "\<bar>(uint (a :: u8) - k) - (uint (b :: u8) - k)\<bar> < 65536"
  using uint_u8_bounds [of a] uint_u8_bounds [of b] by linarith

lemma to_temperature_c_eq_iff [simp]: "to_temperature_c a = to_temperature_c b \<longleftrightarrow> a = b"
proof
  assume "to_temperature_c a = to_temperature_c b"
  then have "uint a - uint TEMPERATURE_OFFSET = uint b - uint TEMPERATURE_OFFSET"
    by (intro word16_of_small_int [OF _ u8_reading_diff]) (simp add: to_temperature_c_def)
  then show "a = b" by (simp add: word_uint_eq_iff)
qed simp

lemma to_year_eq_iff [simp]: "to_year a = to_year b \<longleftrightarrow> a = b"
proof
  assume "to_year a = to_year b"
  then have "uint a - (- uint YEAR_OFFSET) = uint b - (- uint YEAR_OFFSET)"
    by (intro word16_of_small_int [OF _ u8_reading_diff]) (simp add: to_year_def)
  then show "a = b" by (simp add: word_uint_eq_iff)
qed simp

lemma to_current_da_eq_iff [simp]: "to_current_da a = to_current_da b \<longleftrightarrow> a = b"
  by (simp add: to_current_da_def)

section \<open>Closed forms of the paginated decoders\<close>

text \<open>Every copy loop of \<open>decode_multi\<close>: a prefix of the result array is overwritten.\<close>

lemma fill_loop:
  assumes "n \<le> cap" and "\<And>k. k < n \<Longrightarrow> f k = Some (g k)"
  shows "for_loop [0..<n] (\<lambda>k t. do { c \<leftarrow> f k; wr t k c }) (replicate cap z) =
    Some (map g [0..<n] @ replicate (cap - n) z)"
proof -
  have "for_loop [0..<n] (\<lambda>k t. do { c \<leftarrow> f k; wr t k c }) (replicate cap z) =
      Some (fold (\<lambda>k t. t[0 + k := g k]) [0..<n] (replicate cap z))"
    using assms
    by (intro for_loop_fold [where P = "\<lambda>t. length t = cap", THEN conjunct1]) simp_all
  also have "fold (\<lambda>k t. t[0 + k := g k]) [0..<n] (replicate cap z) =
      map g [0..<n] @ replicate (cap - n) z"
    using assms(1) by (subst fold_update) simp_all
  finally show ?thesis .
qed

definition text_ids :: "data_id list" where
  "text_ids = [MANUFACTURER_NAME, BATTERY_NAME, BATTERY_SERIAL_NUMBER, SN_SERIAL_NUMBER]"

definition version_ids :: "data_id list" where
  "version_ids = [SOFTWARE_VERSION, HARDWARE_VERSION]"

lemma paginated_ids_split:
  "i \<in> set paginated_ids \<longleftrightarrow>
    i \<in> set text_ids \<or> i \<in> set version_ids \<or> i = CELL_VOLTAGES \<or> i = CELL_TEMPERATURES"
  by (auto simp: paginated_ids_def text_ids_def version_ids_def)

lemma clip: "c = m \<Longrightarrow> (if m < a then c else a) = min m (a :: nat)"
  by simp

lemma prefix_copy:
  "for_loop [0..<min cap (length p)] (\<lambda>k t. do { c \<leftarrow> rd p k; wr t k c }) (replicate cap 0) =
   Some (take cap p @ replicate (cap - length p) 0)"
proof -
  have "map ((!) p) [0..<min cap (length p)] = take cap p" by (cases "cap \<le> length p") simp_all
  then show ?thesis
    by (subst fill_loop [where g = "\<lambda>k. p ! k"]) auto
qed

lemma decode_multi_text:
  assumes "i \<in> set text_ids"
  shows "decode_multi i (Some p) = Some (Some (P_text (text_payload.make (of_nat (min 32 (length p)))
    (take 32 p @ replicate (32 - length p) 0))))"
  using assms
  by (simp add: text_ids_def, elim disjE) (simp_all add: decode_multi_def clip prefix_copy Let_def split del: if_split)

lemma decode_multi_version:
  assumes "i \<in> set version_ids"
  shows "decode_multi i (Some p) = Some (Some (P_version (version_payload.make
    (of_nat (min 14 (length p))) (take 14 p @ replicate (14 - length p) 0))))"
  using assms
  by (simp add: version_ids_def, elim disjE) (simp_all add: decode_multi_def clip prefix_copy Let_def split del: if_split)

lemma raw_be16_rec16: "off + 1 < length p \<Longrightarrow> raw_be16 p off = Some (rec16 p off)"
  by (simp add: raw_be16_def rec16_def)

lemma decode_multi_voltages:
  fixes p defines "n \<equiv> min 48 (length p div 2)"
  shows "decode_multi CELL_VOLTAGES (Some p) = Some (Some (P_cell_voltages (cell_voltages.make
    (of_nat n) (map (\<lambda>k. rec16 p (k * 2)) [0..<n] @ replicate (48 - n) 0))))"
proof -
  have *: "raw_be16 p (k * 2) = Some (rec16 p (k * 2))" if "k < n" for k
    using that by (intro raw_be16_rec16) (auto simp: n_def)
  then show ?thesis
    using fill_loop [of n 48 "\<lambda>k. raw_be16 p (k * 2)" "\<lambda>k. rec16 p (k * 2)" 0]
    by (simp add: decode_multi_def clip Let_def n_def split del: if_split)
qed

lemma decode_multi_temperatures:
  fixes p defines "n \<equiv> min 21 (length p)"
  shows "decode_multi CELL_TEMPERATURES (Some p) = Some (Some (P_cell_temperatures
    (cell_temperatures.make (of_nat n)
      (map (\<lambda>k. to_temperature_c (p ! k)) [0..<n] @ replicate (21 - n) 0))))"
proof -
  have loop: "(\<lambda>k v. do { x \<leftarrow> rd p k; wr v k (to_temperature_c x) }) =
    (\<lambda>k v. do { x \<leftarrow> map_option to_temperature_c (rd p k); wr v k x })"
    by (auto simp: rd_def fun_eq_iff)
  show ?thesis
    using fill_loop [of n 21 "\<lambda>k. map_option to_temperature_c (rd p k)"
        "\<lambda>k. to_temperature_c (p ! k)" 0]
    by (simp add: decode_multi_def loop clip Let_def n_def split del: if_split)
qed

lemma decode_multi_cases:
  "decode_multi i buf = Some None \<and> (buf = None \<or> i \<notin> set paginated_ids) \<or>
   (\<exists>p. decode_multi i buf = Some (Some p) \<and> buf \<noteq> None \<and> i \<in> set paginated_ids \<and>
     payload_fits i p)"
proof (cases buf)
  case None
  then show ?thesis by (simp add: decode_multi_def)
next
  case (Some p)
  show ?thesis
  proof (cases "i \<in> set paginated_ids")
    case True
    then consider "i \<in> set text_ids" | "i \<in> set version_ids" | "i = CELL_VOLTAGES"
      | "i = CELL_TEMPERATURES" by (auto simp: paginated_ids_split)
    then have "\<exists>q. decode_multi i (Some p) = Some (Some q) \<and> payload_fits i q"
    proof cases
      case 1
      then show ?thesis
        by (simp add: decode_multi_text)
          (auto simp: text_ids_def payload_fits_def is_alarm_threshold_id_def)
    next
      case 2
      then show ?thesis
        by (simp add: decode_multi_version)
          (auto simp: version_ids_def payload_fits_def is_alarm_threshold_id_def)
    next
      case 3
      then show ?thesis using decode_multi_voltages [of p]
        by (auto simp: payload_fits_def is_alarm_threshold_id_def)
    next
      case 4
      then show ?thesis using decode_multi_temperatures [of p]
        by (auto simp: payload_fits_def is_alarm_threshold_id_def)
    qed
    with True Some show ?thesis by blast
  next
    case False
    with Some show ?thesis by (simp add: paginated_ids_def decode_multi_def)
  qed
qed

lemma decode_multi_fits: "decode_multi i buf = Some (Some p) \<Longrightarrow> payload_fits i p"
  using decode_multi_cases [of i buf] by auto

lemma decode_multi_defined:
  "i \<in> set paginated_ids \<Longrightarrow> \<exists>q. decode_multi i (Some p) = Some (Some q) \<and> payload_fits i q"
  using decode_multi_cases [of i "Some p"] by auto

lemma decode_single_sized:
  assumes "length data = 8" and "decode_single i data = Some p"
  shows "payload_sized p"
  using assms
  by (auto simp: decode_single_def decode_alarm_threshold_def payload_sized_def Let_def
      bmu_cell_temp_count.defs firmware_index.defs cell_balancing_bits.defs fault_status.defs
      length_fold_update [of 0, simplified]
      split: if_splits)

lemma decode_multi_sized:
  assumes "decode_multi i (Some q) = Some (Some p)"
  shows "payload_sized p"
proof -
  from assms have "i \<in> set paginated_ids" using decode_multi_cases [of i "Some q"] by auto
  then consider "i \<in> set text_ids" | "i \<in> set version_ids" | "i = CELL_VOLTAGES"
    | "i = CELL_TEMPERATURES" by (auto simp: paginated_ids_split)
  then show ?thesis
  proof cases
    case 1
    then show ?thesis using assms
      by (auto simp: decode_multi_text payload_sized_def text_payload.defs)
  next
    case 2
    then show ?thesis using assms
      by (auto simp: decode_multi_version payload_sized_def version_payload.defs)
  next
    case 3
    then show ?thesis using assms decode_multi_voltages [of q]
      by (auto simp: payload_sized_def cell_voltages.defs unsigned_of_nat take_bit_nat_eq_self)
  next
    case 4
    then show ?thesis using assms decode_multi_temperatures [of q]
      by (auto simp: payload_sized_def cell_temperatures.defs unsigned_of_nat take_bit_nat_eq_self)
  qed
qed

section \<open>Pagination metadata\<close>

lemma multi_iff: "multi (multiframe_info i) \<longleftrightarrow> i \<in> set paginated_ids \<or> i = FAULT_RECORDS"
  by (auto simp: multiframe_info_def paginated_ids_def default_multi_frame_info_def
      multi_frame_info.make_def)

lemma streaming_iff: "streaming (multiframe_info i) \<longleftrightarrow> i = FAULT_RECORDS"
  by (auto simp: multiframe_info_def default_multi_frame_info_def multi_frame_info.make_def)

lemma multiframe_bounds:
  "frame_base (multiframe_info i) \<le> 1" "bytes_per_frame (multiframe_info i) \<le> 7"
  "frame_count (multiframe_info i) \<le> 5" "total_bytes (multiframe_info i) \<le> 32"
  by (simp_all add: multiframe_info_def default_multi_frame_info_def multi_frame_info.make_def
      word_le_nat_alt)

lemma bytes_per_frame_pos:
  "multi (multiframe_info i) \<Longrightarrow> 6 \<le> bytes_per_frame (multiframe_info i)"
  by (auto simp: multiframe_info_def default_multi_frame_info_def multi_frame_info.make_def
      word_le_nat_alt split: if_splits)

lemma frames_for_nat:
  assumes "0 < unat per" and "unat items + unat per - 1 < 256 * unat per"
  shows "unat (frames_for items per cap) = min (unat cap) ((unat items + unat per - 1) div unat per)"
proof (cases "items = 0")
  case True
  with assms show ?thesis by (simp add: frames_for_def)
next
  case False
  then have pos: "0 < unat items" by (simp add: unat_gt_0)
  have lt: "(unat items + unat per - 1) div unat per < 256"
    using assms by (simp add: less_mult_imp_div_less)
  have "uint items + uint per - 1 = int (unat items + unat per - 1)"
    unfolding uint_nat using pos by simp
  then have "(uint items + uint per - 1) div uint per =
      int ((unat items + unat per - 1) div unat per)"
    unfolding zdiv_int uint_nat by simp
  then have eq: "(word_of_int ((uint items + uint per - 1) div uint per) :: u8) =
      of_nat ((unat items + unat per - 1) div unat per)"
    by (simp only: of_int_of_nat_eq)
  have "unat (of_nat ((unat items + unat per - 1) div unat per) :: u8) =
      (unat items + unat per - 1) div unat per"
    using lt by (simp add: unsigned_of_nat take_bit_nat_eq_self)
  with False show ?thesis
    unfolding frames_for_def eq by (simp add: Let_def word_less_nat_alt)
qed

lemma cell_voltage_frames_nat: "unat (cell_voltage_frames c) = min 16 ((unat c + 2) div 3)"
  using frames_for_nat [of 3 c 16] less_256_of_nat [of c]
  by (simp add: cell_voltage_frames_def)

lemma cell_temperature_frames_nat: "unat (cell_temperature_frames t) = min 3 ((unat t + 6) div 7)"
  using frames_for_nat [of 7 t 3] less_256_of_nat [of t]
  by (simp add: cell_temperature_frames_def)

text \<open>
  The number of frames requested for a pack is the least that holds all its values: \<open>f\<close>
  frames hold at least \<open>c\<close> cells (three each) or \<open>t\<close> temperatures (seven each) and one frame
  fewer would not, for packs within the documented limits; larger counts are clipped to the 16
  and 3 frames of the limits.
\<close>

lemma page_counts:
  "(unat c \<le> MAX_CELLS \<longrightarrow>
      unat c \<le> 3 * unat (cell_voltage_frames c) \<and> 3 * unat (cell_voltage_frames c) < unat c + 3) \<and>
   (unat t \<le> MAX_TEMPERATURES \<longrightarrow>
      unat t \<le> 7 * unat (cell_temperature_frames t) \<and>
      7 * unat (cell_temperature_frames t) < unat t + 7) \<and>
   (MAX_CELLS \<le> unat c \<longrightarrow> cell_voltage_frames c = 16) \<and>
   (MAX_TEMPERATURES \<le> unat t \<longrightarrow> cell_temperature_frames t = 3)"
proof -
  have 1: "unat c \<le> 3 * unat (cell_voltage_frames c)"
    "3 * unat (cell_voltage_frames c) < unat c + 3" if "unat c \<le> 48"
    using that unfolding cell_voltage_frames_nat by linarith+
  have 2: "unat t \<le> 7 * unat (cell_temperature_frames t)"
    "7 * unat (cell_temperature_frames t) < unat t + 7" if "unat t \<le> 21"
    using that unfolding cell_temperature_frames_nat by linarith+
  have 3: "unat (cell_voltage_frames c) = 16" if "48 \<le> unat c"
    using that unfolding cell_voltage_frames_nat by linarith
  have 4: "unat (cell_temperature_frames t) = 3" if "21 \<le> unat t"
    using that unfolding cell_temperature_frames_nat by linarith
  from 1 2 3 4 show ?thesis by (simp add: word_unat_eq_iff)
qed

lemma page_counts_witness:
  "unat (cell_voltage_frames 16) = 6 \<and> cell_voltage_frames 200 = 16 \<and>
   unat (cell_temperature_frames 8) = 2"
proof -
  have "16 \<le> 3 * unat (cell_voltage_frames 16) \<and> 3 * unat (cell_voltage_frames 16) < 19"
    and "8 \<le> 7 * unat (cell_temperature_frames 8) \<and> 7 * unat (cell_temperature_frames 8) < 15"
    and "cell_voltage_frames 200 = 16"
    using page_counts [of 16 8] page_counts [of 200 8] by simp_all
  then show ?thesis by linarith
qed



section \<open>Fault records\<close>

lemma fold_sum_take:
  "n \<le> length r \<Longrightarrow> fold (\<lambda>k s. s + r ! k) [0..<n] (0 :: u8) = sum_list (take n r)"
  by (induction n) (simp_all add: take_Suc_conv_app_nth)

lemma decode_fault_record_defined:
  "decode_fault_record buf \<noteq> None \<longleftrightarrow> (\<exists>r. buf = Some r \<and> 27 \<le> length r)"
  by (auto simp: decode_fault_record_def Let_def not_less split: option.splits)

text \<open>
  A fault record decodes exactly when its 27 bytes are there, and \<open>checksum_ok\<close> tells
  whether the last of them is the sum, modulo 256, of the first 26 or of the first 18 bytes; the
  bytes after the 27th do not matter.
\<close>

lemma fault_record_checksum:
  "(decode_fault_record (Some r) \<noteq> None \<longleftrightarrow> FAULT_RECORD_LEN \<le> length r) \<and>
   decode_fault_record None = None \<and>
   (\<forall>x. decode_fault_record (Some r) = Some x \<longrightarrow>
     (checksum_ok x \<longleftrightarrow>
       r ! 26 = sum_list (take 26 r) \<or> r ! 26 = sum_list (take 18 r)) \<and>
     decode_fault_record (Some (take 27 r)) = Some x)"
proof -
  have *: "checksum_ok x \<longleftrightarrow> r ! 26 = sum_list (take 26 r) \<or> r ! 26 = sum_list (take 18 r)"
    "decode_fault_record (Some (take 27 r)) = Some x"
    if "decode_fault_record (Some r) = Some x" for x
  proof -
    from that have len: "27 \<le> length r"
      using decode_fault_record_defined [of "Some r"] by auto
    with that show "checksum_ok x \<longleftrightarrow>
        r ! 26 = sum_list (take 26 r) \<or> r ! 26 = sum_list (take 18 r)"
      by (auto simp: decode_fault_record_def Let_def fold_sum_take fault_record.make_def)
    have "fold (\<lambda>k s. s + take 27 r ! k) [0..<n] (0 :: u8) = fold (\<lambda>k s. s + r ! k) [0..<n] 0"
      if "n \<le> 27" for n
      using that by (intro fold_cong) auto
    with that len show "decode_fault_record (Some (take 27 r)) = Some x"
      by (simp add: decode_fault_record_def Let_def rec16_def)
  qed
  then show ?thesis
    using decode_fault_record_defined [of "Some r"] decode_fault_record_defined [of None] by auto
qed

lemma fault_record_checksum_witness:
  "\<exists>x. decode_fault_record (Some (replicate 26 1 @ [26, 7])) = Some x \<and> checksum_ok x"
proof -
  let ?r = "replicate 26 1 @ [26, 7] :: u8 list"
  have "sum_list (take 26 ?r) = 26" and "?r ! 26 = 26" by (simp_all add: sum_list_replicate nth_append)
  with fault_record_checksum [of ?r] show ?thesis by auto
qed

section \<open>Nothing is lost\<close>

text \<open>The replies whose eight bytes all carry a reading.\<close>

definition lossless_ids :: "data_id list" where
  "lossless_ids =
    [CAPACITY_VOLTAGE, BMU_CELL_TEMP_COUNT, TOTAL_CHARGE_DISCHARGE_AH, BATTERY_OPERATION_MODE,
     FIRMWARE_INDEX, BATTERY_PRODUCTION_DATE, CELL_VOLTAGE_ALARM, TOTAL_VOLTAGE_ALARM,
     CURRENT_ALARM, TEMPERATURE_ALARM, SOC_ALARM, DIFFERENCE_ALARM, BALANCING_PARAMS,
     CURRENT_PARAMS, RTC, TOTAL_VOLTAGE_CURRENT_SOC, CELL_VOLTAGE_EXTREMES,
     CELL_TEMPERATURE_EXTREMES, CHARGE_DISCHARGE_MOS_STATUS, CELL_BALANCING_BITS, FAULT_STATUS]"

lemmas payload_makes =
  capacity_voltage.make_def bmu_cell_temp_count.make_def total_charge_discharge_ah.make_def
  battery_operation_mode.make_def firmware_index.make_def cell_voltage_alarm.make_def
  total_voltage_alarm.make_def current_alarm.make_def temperature_alarm.make_def
  soc_alarm.make_def difference_alarm.make_def balancing_params.make_def current_params.make_def
  rtc.make_def total_voltage_current_soc.make_def cell_voltage_extremes.make_def
  cell_temperature_extremes.make_def charge_discharge_mos_status.make_def
  cell_balancing_bits.make_def fault_status.make_def alarm_threshold.make_def
  current_alarm_threshold.make_def temp_alarm_threshold.make_def

lemma be_lists_eq:
  "be16 [a, b, c, d, e, f, g, h] 0 = be16 [a', b', c', d', e', f', g', h'] 0 \<longleftrightarrow> a = a' \<and> b = b'"
  "be16 [a, b, c, d, e, f, g, h] 2 = be16 [a', b', c', d', e', f', g', h'] 2 \<longleftrightarrow> c = c' \<and> d = d'"
  "be16 [a, b, c, d, e, f, g, h] 3 = be16 [a', b', c', d', e', f', g', h'] 3 \<longleftrightarrow> d = d' \<and> e = e'"
  "be16 [a, b, c, d, e, f, g, h] 4 = be16 [a', b', c', d', e', f', g', h'] 4 \<longleftrightarrow> e = e' \<and> f = f'"
  "be16 [a, b, c, d, e, f, g, h] 5 = be16 [a', b', c', d', e', f', g', h'] 5 \<longleftrightarrow> f = f' \<and> g = g'"
  "be16 [a, b, c, d, e, f, g, h] 6 = be16 [a', b', c', d', e', f', g', h'] 6 \<longleftrightarrow> g = g' \<and> h = h'"
  "be32 [a, b, c, d, e, f, g, h] 0 = be32 [a', b', c', d', e', f', g', h'] 0 \<longleftrightarrow>
    a = a' \<and> b = b' \<and> c = c' \<and> d = d'"
  "be32 [a, b, c, d, e, f, g, h] 4 = be32 [a', b', c', d', e', f', g', h'] 4 \<longleftrightarrow>
    e = e' \<and> f = f' \<and> g = g' \<and> h = h'"
  by (simp_all add: be16_eq_iff be32_eq_iff)

lemma eight_writes:
  "(replicate 8 z)[0 := a, Suc 0 := b, 2 := c, 3 := d, 4 := e, 5 := f, 6 := g, 7 := h] =
    [a, b, c, d, e, f, g, h]"
  by (simp add: eval_nat_numeral)

lemma decode_alarm_threshold_inj:
  assumes "length d = 8" and "length d' = 8"
    and "decode_alarm_threshold i d = decode_alarm_threshold i d'"
  shows "d = d'"
  using assms
  by (elim length_8E)
    (auto simp: decode_alarm_threshold_def Let_def payload_makes be_lists_eq split: if_splits)

text \<open>
  C38: nothing is lost in decoding.  For the alarm thresholds and the 21 commands whose whole
  reply carries readings, two replies that decode to the same payload are the same eight bytes.
\<close>

theorem decoding_is_lossless:
  assumes "length d = 8" and "length d' = 8"
    and "i \<in> set lossless_ids \<or> is_alarm_threshold_id i"
    and "decode_single i d = decode_single i d'"
  shows "d = d'"
proof (cases "is_alarm_threshold_id i")
  case True
  with assms decode_alarm_threshold_inj show ?thesis by (auto simp: decode_single_def)
next
  case False
  with assms(3) have "i \<in> set lossless_ids" by simp
  with assms(1, 2, 4) False show ?thesis
    by (elim length_8E, simp only: lossless_ids_def list.set insert_iff empty_iff simp_thms, elim disjE)
      (simp_all add: decode_single_def payload_makes be_lists_eq eight_writes wire_simps)
qed

theorem decoding_is_lossless_witness:
  "decode_single SOC_ALARM [1, 2, 3, 4, 5, 6, 7, 8] \<noteq> decode_single SOC_ALARM [1, 2, 3, 4, 5, 6, 7, 9]"
  using decoding_is_lossless [of "[1, 2, 3, 4, 5, 6, 7, 8]" "[1, 2, 3, 4, 5, 6, 7, 9]" SOC_ALARM]
  by (auto simp: lossless_ids_def)

end
