(* ===== verification/Session.thy ===== *)
theory Session
  imports FrameParser Decode
begin

text \<open>
  The session, first part: the state of \<open>HaidiBMS\<close> (\<open>include/haidi_bms.hpp\<close>), its request
  queue and the life cycle of a transaction up to the transmission (\<open>src/haidi_bms.cpp\<close>).

  The record \<open>session\<close> has the private members under the source's names without the trailing
  underscore (\<open>record_\<close> is \<open>record_buf\<close>, a request's \<open>id\<close> and \<open>data\<close> are \<open>req_id\<close> and
  \<open>req_data\<close>).  A function pointer is a natural number naming the function, a null pointer
  \<open>None\<close>; the context pointer is a number too.  The compile-time capacity of the queue is the
  length of the array \<open>queue\<close>.  The field \<open>trace\<close> is no member of the class: it records what the
  session does to the outside, in order, namely the frames handed to the TX handler, the events
  emitted and the event handlers called.  Each operation is a function of the session, in the
  option monad where it indexes an array, shifts, or loops on a condition.
\<close>

section \<open>State\<close>

type_synonym fn_ptr = nat
type_synonym ctx_ptr = nat

datatype queue_status = QUEUED | QUEUE_FULL | NO_TX_HANDLER | BAD_REQUEST

datatype session_state = IDLE | AWAITING

record request =
  req_id :: data_id
  req_data :: data_bytes
  hint :: u8
  on_event :: "fn_ptr option"
  on_event_ctx :: ctx_ptr

definition default_request :: request where
  "default_request = request.make CAPACITY_VOLTAGE (replicate DATA_LEN 0) 0 None 0"

datatype observable =
    TX fn_ptr ctx_ptr message_bytes
  | EMIT event
  | HANDLER fn_ptr ctx_ptr event

definition DEFAULT_RESPONSE_TIMEOUT_MS :: u32 where [simp]: "DEFAULT_RESPONSE_TIMEOUT_MS = 250"
definition DEFAULT_INTERFRAME_TIMEOUT_MS :: u32 where [simp]: "DEFAULT_INTERFRAME_TIMEOUT_MS = 250"
definition DEFAULT_MAX_RETRIES :: u8 where [simp]: "DEFAULT_MAX_RETRIES = 1"
definition DEFAULT_QUEUE_CAPACITY :: nat where [simp]: "DEFAULT_QUEUE_CAPACITY = 24"
definition MAX_FRAME_INDEX :: u8 where [simp]: "MAX_FRAME_INDEX = 16"
definition ASSEMBLY_LEN :: nat where [simp]: "ASSEMBLY_LEN = (unat MAX_FRAME_INDEX + 1) * 7"
definition FAULT_FRAMES_PER_RECORD :: nat where [simp]: "FAULT_FRAMES_PER_RECORD = 4"
definition FAULT_BUFFER_LEN :: nat where [simp]: "FAULT_BUFFER_LEN = FAULT_FRAMES_PER_RECORD * 7"

record session =
  host_address :: u8
  bms_address :: u8
  tx_fn :: "fn_ptr option"
  tx_ctx :: ctx_ptr
  event_fn :: "fn_ptr option"
  event_ctx :: ctx_ptr
  response_timeout_ms :: u32
  interframe_timeout_ms :: u32
  max_retries :: u8
  parser :: frame_parser
  queue :: "request list"
  queue_head :: nat
  queue_count :: nat
  state :: session_state
  now_ms :: u32
  deadline_ms :: u32
  retries :: u8
  dispatching :: bool
  assembly :: "u8 list"
  seen_mask :: u32
  frames_seen :: u8
  expected_frames :: u8
  expected_items :: u8
  record_buf :: "u8 list"
  record_len :: nat
  cached_cell_count :: u8
  cached_temp_count :: u8
  trace :: "observable list"

text \<open>The constructor, with the default member initialisers, for a queue of a given capacity.\<close>

definition init_session :: "nat \<Rightarrow> u8 \<Rightarrow> u8 \<Rightarrow> session" where
  "init_session capacity host bms =
    \<lparr>host_address = host, bms_address = bms,
     tx_fn = None, tx_ctx = 0, event_fn = None, event_ctx = 0,
     response_timeout_ms = DEFAULT_RESPONSE_TIMEOUT_MS,
     interframe_timeout_ms = DEFAULT_INTERFRAME_TIMEOUT_MS,
     max_retries = DEFAULT_MAX_RETRIES,
     parser = init_parser,
     queue = replicate capacity default_request, queue_head = 0, queue_count = 0,
     state = IDLE, now_ms = 0, deadline_ms = 0, retries = 0,
     dispatching = False,
     assembly = replicate ASSEMBLY_LEN 0, seen_mask = 0, frames_seen = 0, expected_frames = 0,
     expected_items = 0,
     record_buf = replicate FAULT_BUFFER_LEN 0, record_len = 0,
     cached_cell_count = 0, cached_temp_count = 0, trace = []\<rparr>"

definition QUEUE_CAPACITY :: "session \<Rightarrow> nat" where
  "QUEUE_CAPACITY s = length (queue s)"

definition head :: "session \<Rightarrow> request option" where
  "head s = rd (queue s) (queue_head s)"

section \<open>Helpers\<close>

definition expired :: "u32 \<Rightarrow> u32 \<Rightarrow> bool" where
  "expired now deadline \<longleftrightarrow> sint (now - deadline) \<ge> 0"

function popcount_loop :: "u32 \<Rightarrow> u8 \<Rightarrow> u8" where
  "popcount_loop v n = (if v \<noteq> 0 then popcount_loop (v AND (v - 1)) (n + 1) else n)"
  by pat_completeness auto
termination
proof (relation "measure (\<lambda>(v, n). unat v)", goal_cases)
  case (2 v n)
  have "v AND (v - 1) \<le> v - 1" by (simp add: word_and_le1)
  also from 2 have "v - 1 < v" by (simp add: word_less_1 word_gt_0 measure_unat word_less_nat_alt)
  finally show ?case by (simp add: word_less_nat_alt)
qed simp

declare popcount_loop.simps [simp del]

definition popcount32 :: "u32 \<Rightarrow> u8" where
  "popcount32 v = popcount_loop v 0"

text \<open>The two loops that have no bound of their own: \<open>None\<close> when they do not end.\<close>

partial_function (option) lowest_frame_loop :: "u32 \<Rightarrow> u8 \<Rightarrow> u8 option" where
  "lowest_frame_loop m index =
    (if m AND 1 = 0 then lowest_frame_loop (drop_bit 1 m) (index + 1) else Some index)"

definition lowest_frame_no :: "u32 \<Rightarrow> u8 option" where
  "lowest_frame_no m = lowest_frame_loop m 0"

partial_function (option) contiguous_loop :: "u32 \<Rightarrow> u8 \<Rightarrow> u8 \<Rightarrow> u8 option" where
  "contiguous_loop m base run =
    shl32 1 (unat base + unat run) \<bind>
      (\<lambda>bit. if m AND bit \<noteq> 0 then contiguous_loop m base (run + 1) else Some run)"

declare lowest_frame_loop.simps [code] contiguous_loop.simps [code]

definition contiguous_frames :: "u32 \<Rightarrow> u8 \<Rightarrow> u8 option" where
  "contiguous_frames m base = contiguous_loop m base 0"

section \<open>Wiring, introspection and reset\<close>

definition set_tx_handler :: "fn_ptr option \<Rightarrow> ctx_ptr \<Rightarrow> session \<Rightarrow> session" where
  "set_tx_handler fn c s = s\<lparr>tx_fn := fn, tx_ctx := c\<rparr>"

definition set_event_handler :: "fn_ptr option \<Rightarrow> ctx_ptr \<Rightarrow> session \<Rightarrow> session" where
  "set_event_handler fn c s = s\<lparr>event_fn := fn, event_ctx := c\<rparr>"

definition set_response_timeout_ms :: "u32 \<Rightarrow> session \<Rightarrow> session" where
  "set_response_timeout_ms ms s = s\<lparr>response_timeout_ms := ms\<rparr>"

definition set_interframe_timeout_ms :: "u32 \<Rightarrow> session \<Rightarrow> session" where
  "set_interframe_timeout_ms ms s = s\<lparr>interframe_timeout_ms := ms\<rparr>"

definition set_max_retries :: "u8 \<Rightarrow> session \<Rightarrow> session" where
  "set_max_retries n s = s\<lparr>max_retries := n\<rparr>"

definition reset :: "session \<Rightarrow> session" where
  "reset s = s\<lparr>parser := parser_reset (parser s), queue_head := 0, queue_count := 0, state := IDLE,
     retries := 0, seen_mask := 0, frames_seen := 0, expected_frames := 0, expected_items := 0,
     record_len := 0\<rparr>"

definition busy :: "session \<Rightarrow> bool" where
  "busy s \<longleftrightarrow> state s \<noteq> IDLE"

definition pending :: "session \<Rightarrow> nat" where
  "pending s = queue_count s"

definition in_flight :: "session \<Rightarrow> data_id option" where
  "in_flight s =
    (if state s = AWAITING \<and> queue_count s > 0 then map_option req_id (head s)
     else Some DATA_ID_NONE)"

definition discarded_bytes :: "session \<Rightarrow> u32" where
  "discarded_bytes s = discarded_count (parser s)"

section \<open>Transmission\<close>

definition transmit :: "session \<Rightarrow> session option" where
  "transmit s = do {
     h \<leftarrow> head s;
     let frame = encode (host_address s) (req_id h) (req_data h);
     let s = (case tx_fn s of None \<Rightarrow> s
        | Some f \<Rightarrow> s\<lparr>trace := trace s @ [TX f (tx_ctx s) frame]\<rparr>);
     Some (s\<lparr>deadline_ms := now_ms s + response_timeout_ms s\<rparr>)
   }"

definition begin_awaiting :: "session \<Rightarrow> session option" where
  "begin_awaiting s = do {
     let s = s\<lparr>assembly := replicate (length (assembly s)) 0, seen_mask := 0, frames_seen := 0,
       record_len := 0, retries := 0\<rparr>;
     h \<leftarrow> head s;
     let info = multiframe_info (req_id h);
     let s = s\<lparr>expected_frames := frame_count info, expected_items := 0\<rparr>;
     if req_id h = CELL_VOLTAGES then
       let n = (if hint h \<noteq> 0 then hint h else cached_cell_count s)
       in Some (s\<lparr>expected_items := n, expected_frames := cell_voltage_frames n\<rparr>)
     else if req_id h = CELL_TEMPERATURES then
       let n = (if hint h \<noteq> 0 then hint h else cached_temp_count s)
       in Some (s\<lparr>expected_items := n, expected_frames := cell_temperature_frames n\<rparr>)
     else Some s
   }"

definition pump :: "session \<Rightarrow> session option" where
  "pump s =
    (if state s \<noteq> IDLE \<or> queue_count s = 0 then Some s
     else do {
       s \<leftarrow> begin_awaiting (s\<lparr>state := AWAITING\<rparr>);
       transmit s
     })"

definition pop_request :: "session \<Rightarrow> session" where
  "pop_request s = s\<lparr>queue_head := (queue_head s + 1) mod QUEUE_CAPACITY s,
     queue_count := size_sub (queue_count s) 1\<rparr>"

definition complete :: "session \<Rightarrow> session option" where
  "complete s =
    (let s = (if state s = AWAITING then pop_request s else s)
     in pump (s\<lparr>state := IDLE\<rparr>))"

section \<open>Queueing\<close>

definition push_request :: "request \<Rightarrow> session \<Rightarrow> session option" where
  "push_request req s = do {
     q \<leftarrow> wr (queue s) ((queue_head s + queue_count s) mod QUEUE_CAPACITY s) req;
     Some (s\<lparr>queue := q, queue_count := queue_count s + 1\<rparr>)
   }"

definition enqueue :: "request \<Rightarrow> session \<Rightarrow> (queue_status \<times> session) option" where
  "enqueue req s =
    (if tx_fn s = None then Some (NO_TX_HANDLER, s)
     else if \<not> is_known_data_id (req_id req) then Some (BAD_REQUEST, s)
     else if queue_count s \<ge> QUEUE_CAPACITY s then Some (QUEUE_FULL, s)
     else do {
       s \<leftarrow> push_request req s;
       s \<leftarrow> (if dispatching s then Some s else pump s);
       Some (QUEUED, s)
     })"

definition request_op :: "data_id \<Rightarrow> fn_ptr option \<Rightarrow> ctx_ptr \<Rightarrow> session \<Rightarrow> (queue_status \<times> session) option"
where
  "request_op i fn c = enqueue (request.make i (replicate DATA_LEN 0) 0 fn c)"

definition request_paginated ::
  "data_id \<Rightarrow> u8 \<Rightarrow> fn_ptr option \<Rightarrow> ctx_ptr \<Rightarrow> session \<Rightarrow> (queue_status \<times> session) option" where
  "request_paginated i n fn c = enqueue (request.make i (replicate DATA_LEN 0) n fn c)"

definition request_mos ::
  "data_id \<Rightarrow> bool \<Rightarrow> fn_ptr option \<Rightarrow> ctx_ptr \<Rightarrow> session \<Rightarrow> (queue_status \<times> session) option" where
  "request_mos i on fn c =
    enqueue (request.make i ((replicate DATA_LEN 0)[0 := (if on then 1 else 0)]) 0 fn c)"

end
