(* ===== verification/Commands.thy ===== *)
theory Commands
  imports Session
begin

text \<open>
  The public request methods of \<open>HaidiBMS\<close> (\<open>include/haidi_bms.hpp\<close>), one definition each, and the
  type \<open>call\<close> of their calls with their arguments, so that a program driving the session can be
  written down as data.
\<close>

section \<open>The methods\<close>

definition poll_capacity_voltage :: "fn_ptr option \<Rightarrow> ctx_ptr \<Rightarrow> session \<Rightarrow> (queue_status \<times> session) option" where
  "poll_capacity_voltage = request_op CAPACITY_VOLTAGE"

definition poll_bmu_cell_temp_count :: "fn_ptr option \<Rightarrow> ctx_ptr \<Rightarrow> session \<Rightarrow> (queue_status \<times> session) option" where
  "poll_bmu_cell_temp_count = request_op BMU_CELL_TEMP_COUNT"

definition poll_total_charge_discharge_ah :: "fn_ptr option \<Rightarrow> ctx_ptr \<Rightarrow> session \<Rightarrow> (queue_status \<times> session) option" where
  "poll_total_charge_discharge_ah = request_op TOTAL_CHARGE_DISCHARGE_AH"

definition poll_battery_operation_mode :: "fn_ptr option \<Rightarrow> ctx_ptr \<Rightarrow> session \<Rightarrow> (queue_status \<times> session) option" where
  "poll_battery_operation_mode = request_op BATTERY_OPERATION_MODE"

definition poll_firmware_index :: "fn_ptr option \<Rightarrow> ctx_ptr \<Rightarrow> session \<Rightarrow> (queue_status \<times> session) option" where
  "poll_firmware_index = request_op FIRMWARE_INDEX"

definition poll_manufacturer_name :: "fn_ptr option \<Rightarrow> ctx_ptr \<Rightarrow> session \<Rightarrow> (queue_status \<times> session) option" where
  "poll_manufacturer_name = request_op MANUFACTURER_NAME"

definition poll_battery_name :: "fn_ptr option \<Rightarrow> ctx_ptr \<Rightarrow> session \<Rightarrow> (queue_status \<times> session) option" where
  "poll_battery_name = request_op BATTERY_NAME"

definition poll_battery_serial_number :: "fn_ptr option \<Rightarrow> ctx_ptr \<Rightarrow> session \<Rightarrow> (queue_status \<times> session) option" where
  "poll_battery_serial_number = request_op BATTERY_SERIAL_NUMBER"

definition poll_battery_production_date :: "fn_ptr option \<Rightarrow> ctx_ptr \<Rightarrow> session \<Rightarrow> (queue_status \<times> session) option" where
  "poll_battery_production_date = request_op BATTERY_PRODUCTION_DATE"

definition poll_cell_voltage_alarm :: "fn_ptr option \<Rightarrow> ctx_ptr \<Rightarrow> session \<Rightarrow> (queue_status \<times> session) option" where
  "poll_cell_voltage_alarm = request_op CELL_VOLTAGE_ALARM"

definition poll_total_voltage_alarm :: "fn_ptr option \<Rightarrow> ctx_ptr \<Rightarrow> session \<Rightarrow> (queue_status \<times> session) option" where
  "poll_total_voltage_alarm = request_op TOTAL_VOLTAGE_ALARM"

definition poll_current_alarm :: "fn_ptr option \<Rightarrow> ctx_ptr \<Rightarrow> session \<Rightarrow> (queue_status \<times> session) option" where
  "poll_current_alarm = request_op CURRENT_ALARM"

definition poll_temperature_alarm :: "fn_ptr option \<Rightarrow> ctx_ptr \<Rightarrow> session \<Rightarrow> (queue_status \<times> session) option" where
  "poll_temperature_alarm = request_op TEMPERATURE_ALARM"

definition poll_soc_alarm :: "fn_ptr option \<Rightarrow> ctx_ptr \<Rightarrow> session \<Rightarrow> (queue_status \<times> session) option" where
  "poll_soc_alarm = request_op SOC_ALARM"

definition poll_difference_alarm :: "fn_ptr option \<Rightarrow> ctx_ptr \<Rightarrow> session \<Rightarrow> (queue_status \<times> session) option" where
  "poll_difference_alarm = request_op DIFFERENCE_ALARM"

definition poll_balancing_params :: "fn_ptr option \<Rightarrow> ctx_ptr \<Rightarrow> session \<Rightarrow> (queue_status \<times> session) option" where
  "poll_balancing_params = request_op BALANCING_PARAMS"

definition poll_current_params :: "fn_ptr option \<Rightarrow> ctx_ptr \<Rightarrow> session \<Rightarrow> (queue_status \<times> session) option" where
  "poll_current_params = request_op CURRENT_PARAMS"

definition poll_rtc :: "fn_ptr option \<Rightarrow> ctx_ptr \<Rightarrow> session \<Rightarrow> (queue_status \<times> session) option" where
  "poll_rtc = request_op RTC"

definition poll_software_version :: "fn_ptr option \<Rightarrow> ctx_ptr \<Rightarrow> session \<Rightarrow> (queue_status \<times> session) option" where
  "poll_software_version = request_op SOFTWARE_VERSION"

definition poll_hardware_version :: "fn_ptr option \<Rightarrow> ctx_ptr \<Rightarrow> session \<Rightarrow> (queue_status \<times> session) option" where
  "poll_hardware_version = request_op HARDWARE_VERSION"

definition poll_board_number :: "fn_ptr option \<Rightarrow> ctx_ptr \<Rightarrow> session \<Rightarrow> (queue_status \<times> session) option" where
  "poll_board_number = request_op BOARD_NUMBER"

definition poll_heating_temperature :: "fn_ptr option \<Rightarrow> ctx_ptr \<Rightarrow> session \<Rightarrow> (queue_status \<times> session) option" where
  "poll_heating_temperature = request_op HEATING_TEMPERATURE"

definition poll_active_balancing_switch :: "fn_ptr option \<Rightarrow> ctx_ptr \<Rightarrow> session \<Rightarrow> (queue_status \<times> session) option" where
  "poll_active_balancing_switch = request_op ACTIVE_BALANCING_SWITCH"

definition poll_active_balancing_params :: "fn_ptr option \<Rightarrow> ctx_ptr \<Rightarrow> session \<Rightarrow> (queue_status \<times> session) option" where
  "poll_active_balancing_params = request_op ACTIVE_BALANCING_PARAMS"

definition poll_inverter_params :: "fn_ptr option \<Rightarrow> ctx_ptr \<Rightarrow> session \<Rightarrow> (queue_status \<times> session) option" where
  "poll_inverter_params = request_op INVERTER_PARAMS"

definition poll_sn_serial_number :: "fn_ptr option \<Rightarrow> ctx_ptr \<Rightarrow> session \<Rightarrow> (queue_status \<times> session) option" where
  "poll_sn_serial_number = request_op SN_SERIAL_NUMBER"

definition poll_fault_records :: "fn_ptr option \<Rightarrow> ctx_ptr \<Rightarrow> session \<Rightarrow> (queue_status \<times> session) option" where
  "poll_fault_records = request_op FAULT_RECORDS"

definition poll_alarm_threshold ::
  "alarm_class \<Rightarrow> alarm_level \<Rightarrow> fn_ptr option \<Rightarrow> ctx_ptr \<Rightarrow> session \<Rightarrow> (queue_status \<times> session) option" where
  "poll_alarm_threshold cls level fn c =
    (let in_range = (cls < ALARM_CLASS_COUNT \<and> level < ALARM_LEVEL_COUNT)
     in request_op (if in_range then alarm_threshold_id cls level else DATA_ID_NONE) fn c)"

definition poll_total_voltage_current_soc :: "fn_ptr option \<Rightarrow> ctx_ptr \<Rightarrow> session \<Rightarrow> (queue_status \<times> session) option" where
  "poll_total_voltage_current_soc = request_op TOTAL_VOLTAGE_CURRENT_SOC"

definition poll_cell_voltage_extremes :: "fn_ptr option \<Rightarrow> ctx_ptr \<Rightarrow> session \<Rightarrow> (queue_status \<times> session) option" where
  "poll_cell_voltage_extremes = request_op CELL_VOLTAGE_EXTREMES"

definition poll_cell_temperature_extremes :: "fn_ptr option \<Rightarrow> ctx_ptr \<Rightarrow> session \<Rightarrow> (queue_status \<times> session) option" where
  "poll_cell_temperature_extremes = request_op CELL_TEMPERATURE_EXTREMES"

definition poll_charge_discharge_mos_status :: "fn_ptr option \<Rightarrow> ctx_ptr \<Rightarrow> session \<Rightarrow> (queue_status \<times> session) option" where
  "poll_charge_discharge_mos_status = request_op CHARGE_DISCHARGE_MOS_STATUS"

definition poll_status_info :: "fn_ptr option \<Rightarrow> ctx_ptr \<Rightarrow> session \<Rightarrow> (queue_status \<times> session) option" where
  "poll_status_info = request_op STATUS_INFO"

definition poll_cell_balancing_bits :: "fn_ptr option \<Rightarrow> ctx_ptr \<Rightarrow> session \<Rightarrow> (queue_status \<times> session) option" where
  "poll_cell_balancing_bits = request_op CELL_BALANCING_BITS"

definition poll_fault_status :: "fn_ptr option \<Rightarrow> ctx_ptr \<Rightarrow> session \<Rightarrow> (queue_status \<times> session) option" where
  "poll_fault_status = request_op FAULT_STATUS"

definition poll_balancing_state :: "fn_ptr option \<Rightarrow> ctx_ptr \<Rightarrow> session \<Rightarrow> (queue_status \<times> session) option" where
  "poll_balancing_state = request_op BALANCING_STATE"

definition poll_battery_status :: "fn_ptr option \<Rightarrow> ctx_ptr \<Rightarrow> session \<Rightarrow> (queue_status \<times> session) option" where
  "poll_battery_status = request_op BATTERY_STATUS"

definition poll_cell_voltages ::
  "u8 \<Rightarrow> fn_ptr option \<Rightarrow> ctx_ptr \<Rightarrow> session \<Rightarrow> (queue_status \<times> session) option" where
  "poll_cell_voltages n = request_paginated CELL_VOLTAGES n"

definition poll_cell_temperatures ::
  "u8 \<Rightarrow> fn_ptr option \<Rightarrow> ctx_ptr \<Rightarrow> session \<Rightarrow> (queue_status \<times> session) option" where
  "poll_cell_temperatures n = request_paginated CELL_TEMPERATURES n"

definition poll_wakeup_source :: "fn_ptr option \<Rightarrow> ctx_ptr \<Rightarrow> session \<Rightarrow> (queue_status \<times> session) option" where
  "poll_wakeup_source = request_op WAKEUP_SOURCE"

definition set_discharge_mos ::
  "bool \<Rightarrow> fn_ptr option \<Rightarrow> ctx_ptr \<Rightarrow> session \<Rightarrow> (queue_status \<times> session) option" where
  "set_discharge_mos on = request_mos DISCHARGE_MOS_CONTROL on"

definition set_charge_mos ::
  "bool \<Rightarrow> fn_ptr option \<Rightarrow> ctx_ptr \<Rightarrow> session \<Rightarrow> (queue_status \<times> session) option" where
  "set_charge_mos on = request_mos CHARGE_MOS_CONTROL on"

section \<open>Calls as data\<close>

datatype (plugins only: code size) call =
    Poll_capacity_voltage "fn_ptr option" ctx_ptr
  | Poll_bmu_cell_temp_count "fn_ptr option" ctx_ptr
  | Poll_total_charge_discharge_ah "fn_ptr option" ctx_ptr
  | Poll_battery_operation_mode "fn_ptr option" ctx_ptr
  | Poll_firmware_index "fn_ptr option" ctx_ptr
  | Poll_manufacturer_name "fn_ptr option" ctx_ptr
  | Poll_battery_name "fn_ptr option" ctx_ptr
  | Poll_battery_serial_number "fn_ptr option" ctx_ptr
  | Poll_battery_production_date "fn_ptr option" ctx_ptr
  | Poll_cell_voltage_alarm "fn_ptr option" ctx_ptr
  | Poll_total_voltage_alarm "fn_ptr option" ctx_ptr
  | Poll_current_alarm "fn_ptr option" ctx_ptr
  | Poll_temperature_alarm "fn_ptr option" ctx_ptr
  | Poll_soc_alarm "fn_ptr option" ctx_ptr
  | Poll_difference_alarm "fn_ptr option" ctx_ptr
  | Poll_balancing_params "fn_ptr option" ctx_ptr
  | Poll_current_params "fn_ptr option" ctx_ptr
  | Poll_rtc "fn_ptr option" ctx_ptr
  | Poll_software_version "fn_ptr option" ctx_ptr
  | Poll_hardware_version "fn_ptr option" ctx_ptr
  | Poll_board_number "fn_ptr option" ctx_ptr
  | Poll_heating_temperature "fn_ptr option" ctx_ptr
  | Poll_active_balancing_switch "fn_ptr option" ctx_ptr
  | Poll_active_balancing_params "fn_ptr option" ctx_ptr
  | Poll_inverter_params "fn_ptr option" ctx_ptr
  | Poll_sn_serial_number "fn_ptr option" ctx_ptr
  | Poll_fault_records "fn_ptr option" ctx_ptr
  | Poll_alarm_threshold alarm_class alarm_level "fn_ptr option" ctx_ptr
  | Poll_total_voltage_current_soc "fn_ptr option" ctx_ptr
  | Poll_cell_voltage_extremes "fn_ptr option" ctx_ptr
  | Poll_cell_temperature_extremes "fn_ptr option" ctx_ptr
  | Poll_charge_discharge_mos_status "fn_ptr option" ctx_ptr
  | Poll_status_info "fn_ptr option" ctx_ptr
  | Poll_cell_balancing_bits "fn_ptr option" ctx_ptr
  | Poll_fault_status "fn_ptr option" ctx_ptr
  | Poll_balancing_state "fn_ptr option" ctx_ptr
  | Poll_battery_status "fn_ptr option" ctx_ptr
  | Poll_cell_voltages u8 "fn_ptr option" ctx_ptr
  | Poll_cell_temperatures u8 "fn_ptr option" ctx_ptr
  | Poll_wakeup_source "fn_ptr option" ctx_ptr
  | Set_discharge_mos bool "fn_ptr option" ctx_ptr
  | Set_charge_mos bool "fn_ptr option" ctx_ptr

primrec do_call :: "call \<Rightarrow> session \<Rightarrow> (queue_status \<times> session) option" where
  "do_call (Poll_capacity_voltage fn c) = poll_capacity_voltage fn c"
| "do_call (Poll_bmu_cell_temp_count fn c) = poll_bmu_cell_temp_count fn c"
| "do_call (Poll_total_charge_discharge_ah fn c) = poll_total_charge_discharge_ah fn c"
| "do_call (Poll_battery_operation_mode fn c) = poll_battery_operation_mode fn c"
| "do_call (Poll_firmware_index fn c) = poll_firmware_index fn c"
| "do_call (Poll_manufacturer_name fn c) = poll_manufacturer_name fn c"
| "do_call (Poll_battery_name fn c) = poll_battery_name fn c"
| "do_call (Poll_battery_serial_number fn c) = poll_battery_serial_number fn c"
| "do_call (Poll_battery_production_date fn c) = poll_battery_production_date fn c"
| "do_call (Poll_cell_voltage_alarm fn c) = poll_cell_voltage_alarm fn c"
| "do_call (Poll_total_voltage_alarm fn c) = poll_total_voltage_alarm fn c"
| "do_call (Poll_current_alarm fn c) = poll_current_alarm fn c"
| "do_call (Poll_temperature_alarm fn c) = poll_temperature_alarm fn c"
| "do_call (Poll_soc_alarm fn c) = poll_soc_alarm fn c"
| "do_call (Poll_difference_alarm fn c) = poll_difference_alarm fn c"
| "do_call (Poll_balancing_params fn c) = poll_balancing_params fn c"
| "do_call (Poll_current_params fn c) = poll_current_params fn c"
| "do_call (Poll_rtc fn c) = poll_rtc fn c"
| "do_call (Poll_software_version fn c) = poll_software_version fn c"
| "do_call (Poll_hardware_version fn c) = poll_hardware_version fn c"
| "do_call (Poll_board_number fn c) = poll_board_number fn c"
| "do_call (Poll_heating_temperature fn c) = poll_heating_temperature fn c"
| "do_call (Poll_active_balancing_switch fn c) = poll_active_balancing_switch fn c"
| "do_call (Poll_active_balancing_params fn c) = poll_active_balancing_params fn c"
| "do_call (Poll_inverter_params fn c) = poll_inverter_params fn c"
| "do_call (Poll_sn_serial_number fn c) = poll_sn_serial_number fn c"
| "do_call (Poll_fault_records fn c) = poll_fault_records fn c"
| "do_call (Poll_alarm_threshold cls level fn c) = poll_alarm_threshold cls level fn c"
| "do_call (Poll_total_voltage_current_soc fn c) = poll_total_voltage_current_soc fn c"
| "do_call (Poll_cell_voltage_extremes fn c) = poll_cell_voltage_extremes fn c"
| "do_call (Poll_cell_temperature_extremes fn c) = poll_cell_temperature_extremes fn c"
| "do_call (Poll_charge_discharge_mos_status fn c) = poll_charge_discharge_mos_status fn c"
| "do_call (Poll_status_info fn c) = poll_status_info fn c"
| "do_call (Poll_cell_balancing_bits fn c) = poll_cell_balancing_bits fn c"
| "do_call (Poll_fault_status fn c) = poll_fault_status fn c"
| "do_call (Poll_balancing_state fn c) = poll_balancing_state fn c"
| "do_call (Poll_battery_status fn c) = poll_battery_status fn c"
| "do_call (Poll_cell_voltages n fn c) = poll_cell_voltages n fn c"
| "do_call (Poll_cell_temperatures n fn c) = poll_cell_temperatures n fn c"
| "do_call (Poll_wakeup_source fn c) = poll_wakeup_source fn c"
| "do_call (Set_discharge_mos on fn c) = set_discharge_mos on fn c"
| "do_call (Set_charge_mos on fn c) = set_charge_mos on fn c"

text \<open>The request a call puts in the queue.\<close>

definition no_data :: data_bytes where
  "no_data = replicate 8 0"

primrec call_request :: "call \<Rightarrow> request" where
  "call_request (Poll_capacity_voltage fn c) = request.make CAPACITY_VOLTAGE no_data 0 fn c"
| "call_request (Poll_bmu_cell_temp_count fn c) = request.make BMU_CELL_TEMP_COUNT no_data 0 fn c"
| "call_request (Poll_total_charge_discharge_ah fn c) = request.make TOTAL_CHARGE_DISCHARGE_AH no_data 0 fn c"
| "call_request (Poll_battery_operation_mode fn c) = request.make BATTERY_OPERATION_MODE no_data 0 fn c"
| "call_request (Poll_firmware_index fn c) = request.make FIRMWARE_INDEX no_data 0 fn c"
| "call_request (Poll_manufacturer_name fn c) = request.make MANUFACTURER_NAME no_data 0 fn c"
| "call_request (Poll_battery_name fn c) = request.make BATTERY_NAME no_data 0 fn c"
| "call_request (Poll_battery_serial_number fn c) = request.make BATTERY_SERIAL_NUMBER no_data 0 fn c"
| "call_request (Poll_battery_production_date fn c) = request.make BATTERY_PRODUCTION_DATE no_data 0 fn c"
| "call_request (Poll_cell_voltage_alarm fn c) = request.make CELL_VOLTAGE_ALARM no_data 0 fn c"
| "call_request (Poll_total_voltage_alarm fn c) = request.make TOTAL_VOLTAGE_ALARM no_data 0 fn c"
| "call_request (Poll_current_alarm fn c) = request.make CURRENT_ALARM no_data 0 fn c"
| "call_request (Poll_temperature_alarm fn c) = request.make TEMPERATURE_ALARM no_data 0 fn c"
| "call_request (Poll_soc_alarm fn c) = request.make SOC_ALARM no_data 0 fn c"
| "call_request (Poll_difference_alarm fn c) = request.make DIFFERENCE_ALARM no_data 0 fn c"
| "call_request (Poll_balancing_params fn c) = request.make BALANCING_PARAMS no_data 0 fn c"
| "call_request (Poll_current_params fn c) = request.make CURRENT_PARAMS no_data 0 fn c"
| "call_request (Poll_rtc fn c) = request.make RTC no_data 0 fn c"
| "call_request (Poll_software_version fn c) = request.make SOFTWARE_VERSION no_data 0 fn c"
| "call_request (Poll_hardware_version fn c) = request.make HARDWARE_VERSION no_data 0 fn c"
| "call_request (Poll_board_number fn c) = request.make BOARD_NUMBER no_data 0 fn c"
| "call_request (Poll_heating_temperature fn c) = request.make HEATING_TEMPERATURE no_data 0 fn c"
| "call_request (Poll_active_balancing_switch fn c) = request.make ACTIVE_BALANCING_SWITCH no_data 0 fn c"
| "call_request (Poll_active_balancing_params fn c) = request.make ACTIVE_BALANCING_PARAMS no_data 0 fn c"
| "call_request (Poll_inverter_params fn c) = request.make INVERTER_PARAMS no_data 0 fn c"
| "call_request (Poll_sn_serial_number fn c) = request.make SN_SERIAL_NUMBER no_data 0 fn c"
| "call_request (Poll_fault_records fn c) = request.make FAULT_RECORDS no_data 0 fn c"
| "call_request (Poll_alarm_threshold cls level fn c) = request.make (if cls < 9 \<and> level < 3 then alarm_threshold_id cls level else DATA_ID_NONE) no_data 0 fn c"
| "call_request (Poll_total_voltage_current_soc fn c) = request.make TOTAL_VOLTAGE_CURRENT_SOC no_data 0 fn c"
| "call_request (Poll_cell_voltage_extremes fn c) = request.make CELL_VOLTAGE_EXTREMES no_data 0 fn c"
| "call_request (Poll_cell_temperature_extremes fn c) = request.make CELL_TEMPERATURE_EXTREMES no_data 0 fn c"
| "call_request (Poll_charge_discharge_mos_status fn c) = request.make CHARGE_DISCHARGE_MOS_STATUS no_data 0 fn c"
| "call_request (Poll_status_info fn c) = request.make STATUS_INFO no_data 0 fn c"
| "call_request (Poll_cell_balancing_bits fn c) = request.make CELL_BALANCING_BITS no_data 0 fn c"
| "call_request (Poll_fault_status fn c) = request.make FAULT_STATUS no_data 0 fn c"
| "call_request (Poll_balancing_state fn c) = request.make BALANCING_STATE no_data 0 fn c"
| "call_request (Poll_battery_status fn c) = request.make BATTERY_STATUS no_data 0 fn c"
| "call_request (Poll_cell_voltages n fn c) = request.make CELL_VOLTAGES no_data n fn c"
| "call_request (Poll_cell_temperatures n fn c) = request.make CELL_TEMPERATURES no_data n fn c"
| "call_request (Poll_wakeup_source fn c) = request.make WAKEUP_SOURCE no_data 0 fn c"
| "call_request (Set_discharge_mos on fn c) = request.make DISCHARGE_MOS_CONTROL (no_data[0 := (if on then 1 else 0)]) 0 fn c"
| "call_request (Set_charge_mos on fn c) = request.make CHARGE_MOS_CONTROL (no_data[0 := (if on then 1 else 0)]) 0 fn c"

lemma do_call_enqueue: "do_call c = enqueue (call_request c)"
  by (cases c) (simp_all add: request_op_def request_paginated_def request_mos_def no_data_def
      poll_capacity_voltage_def poll_bmu_cell_temp_count_def poll_total_charge_discharge_ah_def
      poll_battery_operation_mode_def poll_firmware_index_def poll_manufacturer_name_def
      poll_battery_name_def poll_battery_serial_number_def poll_battery_production_date_def
      poll_cell_voltage_alarm_def poll_total_voltage_alarm_def poll_current_alarm_def
      poll_temperature_alarm_def poll_soc_alarm_def poll_difference_alarm_def
      poll_balancing_params_def poll_current_params_def poll_rtc_def
      poll_software_version_def poll_hardware_version_def poll_board_number_def
      poll_heating_temperature_def poll_active_balancing_switch_def poll_active_balancing_params_def
      poll_inverter_params_def poll_sn_serial_number_def poll_fault_records_def
      poll_alarm_threshold_def poll_total_voltage_current_soc_def poll_cell_voltage_extremes_def
      poll_cell_temperature_extremes_def poll_charge_discharge_mos_status_def poll_status_info_def
      poll_cell_balancing_bits_def poll_fault_status_def poll_balancing_state_def
      poll_battery_status_def poll_cell_voltages_def poll_cell_temperatures_def
      poll_wakeup_source_def set_discharge_mos_def set_charge_mos_def)

end
