(* ===== verification/Client.thy ===== *)
theory Client
  imports Commands
begin

text \<open>
  What runs inside an event handler, and \<open>HaidiBMS::emit\<close> (\<open>src/haidi_bms.cpp\<close>).

  The handlers are the caller's code, a parameter of the model: \<open>client\<close> is the type of the
  programs a handler may run on the session, any finite interleaving of request calls whose
  status it may branch on, of setters and \<open>reset()\<close>, and of reads of the introspection methods.
  An \<open>environment\<close> gives for a function pointer, a context, an event and everything that
  happened so far (so that a handler may have a memory of its own) the program that runs.
  Handlers that call \<open>feed()\<close> or \<open>tick()\<close> from inside a callback and TX handlers that call back
  into the session are not modelled.
\<close>

section \<open>Handlers\<close>

record observation =
  obs_busy :: bool
  obs_pending :: nat
  obs_in_flight :: "data_id option"
  obs_cells :: u8
  obs_temps :: u8
  obs_discarded :: u32

definition observe :: "session \<Rightarrow> observation" where
  "observe s = observation.make (busy s) (pending s) (in_flight s) (cached_cell_count s)
     (cached_temp_count s) (discarded_bytes s)"

datatype action =
    Reset
  | Set_tx_handler "fn_ptr option" ctx_ptr
  | Set_event_handler "fn_ptr option" ctx_ptr
  | Set_response_timeout_ms u32
  | Set_interframe_timeout_ms u32
  | Set_max_retries u8

primrec do_action :: "action \<Rightarrow> session \<Rightarrow> session" where
  "do_action Reset s = reset s"
| "do_action (Set_tx_handler fn c) s = set_tx_handler fn c s"
| "do_action (Set_event_handler fn c) s = set_event_handler fn c s"
| "do_action (Set_response_timeout_ms ms) s = set_response_timeout_ms ms s"
| "do_action (Set_interframe_timeout_ms ms) s = set_interframe_timeout_ms ms s"
| "do_action (Set_max_retries n) s = set_max_retries n s"

datatype client =
    Done
  | Call call "queue_status \<Rightarrow> client"
  | Act action client
  | Observe "observation \<Rightarrow> client"

primrec run_client :: "client \<Rightarrow> session \<Rightarrow> session option" where
  "run_client Done s = Some s"
| "run_client (Call c k) s = do_call c s \<bind> (\<lambda>r. run_client (k (fst r)) (snd r))"
| "run_client (Act a k) s = run_client k (do_action a s)"
| "run_client (Observe k) s = run_client (k (observe s)) s"

type_synonym environment = "fn_ptr \<Rightarrow> ctx_ptr \<Rightarrow> event \<Rightarrow> observable list \<Rightarrow> client"

definition call_handler ::
  "environment \<Rightarrow> fn_ptr option \<Rightarrow> ctx_ptr \<Rightarrow> event \<Rightarrow> session \<Rightarrow> session option" where
  "call_handler env fn c e s =
    (case fn of
       None \<Rightarrow> Some s
     | Some f \<Rightarrow> run_client (env f c e (trace s)) (s\<lparr>trace := trace s @ [HANDLER f c e]\<rparr>))"

section \<open>Dispatching an event\<close>

definition emit :: "environment \<Rightarrow> event \<Rightarrow> session \<Rightarrow> session option" where
  "emit env e s = do {
     (per_request, per_request_ctx) \<leftarrow>
       (if state s = AWAITING \<and> queue_count s > 0
        then map_option (\<lambda>h. (on_event h, on_event_ctx h)) (head s)
        else Some (None, 0));
     let nested = dispatching s;
     let s = s\<lparr>dispatching := True, trace := trace s @ [EMIT e]\<rparr>;
     s \<leftarrow> call_handler env per_request per_request_ctx e s;
     s \<leftarrow> call_handler env (event_fn s) (event_ctx s) e s;
     Some (if nested then s else s\<lparr>dispatching := False\<rparr>)
   }"

end
