(* ===== verification/Queueing.thy ===== *)
theory Queueing
  imports Ring Client
begin

text \<open>
  The request queue of the session as a first-in first-out queue (an interpretation of
  \<open>bounded_fifo\<close> on the session's array, head index and count), closed forms of the life cycle of
  a transaction, and the contract of \<open>enqueue\<close>.
\<close>

section \<open>The queue of the session\<close>

definition pending_requests :: "session \<Rightarrow> request list" where
  "pending_requests s = ring_items (queue s) (queue_head s) (queue_count s)"

definition admissible_request :: "request \<Rightarrow> bool" where
  "admissible_request r \<longleftrightarrow> length (req_data r) = DATA_LEN \<and> is_known_data_id (req_id r)"

definition queue_ok :: "session \<Rightarrow> bool" where
  "queue_ok s \<longleftrightarrow>
    queue_head s < QUEUE_CAPACITY s \<and> queue_count s \<le> QUEUE_CAPACITY s \<and>
    (\<forall>r \<in> set (pending_requests s). admissible_request r)"

lemma length_pending [simp]: "length (pending_requests s) = queue_count s"
  by (simp add: pending_requests_def)

lemma pending_Nil_iff [simp]: "pending_requests s = [] \<longleftrightarrow> queue_count s = 0"
  by (simp add: pending_requests_def)

lemma pending_empty [simp]: "queue_count s = 0 \<Longrightarrow> pending_requests s = []"
  by (simp add: pending_requests_def)

lemma head_pending: "queue_ok s \<Longrightarrow> queue_count s \<noteq> 0 \<Longrightarrow> head s = Some (hd (pending_requests s))"
  by (simp add: queue_ok_def QUEUE_CAPACITY_def head_def pending_requests_def ring_hd)

lemma push_request_ok:
  assumes "queue_ok s" and "admissible_request r" and "queue_count s < QUEUE_CAPACITY s"
  shows "\<exists>q. push_request r s = Some (s\<lparr>queue := q, queue_count := queue_count s + 1\<rparr>) \<and>
    queue_ok (s\<lparr>queue := q, queue_count := queue_count s + 1\<rparr>) \<and>
    pending_requests (s\<lparr>queue := q, queue_count := queue_count s + 1\<rparr>) = pending_requests s @ [r] \<and>
    length q = length (queue s)"
proof -
  let ?i = "(queue_head s + queue_count s) mod length (queue s)"
  let ?q = "(queue s)[?i := r]"
  let ?s = "s\<lparr>queue := ?q, queue_count := queue_count s + 1\<rparr>"
  from assms have cap: "queue_head s < length (queue s)" "queue_count s < length (queue s)"
    by (simp_all add: queue_ok_def QUEUE_CAPACITY_def)
  then have "?i < length (queue s)" by (intro mod_less_divisor) auto
  then have "push_request r s = Some ?s" by (simp add: push_request_def QUEUE_CAPACITY_def)
  moreover have items: "pending_requests ?s = pending_requests s @ [r]"
    using ring_push [OF cap] by (simp add: pending_requests_def)
  moreover have "queue_ok ?s"
    using assms cap items by (auto simp: queue_ok_def QUEUE_CAPACITY_def)
  ultimately show ?thesis by (intro exI [of _ ?q]) simp
qed

lemma pop_request_ok:
  assumes "queue_ok s" and "queue_count s \<noteq> 0"
  shows "queue_ok (pop_request s)" and "pending_requests (pop_request s) = tl (pending_requests s)"
proof -
  from assms have cap: "queue_head s < length (queue s)" "0 < queue_count s"
    by (simp_all add: queue_ok_def QUEUE_CAPACITY_def)
  then show items: "pending_requests (pop_request s) = tl (pending_requests s)"
    using ring_pop [OF cap] by (simp add: pending_requests_def pop_request_def QUEUE_CAPACITY_def)
  have "(queue_head s + 1) mod length (queue s) < length (queue s)"
    using cap by (intro mod_less_divisor) auto
  moreover have "set (tl (pending_requests s)) \<subseteq> set (pending_requests s)"
    by (cases "pending_requests s") auto
  moreover have "queue_head (pop_request s) = (queue_head s + 1) mod length (queue s)"
    and "queue_count (pop_request s) = queue_count s - 1" and "queue (pop_request s) = queue s"
    using cap by (simp_all add: pop_request_def QUEUE_CAPACITY_def)
  ultimately show "queue_ok (pop_request s)"
    using assms items unfolding queue_ok_def QUEUE_CAPACITY_def by auto
qed

interpretation requests: bounded_fifo pending_requests QUEUE_CAPACITY head push_request pop_request
  queue_ok admissible_request
proof unfold_locales
  fix s x
  assume "queue_ok s" "admissible_request x" "length (pending_requests s) < QUEUE_CAPACITY s"
  with push_request_ok [of s x] obtain q where
    "push_request x s = Some (s\<lparr>queue := q, queue_count := queue_count s + 1\<rparr>)"
    "queue_ok (s\<lparr>queue := q, queue_count := queue_count s + 1\<rparr>)"
    "pending_requests (s\<lparr>queue := q, queue_count := queue_count s + 1\<rparr>) = pending_requests s @ [x]"
    "length q = length (queue s)" by auto
  then show "\<exists>s'. push_request x s = Some s' \<and> queue_ok s' \<and>
      pending_requests s' = pending_requests s @ [x] \<and> QUEUE_CAPACITY s' = QUEUE_CAPACITY s"
    by (auto simp: QUEUE_CAPACITY_def)
qed (auto simp: head_pending pop_request_ok, simp add: pop_request_def QUEUE_CAPACITY_def)

text \<open>
  C12: the ring buffer of requests is a first-in first-out queue.  Requests put in the free slots
  come out after those already waiting, in the order they went in, each exactly once.
\<close>

theorem requests_first_in_first_out:
  assumes "queue_ok s" and "pending s + length rs \<le> QUEUE_CAPACITY s"
    and "\<forall>r \<in> set rs. admissible_request r"
  shows "\<exists>s'. push_all push_request rs s = Some s' \<and>
    drain head pop_request (pending s + length rs) s' = map Some (pending_requests s @ rs)"
  using requests.first_in_first_out [of s rs] assms by (simp add: pending_def)

definition sample_requests :: "request list" where
  "sample_requests = map (\<lambda>i. request.make i (replicate 8 0) 0 None 0) [STATUS_INFO, RTC, CELL_VOLTAGES]"

lemma init_queue_ok: "0 < n \<Longrightarrow> queue_ok (init_session n h b)"
  by (simp add: queue_ok_def init_session_def QUEUE_CAPACITY_def pending_requests_def)

theorem requests_first_in_first_out_witness:
  "\<exists>s'. push_all push_request sample_requests (init_session 3 0x40 1) = Some s' \<and>
    drain head pop_request 3 s' = map Some sample_requests"
proof -
  have "\<forall>r \<in> set sample_requests. admissible_request r"
    by (simp add: sample_requests_def admissible_request_def request.make_def is_known_data_id_def)
  moreover have "pending_requests (init_session 3 0x40 1) = []" "pending (init_session 3 0x40 1) = 0"
    "QUEUE_CAPACITY (init_session 3 0x40 1) = 3" "length sample_requests = 3"
    by (simp_all add: init_session_def pending_def QUEUE_CAPACITY_def sample_requests_def)
  ultimately show ?thesis
    using requests_first_in_first_out [of "init_session 3 0x40 1" sample_requests]
      init_queue_ok [of 3 "0x40" 1] by simp
qed

section \<open>Starting and retiring a transaction\<close>

text \<open>What the counts of a request resolve to when its transaction starts.\<close>

definition request_items :: "session \<Rightarrow> request \<Rightarrow> u8" where
  "request_items s h =
    (if req_id h = CELL_VOLTAGES then (if hint h \<noteq> 0 then hint h else cached_cell_count s)
     else if req_id h = CELL_TEMPERATURES then (if hint h \<noteq> 0 then hint h else cached_temp_count s)
     else 0)"

definition request_frames :: "session \<Rightarrow> request \<Rightarrow> u8" where
  "request_frames s h =
    (if req_id h = CELL_VOLTAGES then cell_voltage_frames (request_items s h)
     else if req_id h = CELL_TEMPERATURES then cell_temperature_frames (request_items s h)
     else frame_count (multiframe_info (req_id h)))"

definition request_frame :: "session \<Rightarrow> request \<Rightarrow> message_bytes" where
  "request_frame s h = encode (host_address s) (req_id h) (req_data h)"

definition tx_outputs :: "session \<Rightarrow> request \<Rightarrow> observable list" where
  "tx_outputs s h = (case tx_fn s of None \<Rightarrow> [] | Some f \<Rightarrow> [TX f (tx_ctx s) (request_frame s h)])"

definition started :: "request \<Rightarrow> session \<Rightarrow> session" where
  "started h s = s\<lparr>state := AWAITING, assembly := replicate (length (assembly s)) 0,
     seen_mask := 0, frames_seen := 0, record_len := 0, retries := 0,
     expected_frames := request_frames s h, expected_items := request_items s h,
     trace := trace s @ tx_outputs s h, deadline_ms := now_ms s + response_timeout_ms s\<rparr>"

lemma transmit_eq:
  "head s = Some h \<Longrightarrow> transmit s =
    Some (s\<lparr>trace := trace s @ tx_outputs s h, deadline_ms := now_ms s + response_timeout_ms s\<rparr>)"
  by (simp add: transmit_def tx_outputs_def request_frame_def Let_def split: option.splits)

lemma pump_starts:
  assumes "queue_ok s" and "state s = IDLE" and "pending_requests s = h # rest"
  shows "pump s = Some (started h s)"
proof -
  have "queue_count s \<noteq> 0" using assms(3) by (metis list.discI pending_Nil_iff)
  with head_pending [OF assms(1)] assms(3) have "rd (queue s) (queue_head s) = Some h"
    by (simp add: head_def)
  with assms \<open>queue_count s \<noteq> 0\<close> show ?thesis
    by (simp add: pump_def begin_awaiting_def transmit_def head_def started_def request_frames_def
        request_items_def tx_outputs_def request_frame_def Let_def split: option.splits)
qed

lemma pump_busy: "state s = AWAITING \<Longrightarrow> pump s = Some s"
  by (simp add: pump_def)

lemma pump_empty: "queue_count s = 0 \<Longrightarrow> pump s = Some s"
  by (simp add: pump_def)

section \<open>The contract of enqueue\<close>

lemma pump_total:
  assumes "queue_ok s"
  shows "\<exists>s'. pump s = Some s' \<and> queue_ok s' \<and> pending_requests s' = pending_requests s \<and>
    (state s = IDLE \<and> queue_count s \<noteq> 0 \<longrightarrow> s' = started (hd (pending_requests s)) s) \<and>
    (state s = AWAITING \<or> queue_count s = 0 \<longrightarrow> s' = s)"
proof (cases "state s = IDLE \<and> queue_count s \<noteq> 0")
  case True
  then obtain h rest where p: "pending_requests s = h # rest"
    by (metis pending_Nil_iff list.exhaust)
  with True assms have "pump s = Some (started h s)" by (simp add: pump_starts)
  with assms True p show ?thesis
    by (auto simp: started_def queue_ok_def QUEUE_CAPACITY_def pending_requests_def)
next
  case False
  then show ?thesis using assms
    by (cases "state s") (auto simp: pump_def)
qed

lemma enqueue_refused:
  "tx_fn s = None \<Longrightarrow> enqueue r s = Some (NO_TX_HANDLER, s)"
  "tx_fn s \<noteq> None \<Longrightarrow> \<not> is_known_data_id (req_id r) \<Longrightarrow> enqueue r s = Some (BAD_REQUEST, s)"
  "tx_fn s \<noteq> None \<Longrightarrow> is_known_data_id (req_id r) \<Longrightarrow> QUEUE_CAPACITY s \<le> queue_count s \<Longrightarrow>
    enqueue r s = Some (QUEUE_FULL, s)"
  by (simp_all add: enqueue_def)

lemma enqueue_accepted:
  assumes "queue_ok s" and "admissible_request r" and "tx_fn s \<noteq> None"
    and "queue_count s < QUEUE_CAPACITY s"
  shows "\<exists>q s1. s1 = s\<lparr>queue := q, queue_count := queue_count s + 1\<rparr> \<and>
    length q = length (queue s) \<and> queue_ok s1 \<and> pending_requests s1 = pending_requests s @ [r] \<and>
    enqueue r s = Some (QUEUED, if state s = IDLE \<and> \<not> dispatching s
      then started (hd (pending_requests s @ [r])) s1 else s1)"
proof -
  from push_request_ok [OF assms(1, 2, 4)] obtain q where
    q: "push_request r s = Some (s\<lparr>queue := q, queue_count := queue_count s + 1\<rparr>)"
      "queue_ok (s\<lparr>queue := q, queue_count := queue_count s + 1\<rparr>)"
      "pending_requests (s\<lparr>queue := q, queue_count := queue_count s + 1\<rparr>) = pending_requests s @ [r]"
      "length q = length (queue s)" by blast
  let ?s1 = "s\<lparr>queue := q, queue_count := queue_count s + 1\<rparr>"
  have pump: "pump ?s1 = Some (if state s = IDLE then started (hd (pending_requests s @ [r])) ?s1 else ?s1)"
    using pump_total [OF q(2)] q(3) by (cases "state s") auto
  have "enqueue r s = Some (QUEUED, if state s = IDLE \<and> \<not> dispatching s
      then started (hd (pending_requests s @ [r])) ?s1 else ?s1)"
    using assms q(1) pump by (simp add: enqueue_def admissible_request_def)
  with q show ?thesis by blast
qed

text \<open>
  C11: what a request method answers and does.  The refusals are tested in the documented order
  (no TX handler, unknown command, full queue) and change nothing; otherwise the request is
  appended to the pending ones and, if no transaction is in flight and no event is being
  dispatched, the oldest pending request is handed to the TX handler at once.
\<close>

theorem enqueue_contract:
  assumes "queue_ok s" and "length (req_data r) = DATA_LEN"
  shows "\<exists>st s'. enqueue r s = Some (st, s') \<and> queue_ok s' \<and>
    st = (if tx_fn s = None then NO_TX_HANDLER
          else if \<not> is_known_data_id (req_id r) then BAD_REQUEST
          else if pending s = QUEUE_CAPACITY s then QUEUE_FULL else QUEUED) \<and>
    (st \<noteq> QUEUED \<longrightarrow> s' = s) \<and>
    (st = QUEUED \<longrightarrow> pending_requests s' = pending_requests s @ [r] \<and>
       (if busy s \<or> dispatching s then trace s' = trace s \<and> busy s' = busy s
        else busy s' \<and> trace s' = trace s @ tx_outputs s (hd (pending_requests s @ [r]))))"
proof (cases "tx_fn s \<noteq> None \<and> is_known_data_id (req_id r) \<and> queue_count s < QUEUE_CAPACITY s")
  case True
  with assms have "admissible_request r" by (simp add: admissible_request_def)
  with True enqueue_accepted [OF assms(1)] obtain q s1 where
    s1: "s1 = s\<lparr>queue := q, queue_count := queue_count s + 1\<rparr>"
      "length q = length (queue s)" "queue_ok s1" "pending_requests s1 = pending_requests s @ [r]"
      "enqueue r s = Some (QUEUED, if state s = IDLE \<and> \<not> dispatching s
        then started (hd (pending_requests s @ [r])) s1 else s1)" by blast
  from s1(3, 4) have st: "queue_ok (started h s1)"
    "pending_requests (started h s1) = pending_requests s @ [r]" for h
    by (simp_all add: started_def queue_ok_def QUEUE_CAPACITY_def pending_requests_def)
  have tx: "tx_outputs s1 h = tx_outputs s h" for h
    by (simp add: s1(1) tx_outputs_def request_frame_def split: option.splits)
  show ?thesis
  proof (intro exI conjI)
    show "enqueue r s = Some (QUEUED, if state s = IDLE \<and> \<not> dispatching s
      then started (hd (pending_requests s @ [r])) s1 else s1)" by (rule s1(5))
    from st s1 show "queue_ok (if state s = IDLE \<and> \<not> dispatching s
      then started (hd (pending_requests s @ [r])) s1 else s1)" by simp
    from True show "QUEUED = (if tx_fn s = None then NO_TX_HANDLER
      else if \<not> is_known_data_id (req_id r) then BAD_REQUEST
      else if pending s = QUEUE_CAPACITY s then QUEUE_FULL else QUEUED)" by (simp add: pending_def)
    show "QUEUED = QUEUED \<longrightarrow> pending_requests (if state s = IDLE \<and> \<not> dispatching s
        then started (hd (pending_requests s @ [r])) s1 else s1) = pending_requests s @ [r] \<and>
      (if busy s \<or> dispatching s
       then trace (if state s = IDLE \<and> \<not> dispatching s
          then started (hd (pending_requests s @ [r])) s1 else s1) = trace s \<and>
         busy (if state s = IDLE \<and> \<not> dispatching s
          then started (hd (pending_requests s @ [r])) s1 else s1) = busy s
       else busy (if state s = IDLE \<and> \<not> dispatching s
          then started (hd (pending_requests s @ [r])) s1 else s1) \<and>
         trace (if state s = IDLE \<and> \<not> dispatching s
          then started (hd (pending_requests s @ [r])) s1 else s1) =
           trace s @ tx_outputs s (hd (pending_requests s @ [r])))"
      using st s1(4) tx by (auto simp: busy_def started_def s1(1))
  qed simp
next
  case False
  with assms(1) enqueue_refused [of s r] show ?thesis
    by (auto simp: pending_def queue_ok_def)
qed

theorem enqueue_contract_witness:
  "\<exists>s'. enqueue (request.make STATUS_INFO (replicate 8 0) 0 None 0)
      (set_tx_handler (Some 7) 9 (init_session 24 0x40 1)) = Some (QUEUED, s') \<and>
    busy s' \<and> trace s' = [TX 7 9 (encode 0x40 STATUS_INFO (replicate 8 0))]"
proof -
  let ?s = "set_tx_handler (Some 7) 9 (init_session 24 0x40 1)"
  have ok: "queue_ok ?s"
    using init_queue_ok [of 24 "0x40" 1]
    by (simp add: set_tx_handler_def queue_ok_def QUEUE_CAPACITY_def pending_requests_def)
  have p: "pending_requests ?s = []" "pending ?s = 0" "QUEUE_CAPACITY ?s = 24" "\<not> busy ?s"
    "\<not> dispatching ?s" "trace ?s = []"
    by (simp_all add: set_tx_handler_def init_session_def pending_def QUEUE_CAPACITY_def busy_def
        pending_requests_def)
  from enqueue_contract [OF ok, of "request.make STATUS_INFO (replicate 8 0) 0 None 0"] p
  show ?thesis
    by (auto simp: request.make_def is_known_data_id_def set_tx_handler_def tx_outputs_def
        request_frame_def init_session_def)
qed

section \<open>The requests of the interface\<close>

lemma call_request_data: "length (req_data (call_request c)) = 8"
  by (cases c) (simp_all add: request.make_def no_data_def)

definition out_of_range_threshold :: "call \<Rightarrow> bool" where
  "out_of_range_threshold c \<longleftrightarrow>
    (\<exists>cls level fn x. c = Poll_alarm_threshold cls level fn x \<and>
      \<not> (cls < ALARM_CLASS_COUNT \<and> level < ALARM_LEVEL_COUNT))"

lemma call_request_known:
  "is_known_data_id (req_id (call_request c)) \<longleftrightarrow> \<not> out_of_range_threshold c"
proof (cases c)
  case (Poll_alarm_threshold cls level fn x)
  have none: "\<not> is_known_data_id DATA_ID_NONE"
    by (simp add: is_known_data_id_def)
  have "is_known_data_id (alarm_threshold_id cls level)" if "cls < 9" "level < 3"
    using alarm_id_roundtrip [OF that] by (auto simp: known_ids_iff)
  with none Poll_alarm_threshold show ?thesis
    by (auto simp: out_of_range_threshold_def request.make_def)
qed (simp_all add: out_of_range_threshold_def request.make_def is_known_data_id_def)

text \<open>
  Every request method of the interface asks for a command of the protocol, with the eight
  data bytes the command wants, so the only call that can be answered \<open>BAD_REQUEST\<close> is
  \<open>poll_alarm_threshold\<close> with an argument out of range; and it always is.
\<close>

lemma only_thresholds_are_bad_requests:
  assumes "tx_fn s \<noteq> None"
  shows "\<forall>st s'. do_call c s = Some (st, s') \<longrightarrow>
    (st = BAD_REQUEST \<longleftrightarrow> out_of_range_threshold c)"
proof (intro allI impI)
  fix st s' assume r: "do_call c s = Some (st, s')"
  have "st \<noteq> BAD_REQUEST" if "is_known_data_id (req_id (call_request c))"
    using r that unfolding do_call_enqueue
    by (auto simp: enqueue_def split: if_splits Option.bind_splits)
  moreover have "st = BAD_REQUEST" if "\<not> is_known_data_id (req_id (call_request c))"
    using r that enqueue_refused(2) [OF assms] by (simp add: do_call_enqueue)
  ultimately show "st = BAD_REQUEST \<longleftrightarrow> out_of_range_threshold c"
    using call_request_known [of c] by blast
qed

lemma only_thresholds_are_bad_requests_witness:
  "\<exists>s'. do_call (Poll_alarm_threshold 9 1 None 0)
      (set_tx_handler (Some 1) 0 (init_session 2 0x40 1)) = Some (BAD_REQUEST, s')"
proof -
  let ?s = "set_tx_handler (Some 1) 0 (init_session 2 0x40 1)"
  let ?c = "Poll_alarm_threshold 9 1 None 0"
  have tx: "tx_fn ?s \<noteq> None" by (simp add: set_tx_handler_def)
  have "\<not> is_known_data_id (req_id (call_request ?c))"
    unfolding call_request_known by (simp add: out_of_range_threshold_def)
  from enqueue_refused(2) [OF tx this] obtain st s' where r: "do_call ?c ?s = Some (st, s')"
    by (simp add: do_call_enqueue)
  have "out_of_range_threshold ?c" by (simp add: out_of_range_threshold_def)
  with r only_thresholds_are_bad_requests [OF tx, of ?c] have "st = BAD_REQUEST" by blast
  with r show ?thesis by blast
qed

end
