(* ===== verification/Dispatch.thy ===== *)
theory Dispatch
  imports Queueing
begin

text \<open>
  What event handlers can and cannot do to the session.  While an event is dispatched a handler
  may queue requests, change settings and reset the session, but it never transmits; the
  transaction it was called for is afterwards either untouched or abandoned altogether.
\<close>

section \<open>The effect of a handler\<close>

text \<open>The part of the session no handler changes.\<close>

definition untouched :: "session \<Rightarrow> session \<Rightarrow> bool" where
  "untouched s s' \<longleftrightarrow>
    host_address s' = host_address s \<and> bms_address s' = bms_address s \<and> now_ms s' = now_ms s \<and>
    deadline_ms s' = deadline_ms s \<and> assembly s' = assembly s \<and> record_buf s' = record_buf s \<and>
    cached_cell_count s' = cached_cell_count s \<and> cached_temp_count s' = cached_temp_count s \<and>
    dispatching s' = dispatching s \<and> trace s' = trace s \<and>
    QUEUE_CAPACITY s' = QUEUE_CAPACITY s"

text \<open>The transaction goes on, with more requests behind it; or the session was reset.\<close>

definition continued :: "session \<Rightarrow> session \<Rightarrow> bool" where
  "continued s s' \<longleftrightarrow> untouched s s' \<and>
    state s' = state s \<and> parser s' = parser s \<and> retries s' = retries s \<and>
    seen_mask s' = seen_mask s \<and> frames_seen s' = frames_seen s \<and>
    expected_frames s' = expected_frames s \<and> expected_items s' = expected_items s \<and>
    record_len s' = record_len s \<and> (\<exists>new. pending_requests s' = pending_requests s @ new)"

definition abandoned :: "session \<Rightarrow> session \<Rightarrow> bool" where
  "abandoned s s' \<longleftrightarrow> untouched s s' \<and>
    state s' = IDLE \<and> parser s' = parser_reset (parser s) \<and> retries s' = 0 \<and>
    seen_mask s' = 0 \<and> frames_seen s' = 0 \<and> expected_frames s' = 0 \<and> expected_items s' = 0 \<and>
    record_len s' = 0"

definition handled :: "session \<Rightarrow> session \<Rightarrow> bool" where
  "handled s s' \<longleftrightarrow> continued s s' \<or> abandoned s s'"

lemma handled_refl [simp]: "handled s s"
  by (simp add: handled_def continued_def untouched_def)

lemma parser_reset_twice [simp]: "parser_reset (parser_reset p) = parser_reset p"
  by (simp add: parser_reset_def)

lemma untouched_trans: "untouched s t \<Longrightarrow> untouched t u \<Longrightarrow> untouched s u"
  by (simp add: untouched_def)

lemma handled_trans:
  assumes "handled s t" and "handled t u"
  shows "handled s u"
proof -
  have "untouched s u" using assms untouched_trans by (auto simp: handled_def continued_def abandoned_def)
  with assms show ?thesis by (auto simp: handled_def continued_def abandoned_def)
qed

lemma handled_untouched: "handled s s' \<Longrightarrow> untouched s s'"
  by (auto simp: handled_def continued_def abandoned_def)

lemma do_call_handled:
  assumes "queue_ok s" and "dispatching s"
  shows "\<exists>st s'. do_call c s = Some (st, s') \<and> queue_ok s' \<and> handled s s'"
proof -
  let ?r = "call_request c"
  consider "tx_fn s = None" | "tx_fn s \<noteq> None" "\<not> is_known_data_id (req_id ?r)"
    | "tx_fn s \<noteq> None" "is_known_data_id (req_id ?r)" "QUEUE_CAPACITY s \<le> queue_count s"
    | "tx_fn s \<noteq> None" "admissible_request ?r" "queue_count s < QUEUE_CAPACITY s"
    using call_request_data [of c] by (fastforce simp: admissible_request_def)
  then show ?thesis
  proof cases
    case 4
    from enqueue_accepted [OF assms(1) 4(2, 1, 3)] assms(2) obtain q s1 where
      s1: "s1 = s\<lparr>queue := q, queue_count := queue_count s + 1\<rparr>" "length q = length (queue s)"
      "queue_ok s1" "pending_requests s1 = pending_requests s @ [?r]"
      "enqueue ?r s = Some (QUEUED, s1)" by auto
    then have "continued s s1"
      by (simp add: continued_def untouched_def QUEUE_CAPACITY_def)
    with s1 show ?thesis by (simp add: do_call_enqueue handled_def)
  qed (use assms enqueue_refused [of s ?r] in \<open>simp_all add: do_call_enqueue\<close>)
qed

lemmas setter_defs = reset_def set_tx_handler_def set_event_handler_def
  set_response_timeout_ms_def set_interframe_timeout_ms_def set_max_retries_def

lemma do_action_queue_ok: "queue_ok s \<Longrightarrow> queue_ok (do_action a s)"
  by (cases a) (auto simp: setter_defs queue_ok_def QUEUE_CAPACITY_def pending_requests_def)

lemma do_action_handled: "handled s (do_action a s)"
  by (cases a) (simp_all add: handled_def continued_def abandoned_def untouched_def setter_defs
      QUEUE_CAPACITY_def pending_requests_def)

lemma run_client_handled:
  assumes "queue_ok s" and "dispatching s"
  shows "\<exists>s'. run_client c s = Some s' \<and> queue_ok s' \<and> handled s s'"
  using assms
proof (induction c arbitrary: s)
  case (Call c k)
  from do_call_handled [OF Call.prems] obtain st s1 where
    s1: "do_call c s = Some (st, s1)" "queue_ok s1" "handled s s1" by blast
  then have "dispatching s1" using Call.prems(2) handled_untouched by (auto simp: untouched_def)
  with Call.IH [of "k st" s1] s1 show ?case by (auto intro: handled_trans)
next
  case (Act a c)
  have s1: "queue_ok (do_action a s)" "handled s (do_action a s)"
    using do_action_queue_ok [OF Act.prems(1)] do_action_handled by blast+
  then have "dispatching (do_action a s)"
    using Act.prems(2) handled_untouched by (auto simp: untouched_def)
  with Act.IH [of "do_action a s"] s1 show ?case by (auto intro: handled_trans)
next
  case (Observe k)
  from Observe.IH [of "k (observe s)" s] Observe.prems show ?case by auto
qed simp

section \<open>The effect of a dispatch\<close>

definition handler_entry :: "fn_ptr option \<Rightarrow> ctx_ptr \<Rightarrow> event \<Rightarrow> observable list" where
  "handler_entry fn c e = (case fn of None \<Rightarrow> [] | Some f \<Rightarrow> [HANDLER f c e])"

lemma handler_entry_simps [simp]:
  "handler_entry None c e = []" "handler_entry (Some f) c e = [HANDLER f c e]"
  by (simp_all add: handler_entry_def)

text \<open>The handler of the request an event belongs to: the oldest one, while it is in flight.\<close>

definition owner_entry :: "session \<Rightarrow> event \<Rightarrow> observable list" where
  "owner_entry s e =
    (if state s = AWAITING \<and> queue_count s > 0
     then let h = hd (pending_requests s) in handler_entry (on_event h) (on_event_ctx h) e
     else [])"

lemma queue_ok_simps [simp]:
  "queue_ok (s\<lparr>trace := t\<rparr>) = queue_ok s" "queue_ok (s\<lparr>dispatching := d\<rparr>) = queue_ok s"
  "pending_requests (s\<lparr>trace := t\<rparr>) = pending_requests s"
  "pending_requests (s\<lparr>dispatching := d\<rparr>) = pending_requests s"
  by (simp_all add: queue_ok_def QUEUE_CAPACITY_def pending_requests_def)

lemma handled_trace: "handled s s' \<Longrightarrow> trace s' = trace s"
  by (auto dest!: handled_untouched simp: untouched_def)

lemma handled_extend: "handled s s' \<Longrightarrow> handled (s\<lparr>trace := t\<rparr>) (s'\<lparr>trace := t\<rparr>)"
  by (auto simp: handled_def continued_def abandoned_def untouched_def QUEUE_CAPACITY_def)

lemma handled_dispatching: "handled (s\<lparr>dispatching := d\<rparr>) s' \<Longrightarrow> handled s (s'\<lparr>dispatching := dispatching s\<rparr>)"
  by (auto simp: handled_def continued_def abandoned_def untouched_def QUEUE_CAPACITY_def)

lemma call_handler_handled:
  assumes "queue_ok s" and "dispatching s"
  shows "\<exists>s'. call_handler env fn c e s = Some s' \<and> queue_ok s' \<and>
    handled (s\<lparr>trace := trace s @ handler_entry fn c e\<rparr>) s'"
proof (cases fn)
  case (Some f)
  with run_client_handled [of "s\<lparr>trace := trace s @ [HANDLER f c e]\<rparr>" "env f c e (trace s)"] assms
  show ?thesis by (simp add: call_handler_def)
qed (use assms in \<open>simp add: call_handler_def\<close>)

lemma emit_handled:
  assumes "queue_ok s"
  shows "\<exists>s' ses. emit env e s = Some s' \<and> queue_ok s' \<and>
    handled (s\<lparr>trace := trace s @ EMIT e # owner_entry s e @ ses\<rparr>) s' \<and>
    (\<exists>fn c. ses = handler_entry fn c e) \<and>
    (owner_entry s e = [] \<longrightarrow> ses = handler_entry (event_fn s) (event_ctx s) e)"
proof -
  let ?owned = "state s = AWAITING \<and> queue_count s > 0"
  define own where "own = (if ?owned then (on_event (hd (pending_requests s)),
    on_event_ctx (hd (pending_requests s))) else (None, 0))"
  let ?s0 = "s\<lparr>dispatching := True, trace := trace s @ [EMIT e]\<rparr>"
  have own: "(if ?owned then map_option (\<lambda>h. (on_event h, on_event_ctx h)) (head s) else Some (None, 0))
      = Some own"
    using head_pending [OF assms] by (simp add: own_def)
  have entry: "owner_entry s e = handler_entry (fst own) (snd own) e"
    by (simp add: owner_entry_def own_def Let_def)
  from call_handler_handled [of ?s0 env "fst own" "snd own" e] assms obtain s1 where
    s1: "call_handler env (fst own) (snd own) e ?s0 = Some s1" "queue_ok s1"
      "handled (?s0\<lparr>trace := trace s @ EMIT e # owner_entry s e\<rparr>) s1"
    by (auto simp: entry)
  then have t1: "dispatching s1" "trace s1 = trace s @ EMIT e # owner_entry s e"
    using handled_untouched by (auto simp: untouched_def)
  from call_handler_handled [OF s1(2) t1(1), of env "event_fn s1" "event_ctx s1" e] obtain s2 where
    s2: "call_handler env (event_fn s1) (event_ctx s1) e s1 = Some s2" "queue_ok s2"
      "handled (s1\<lparr>trace := trace s1 @ handler_entry (event_fn s1) (event_ctx s1) e\<rparr>) s2" by blast
  let ?ses = "handler_entry (event_fn s1) (event_ctx s1) e"
  let ?s' = "if dispatching s then s2 else s2\<lparr>dispatching := False\<rparr>"
  have run: "emit env e s = Some ?s'"
    using own s1(1) s2(1) by (cases own) (simp add: emit_def Let_def)
  have "handled (?s0\<lparr>trace := trace s @ EMIT e # owner_entry s e @ ?ses\<rparr>)
      (s1\<lparr>trace := trace s1 @ ?ses\<rparr>)"
    using handled_extend [OF s1(3), of "trace s1 @ ?ses"] t1(2) by simp
  from handled_trans [OF this s2(3)]
  have "handled ((s\<lparr>dispatching := True\<rparr>)\<lparr>trace := trace s @ EMIT e # owner_entry s e @ ?ses\<rparr>) s2"
    by simp
  moreover have "(s\<lparr>dispatching := True\<rparr>)\<lparr>trace := t\<rparr> = (s\<lparr>trace := t\<rparr>)\<lparr>dispatching := True\<rparr>" for t
    by simp
  ultimately have "handled ((s\<lparr>trace := trace s @ EMIT e # owner_entry s e @ ?ses\<rparr>)\<lparr>dispatching := True\<rparr>) s2"
    by metis
  from handled_dispatching [OF this]
  have "handled (s\<lparr>trace := trace s @ EMIT e # owner_entry s e @ ?ses\<rparr>) (s2\<lparr>dispatching := dispatching s\<rparr>)"
    by simp
  moreover have "s2\<lparr>dispatching := dispatching s\<rparr> = ?s'"
  proof (cases "dispatching s")
    case True
    have "dispatching s2" using t1(1) handled_untouched [OF s2(3)] by (simp add: untouched_def)
    with True show ?thesis by simp
  qed simp
  ultimately have h: "handled (s\<lparr>trace := trace s @ EMIT e # owner_entry s e @ ?ses\<rparr>) ?s'" by simp
  have "s1 = ?s0" if "owner_entry s e = []"
  proof -
    from that have "fst own = None" by (cases "fst own") (simp_all add: entry)
    with s1(1) show ?thesis by (simp add: call_handler_def)
  qed
  then have "owner_entry s e = [] \<longrightarrow> ?ses = handler_entry (event_fn s) (event_ctx s) e" by auto
  moreover have "queue_ok ?s'" using s2(2) by simp
  ultimately show ?thesis using run h by blast
qed


text \<open>A handler that, called with anything, resets the session and asks for something else.\<close>

definition resetting_env :: environment where
  "resetting_env f c e t = Act Reset (Call (Poll_rtc None 0) (\<lambda>_. Done))"


end
