(* ===== verification/Masks.thy ===== *)
theory Masks
  imports Session
begin

text \<open>
  The bit mask of received frame counters: what \<open>popcount32\<close>, \<open>lowest_frame_no\<close> and
  \<open>contiguous_frames\<close> of \<open>src/haidi_bms.cpp\<close> compute, in terms of the set of counters in the
  mask, and the deadline test \<open>expired\<close>.
\<close>

section \<open>Sets of counters\<close>

definition counters :: "u32 \<Rightarrow> nat set" where
  "counters m = {k. bit m k}"

lemma finite_counters [simp]: "finite (counters m)"
  by (rule finite_subset [of _ "{..<32}"]) (auto simp: counters_def dest: bit_imp_le_length)

lemma counters_0 [simp]: "counters 0 = {}"
  by (simp add: counters_def)

lemma counters_empty_iff [simp]: "counters m = {} \<longleftrightarrow> m = 0"
proof
  assume "counters m = {}"
  then have "\<not> bit m n" for n by (auto simp: counters_def)
  then show "m = 0" by (simp add: bit_eq_iff)
qed simp

lemma counters_or: "counters (m OR n) = counters m \<union> counters n"
  by (auto simp: counters_def bit_or_iff)

lemma counters_one_bit: "n < 32 \<Longrightarrow> counters (2 ^ n) = {n}"
  by (auto simp: counters_def bit_exp_iff)

lemma bit_test: "m AND 2 ^ n = 0 \<longleftrightarrow> n \<notin> counters m"
  using bit_iff_and_push_bit_not_eq_0 [of m n] by (simp add: counters_def)

section \<open>Counting\<close>

lemma clear_lowest:
  fixes v :: u32
  assumes "bit v i" and "\<forall>j<i. \<not> bit v j"
  shows "v AND (v - 1) = unset_bit i v"
proof -
  from assms(1) have i: "i < 32" by (auto dest: bit_imp_le_length)
  have "unset_bit i v + push_bit i 1 = unset_bit i v OR push_bit i 1"
    by (rule disjunctive_add) (auto simp: bit_simps)
  also have "\<dots> = v"
    by (rule bit_eqI) (use assms(1) in \<open>auto simp: bit_simps\<close>)
  finally have v: "v = unset_bit i v + 2 ^ i" by (simp add: push_bit_eq_mult)
  have "v - 1 = unset_bit i v + mask i"
    by (subst (1) v) (simp add: mask_eq_exp_minus_1 algebra_simps)
  also have "\<dots> = unset_bit i v OR mask i"
    using assms(2) by (intro disjunctive_add) (auto simp: bit_simps)
  finally have "v - 1 = unset_bit i v OR mask i" .
  then show ?thesis
    by (intro bit_eqI) (use assms(2) in \<open>auto simp: bit_simps\<close>)
qed

lemma popcount_loop_card: "popcount_loop v n = n + of_nat (card (counters v))"
proof (induction v n rule: popcount_loop.induct)
  case (1 v n)
  show ?case
  proof (cases "v = 0")
    case True
    then show ?thesis by (simp add: popcount_loop.simps)
  next
    case False
    define i where "i = (LEAST j. bit v j)"
    from False obtain j where "bit v j" by (auto simp: bit_eq_iff)
    then have i: "bit v i" "\<forall>j<i. \<not> bit v j"
      unfolding i_def by (auto intro: LeastI dest: not_less_Least)
    have "counters (v AND (v - 1)) = counters v - {i}"
      unfolding clear_lowest [OF i] by (auto simp: counters_def bit_simps)
    moreover have "i \<in> counters v" using i(1) by (simp add: counters_def)
    ultimately have "card (counters v) = Suc (card (counters (v AND (v - 1))))"
      by (metis card_Suc_Diff1 finite_counters)
    with 1 False show ?thesis by (simp add: popcount_loop.simps [of v n])
  qed
qed

lemma popcount_card: "popcount32 m = of_nat (card (counters m))"
  by (simp add: popcount32_def popcount_loop_card)

lemma card_counters_le: "card (counters m) \<le> 32"
proof -
  have "counters m \<subseteq> {..<32}" by (auto simp: counters_def dest: bit_imp_le_length)
  from card_mono [OF _ this] show ?thesis by simp
qed

lemma unat_popcount: "unat (popcount32 m) = card (counters m)"
  using card_counters_le [of m] by (simp add: popcount_card unsigned_of_nat take_bit_nat_eq_self)

text \<open>\<open>popcount32\<close> counts the bits set, for every mask.\<close>

lemma popcount_counts_bits: "unat (popcount32 m) = card {k. bit m k}"
  using unat_popcount [of m] by (simp add: counters_def)

section \<open>The first counter and the run from it\<close>

lemma lowest_frame_loop_eq:
  assumes "bit m i" and "\<forall>j<i. \<not> bit m j"
  shows "lowest_frame_loop m index = Some (index + of_nat i)"
  using assms
proof (induction i arbitrary: m index)
  case 0
  then have "m AND 1 \<noteq> 0" using bit_test [of m 0] by (simp add: counters_def)
  then show ?case by (subst lowest_frame_loop.simps) simp
next
  case (Suc i)
  then have "\<not> bit m 0" by simp
  then have "m AND 1 = 0" using bit_test [of m 0] by (simp add: counters_def)
  moreover have "lowest_frame_loop (drop_bit 1 m) (index + 1) = Some (index + 1 + of_nat i)"
    using Suc.prems by (intro Suc.IH) (auto simp: bit_drop_bit_eq)
  ultimately show ?case by (subst lowest_frame_loop.simps) (simp add: algebra_simps)
qed

lemma lowest_frame_no_Min:
  assumes "m \<noteq> 0"
  shows "lowest_frame_no m = Some (of_nat (Min (counters m)))"
proof -
  have "Min (counters m) \<in> counters m" using assms by (intro Min_in) simp_all
  moreover have "j \<notin> counters m" if "j < Min (counters m)" for j
    using that Min_le [OF finite_counters, of j m] by (meson leD)
  ultimately have "bit m (Min (counters m))" "\<forall>j<Min (counters m). \<not> bit m j"
    unfolding counters_def by blast+
  from lowest_frame_loop_eq [OF this] show ?thesis by (simp add: lowest_frame_no_def)
qed

lemma contiguous_loop_eq:
  assumes "\<forall>k<r. unat base + unat run + k \<in> counters m"
    and "unat base + unat run + r \<notin> counters m" and "unat base + unat run + r < 32"
  shows "contiguous_loop m base run = Some (run + of_nat r)"
  using assms
proof (induction r arbitrary: run)
  case 0
  then show ?case by (subst contiguous_loop.simps) (simp add: bit_test)
next
  case (Suc r)
  have "unat run + 1 < 256" using Suc.prems(3) by simp
  then have run: "unat (run + 1) = unat run + 1" by (subst unat_word_ariths(1)) simp
  have "unat base + unat run \<in> counters m" using Suc.prems(1) by auto
  moreover have "contiguous_loop m base (run + 1) = Some (run + 1 + of_nat r)"
  proof (rule Suc.IH)
    show "\<forall>k<r. unat base + unat (run + 1) + k \<in> counters m"
    proof (intro allI impI)
      fix k assume "k < r"
      with spec [OF Suc.prems(1), of "Suc k"] show "unat base + unat (run + 1) + k \<in> counters m"
        by (simp add: run)
    qed
  qed (use Suc.prems in \<open>simp_all add: run\<close>)
  ultimately show ?case
    using Suc.prems(3) by (subst contiguous_loop.simps) (simp add: bit_test algebra_simps)
qed

definition run_length :: "nat set \<Rightarrow> nat \<Rightarrow> nat" where
  "run_length A b = (LEAST r. b + r \<notin> A)"

lemma run_length_props:
  assumes "finite A"
  shows "b + run_length A b \<notin> A" and "k < run_length A b \<Longrightarrow> b + k \<in> A"
proof -
  have "\<exists>r. b + r \<notin> A"
  proof (rule ccontr)
    assume "\<nexists>r. b + r \<notin> A"
    then have "range ((+) b) \<subseteq> A" by auto
    with assms have "finite (range ((+) b))" by (rule finite_subset [rotated])
    then show False by (simp add: finite_image_iff)
  qed
  then show "b + run_length A b \<notin> A" unfolding run_length_def by (rule LeastI_ex)
  show "k < run_length A b \<Longrightarrow> b + k \<in> A" unfolding run_length_def using not_less_Least by blast
qed

lemma run_length_bound:
  assumes "A \<subseteq> {..<n}" and "b \<le> n"
  shows "b + run_length A b \<le> n"
proof -
  have "b + (n - b) \<notin> A" using assms by auto
  then have "run_length A b \<le> n - b" unfolding run_length_def by (rule Least_le)
  with assms(2) show ?thesis by simp
qed

lemma contiguous_frames_eq:
  assumes "counters m \<subseteq> {..<31}" and "unat base \<le> 31"
  shows "contiguous_frames m base = Some (of_nat (run_length (counters m) (unat base)))"
proof -
  let ?r = "run_length (counters m) (unat base)"
  have "unat base + ?r < 32" using run_length_bound [OF assms] by simp
  moreover have "\<forall>k<?r. unat base + k \<in> counters m"
    using run_length_props(2) [OF finite_counters] by blast
  ultimately show ?thesis
    using contiguous_loop_eq [of ?r base 0 m] run_length_props(1) [OF finite_counters, of "unat base" m]
    by (simp add: contiguous_frames_def)
qed

section \<open>Deadlines\<close>

lemma expired_unat: "expired now dl \<longleftrightarrow> unat (now - dl) < 2 ^ 31"
proof -
  let ?d = "now - dl"
  have lt: "unat ?d < 2 ^ 32" using unsigned_less [of ?d] by simp
  have "expired now dl \<longleftrightarrow> \<not> bit ?d 31"
    using bit_last_iff [of ?d] by (auto simp: expired_def)
  also have "bit ?d 31 \<longleftrightarrow> odd (unat ?d div 2 ^ 31)"
    unfolding bit_iff_odd [of "unat ?d" 31, symmetric] by (simp add: bit_unsigned_iff)
  also have "\<dots> \<longleftrightarrow> 2 ^ 31 \<le> unat ?d"
  proof (cases "unat ?d < 2 ^ 31")
    case False
    then have "unat ?d div 2 ^ 31 = 1" using lt by (simp add: div_nat_eqI)
    with False show ?thesis by simp
  qed simp
  finally show ?thesis unfolding not_le .
qed

end
