(* ===== verification/Receive.thy ===== *)
theory Receive
  imports Client
begin

text \<open>
  The session, second part: what a received frame, a framing error and the passing of time do
  (\<open>on_frame\<close>, \<open>on_frame_error\<close>, the three reply handlers, \<open>finish_multi\<close>, \<open>feed\<close> and \<open>tick\<close> of
  \<open>src/haidi_bms.cpp\<close>).
\<close>

section \<open>Errors and counts\<close>

definition on_frame_error :: "environment \<Rightarrow> frame_error \<Rightarrow> session \<Rightarrow> session option" where
  "on_frame_error env fe s = do {
     i \<leftarrow> (if state s = AWAITING then map_option req_id (head s) else Some CAPACITY_VOLTAGE);
     emit env (default_event\<lparr>kind := PROTOCOL_ERROR, event_id := i,
       error := (if fe = FE_CHECKSUM then ERR_CHECKSUM else ERR_BAD_LENGTH)\<rparr>) s
   }"

definition note_counts :: "data_id \<Rightarrow> data_bytes \<Rightarrow> session \<Rightarrow> session" where
  "note_counts i data s =
    (if i = STATUS_INFO then s\<lparr>cached_cell_count := data ! 0, cached_temp_count := data ! 1\<rparr>
     else if i = BMU_CELL_TEMP_COUNT then
       s\<lparr>cached_cell_count := data ! 1 + data ! 2 + data ! 3,
         cached_temp_count := data ! 4 + data ! 5 + data ! 6\<rparr>
     else s)"

section \<open>Single-frame replies\<close>

definition handle_single :: "environment \<Rightarrow> data_id \<Rightarrow> data_bytes \<Rightarrow> session \<Rightarrow> session option" where
  "handle_single env i data s =
    (let ev = default_event\<lparr>event_id := i, frames := 1\<rparr>
     in if i = DISCHARGE_MOS_CONTROL \<or> i = CHARGE_MOS_CONTROL then do {
          h \<leftarrow> head s;
          byte \<leftarrow> rd (req_data h) 0;
          let requested = (byte \<noteq> 0);
          let reported = (data ! 0 \<noteq> 0);
          let ev = ev\<lparr>payload := P_mos_control_ack (mos_control_ack.make requested reported)\<rparr>;
          let ev = (if requested \<noteq> reported
            then ev\<lparr>kind := PROTOCOL_ERROR, error := ERR_WRITE_REJECTED\<rparr> else ev);
          s \<leftarrow> emit env ev s;
          complete s
        }
        else (case decode_single i data of
            None \<Rightarrow> do {
              s \<leftarrow> emit env (ev\<lparr>kind := PROTOCOL_ERROR, error := ERR_UNKNOWN_DATA_ID\<rparr>) s;
              complete s
            }
          | Some p \<Rightarrow> do {
              s \<leftarrow> emit env (ev\<lparr>payload := p\<rparr>) s;
              complete s
            }))"

section \<open>Paginated replies\<close>

definition finish_multi :: "environment \<Rightarrow> data_id \<Rightarrow> session \<Rightarrow> session option" where
  "finish_multi env i s = do {
     let info = multiframe_info i;
     base \<leftarrow> (if seen_mask s \<noteq> 0 then lowest_frame_no (seen_mask s) else Some (frame_base info));
     let start = unat base * unat (bytes_per_frame info);
     run \<leftarrow> (if seen_mask s \<noteq> 0 then contiguous_frames (seen_mask s) base else Some 0);
     let n = min (unat run * unat (bytes_per_frame info)) (size_sub ASSEMBLY_LEN start);
     let n = min n MAX_REASSEMBLY_LEN;
     let n = (if total_bytes info \<noteq> 0 \<and> n > unat (total_bytes info)
        then unat (total_bytes info) else n);
     let n = (if expected_items s \<noteq> 0
        then let nominal = (if i = CELL_VOLTAGES then unat (expected_items s) * 2
                            else unat (expected_items s))
          in min n nominal
        else n);
     let ev = default_event\<lparr>event_id := i, frames := frames_seen s\<rparr>;
     bytes \<leftarrow> slice (assembly s) start n;
     decoded \<leftarrow> decode_multi i (Some bytes);
     let ev = (case decoded of
         None \<Rightarrow> ev\<lparr>kind := PROTOCOL_ERROR, error := ERR_UNKNOWN_DATA_ID\<rparr>
       | Some p \<Rightarrow> ev\<lparr>payload := p\<rparr>);
     s \<leftarrow> emit env ev s;
     complete s
   }"

definition handle_multi :: "environment \<Rightarrow> data_id \<Rightarrow> data_bytes \<Rightarrow> session \<Rightarrow> session option" where
  "handle_multi env i data s =
    (let info = multiframe_info i; frame_no = data ! 0
     in if frame_no > MAX_FRAME_INDEX then
          emit env (default_event\<lparr>kind := PROTOCOL_ERROR, event_id := i,
            error := ERR_FRAME_SEQUENCE\<rparr>) s
        else do {
          let offset = unat frame_no * unat (bytes_per_frame info);
          a \<leftarrow> for_loop
            (takeWhile (\<lambda>k. offset + k < ASSEMBLY_LEN) [0..<unat (bytes_per_frame info)])
            (\<lambda>k a. do { c \<leftarrow> rd data (1 + k); wr a (offset + k) c }) (assembly s);
          let s = s\<lparr>assembly := a\<rparr>;
          bit \<leftarrow> shl32 1 (unat frame_no);
          let s = (if seen_mask s AND bit = 0
             then let m = seen_mask s OR bit in s\<lparr>seen_mask := m, frames_seen := popcount32 m\<rparr>
             else s);
          if expected_frames s \<noteq> 0 \<and> frames_seen s \<ge> expected_frames s then finish_multi env i s
          else Some (s\<lparr>deadline_ms := now_ms s + interframe_timeout_ms s\<rparr>)
        })"

section \<open>The fault-record stream\<close>

text \<open>The loop that appends bytes to the record while it has room.\<close>

fun append_record :: "data_bytes \<Rightarrow> nat list \<Rightarrow> session \<Rightarrow> session option" where
  "append_record data [] s = Some s"
| "append_record data (k # ks) s =
    (if record_len s < FAULT_BUFFER_LEN then do {
       c \<leftarrow> rd data k;
       r \<leftarrow> wr (record_buf s) (record_len s) c;
       append_record data ks (s\<lparr>record_buf := r, record_len := record_len s + 1\<rparr>)
     }
     else Some s)"

definition handle_stream :: "environment \<Rightarrow> data_id \<Rightarrow> data_bytes \<Rightarrow> session \<Rightarrow> session option" where
  "handle_stream env i data s =
    (if data ! 0 = FRAME_NO_END then complete s
     else do {
       s \<leftarrow> append_record data [1..<DATA_LEN] s;
       let s = s\<lparr>frames_seen := frames_seen s + 1\<rparr>;
       s \<leftarrow> (if record_len s \<ge> FAULT_BUFFER_LEN then do {
            let ev = default_event\<lparr>event_id := i, frames := of_nat FAULT_FRAMES_PER_RECORD\<rparr>;
            bytes \<leftarrow> slice (record_buf s) 0 (record_len s);
            s \<leftarrow> (case decode_fault_record (Some bytes) of
                 None \<Rightarrow> Some s
               | Some r \<Rightarrow> emit env (ev\<lparr>payload := P_fault_record r\<rparr>) s);
            Some (s\<lparr>record_len := 0\<rparr>)
          }
          else Some s);
       if state s \<noteq> AWAITING then pump s
       else Some (s\<lparr>deadline_ms := now_ms s + interframe_timeout_ms s\<rparr>)
     })"

section \<open>Frames and bytes\<close>

definition on_frame :: "environment \<Rightarrow> message_bytes \<Rightarrow> session \<Rightarrow> session option" where
  "on_frame env frame s =
    (let i = frame ! MSG_DATA_ID_INDEX;
         ev = default_event\<lparr>kind := PROTOCOL_ERROR, event_id := i\<rparr>
     in if state s \<noteq> AWAITING then emit env (ev\<lparr>error := ERR_UNEXPECTED_DATA_ID\<rparr>) s
        else if frame ! MSG_ADDRESS_INDEX \<noteq> bms_address s then
          emit env (ev\<lparr>error := ERR_BAD_SOURCE_ADDRESS\<rparr>) s
        else do {
          h \<leftarrow> head s;
          if i \<noteq> req_id h then emit env (ev\<lparr>error := ERR_UNEXPECTED_DATA_ID\<rparr>) s
          else do {
            let data = data_of frame;
            let s = note_counts i data s;
            let info = multiframe_info i;
            if \<not> multi info then handle_single env i data s
            else if streaming info then handle_stream env i data s
            else handle_multi env i data s
          }
        })"

definition put_parser :: "frame_parser \<Rightarrow> session \<Rightarrow> session" where
  "put_parser p s = s\<lparr>parser := p\<rparr>"

definition feed :: "environment \<Rightarrow> u8 list option \<Rightarrow> session \<Rightarrow> session option" where
  "feed env = parser_feed parser put_parser (Some (on_frame env)) (Some (on_frame_error env))"

section \<open>Time\<close>

definition tick :: "environment \<Rightarrow> u32 \<Rightarrow> session \<Rightarrow> session option" where
  "tick env now s =
    (let s = s\<lparr>now_ms := now\<rparr>
     in if state s \<noteq> AWAITING \<or> \<not> expired (now_ms s) (deadline_ms s) then Some s
        else do {
          h \<leftarrow> head s;
          let i = req_id h;
          let info = multiframe_info i;
          if multi info \<and> \<not> streaming info \<and> frames_seen s > 0 then finish_multi env i s
          else if streaming info \<and> frames_seen s > 0 then do {
            s \<leftarrow> emit env (default_event\<lparr>kind := PROTOCOL_ERROR, event_id := i,
              error := ERR_TRUNCATED, frames := frames_seen s\<rparr>) s;
            complete s
          }
          else if retries s < max_retries s then transmit (s\<lparr>retries := retries s + 1\<rparr>)
          else do {
            s \<leftarrow> emit env (default_event\<lparr>kind := TIMEOUT, event_id := i, error := ERR_NONE,
              event_retries := retries s\<rparr>) s;
            complete s
          }
        })"

end
