(* ===== verification/Invariants.thy ===== *)
theory Invariants
  imports Dispatch Masks Receive
begin

text \<open>
  The invariant of the session, that every operation preserves it and returns, and that every
  event emitted is well formed.
\<close>

section \<open>The invariant\<close>

definition current_info :: "session \<Rightarrow> multi_frame_info" where
  "current_info s = multiframe_info (req_id (hd (pending_requests s)))"

text \<open>The bit mask and the frame count of a transaction agree, except for the stream.\<close>

definition seen_ok :: "session \<Rightarrow> bool" where
  "seen_ok s \<longleftrightarrow>
    counters (seen_mask s) \<subseteq> {..<17} \<and>
    (state s = AWAITING \<and> \<not> streaming (current_info s) \<longrightarrow> frames_seen s = popcount32 (seen_mask s))"

definition session_inv :: "session \<Rightarrow> bool" where
  "session_inv s \<longleftrightarrow>
    queue_ok s \<and> (state s = AWAITING \<longrightarrow> queue_count s \<noteq> 0) \<and>
    length (assembly s) = ASSEMBLY_LEN \<and> length (record_buf s) = FAULT_BUFFER_LEN \<and>
    record_len s \<le> FAULT_BUFFER_LEN \<and> parser_inv (parser s) \<and> seen_ok s"

definition good_event :: "event \<Rightarrow> bool" where
  "good_event e \<longleftrightarrow> event_wf e \<and> error e \<noteq> ERR_UNKNOWN_DATA_ID \<and> payload_sized (payload e)"

text \<open>Every event emitted, and every event a handler is called with, is good.\<close>

primrec good_entry :: "observable \<Rightarrow> bool" where
  "good_entry (TX f c m) \<longleftrightarrow> True"
| "good_entry (EMIT e) \<longleftrightarrow> good_event e"
| "good_entry (HANDLER f c e) \<longleftrightarrow> good_event e"

definition session_ok :: "session \<Rightarrow> bool" where
  "session_ok s \<longleftrightarrow> session_inv s \<and> list_all good_entry (trace s)"

lemma tx_outputs_good [simp]: "list_all good_entry (tx_outputs s h)"
  by (simp add: tx_outputs_def split: option.splits)

text \<open>What an operation has to do: return, keep the invariant and the dispatch flag.\<close>

definition fine :: "session \<Rightarrow> session option \<Rightarrow> bool" where
  "fine s r \<longleftrightarrow> (\<exists>s'. r = Some s' \<and> session_ok s' \<and> dispatching s' = dispatching s)"

lemma fine_Some [simp]: "fine s (Some s') \<longleftrightarrow> session_ok s' \<and> dispatching s' = dispatching s"
  by (simp add: fine_def)

lemma fine_bind:
  assumes "fine s r" and "\<And>s'. r = Some s' \<Longrightarrow> session_ok s' \<Longrightarrow> dispatching s' = dispatching s \<Longrightarrow> fine s (f s')"
  shows "fine s (r \<bind> f)"
  using assms by (auto simp: fine_def)

lemma session_okD:
  assumes "session_ok s"
  shows "queue_ok s" and "session_inv s" and "state s = AWAITING \<Longrightarrow> queue_count s \<noteq> 0"
    and "state s = AWAITING \<Longrightarrow> head s = Some (hd (pending_requests s))"
  using assms head_pending [of s] by (auto simp: session_ok_def session_inv_def)

section \<open>Dispatching and the life cycle\<close>

lemma parser_reset_inv [simp]: "parser_inv p \<Longrightarrow> parser_inv (parser_reset p)"
  by (simp add: parser_inv_def parser_reset_def)

lemma session_inv_trace [simp]: "session_inv (s\<lparr>trace := t\<rparr>) = session_inv s"
  by (simp add: session_inv_def seen_ok_def current_info_def)

lemma handled_inv:
  assumes "session_inv s" and "handled s s'" and "queue_ok s'"
  shows "session_inv s'"
  using assms(2) unfolding handled_def
proof
  assume c: "continued s s'"
  then obtain new where new: "pending_requests s' = pending_requests s @ new"
    by (auto simp: continued_def)
  then have count: "queue_count s' = queue_count s + length new"
    by (metis length_pending length_append)
  have "current_info s' = current_info s" if "state s = AWAITING"
  proof -
    from that assms(1) have "pending_requests s \<noteq> []" by (simp add: session_inv_def)
    then show ?thesis by (simp add: current_info_def new)
  qed
  with c count assms(1, 3) show ?thesis
    by (auto simp: session_inv_def seen_ok_def continued_def untouched_def)
next
  assume "abandoned s s'"
  with assms(1, 3) show ?thesis
    by (simp add: session_inv_def seen_ok_def abandoned_def untouched_def)
qed

lemma handled_ok:
  assumes "session_ok s" and "handled s s'" and "queue_ok s'"
  shows "session_ok s'"
  using assms handled_inv handled_trace by (auto simp: session_ok_def)

lemma emit_ok:
  assumes "session_ok s" and "good_event e"
  shows "fine s (emit env e s)"
    and "emit env e s = Some s' \<Longrightarrow> handled (s\<lparr>trace := trace s'\<rparr>) s'"
proof -
  from emit_handled [OF session_okD(1) [OF assms(1)], of env e] obtain t ses where
    t: "emit env e s = Some t" "queue_ok t"
      "handled (s\<lparr>trace := trace s @ EMIT e # owner_entry s e @ ses\<rparr>) t"
      "\<exists>fn c. ses = handler_entry fn c e" by blast
  have tr: "trace t = trace s @ EMIT e # owner_entry s e @ ses"
    using handled_trace [OF t(3)] by simp
  have "list_all good_entry (owner_entry s e @ ses)"
    using t(4) assms(2) by (auto simp: owner_entry_def handler_entry_def Let_def split: option.splits)
  then have "session_ok (s\<lparr>trace := trace s @ EMIT e # owner_entry s e @ ses\<rparr>)"
    using assms by (auto simp: session_ok_def)
  from handled_ok [OF this t(3, 2)] t(1) handled_untouched [OF t(3)]
  show "fine s (emit env e s)" by (simp add: untouched_def)
  from t(3) tr show "handled (s\<lparr>trace := trace s'\<rparr>) s'" if "emit env e s = Some s'"
    using t(1) that by simp
qed

lemma started_ok:
  assumes "session_ok s" and "queue_count s \<noteq> 0"
  shows "session_ok (started h s)" and "dispatching (started h s) = dispatching s"
proof -
  from assms show "session_ok (started h s)"
    by (auto simp: session_ok_def session_inv_def seen_ok_def started_def queue_ok_def
        QUEUE_CAPACITY_def pending_requests_def popcount_card)
qed (simp add: started_def)

lemma pump_ok: "session_ok s \<Longrightarrow> fine s (pump s)"
  using pump_total [OF session_okD(1), of s] started_ok [of s]
  by (cases "state s"; cases "queue_count s = 0") auto

lemma session_ok_idle:
  assumes "session_ok s" and "queue_ok t" and "state t = IDLE"
    and "assembly t = assembly s" and "record_buf t = record_buf s" and "record_len t = record_len s"
    and "parser t = parser s" and "seen_mask t = seen_mask s" and "trace t = trace s"
  shows "session_ok t"
  using assms by (auto simp: session_ok_def session_inv_def seen_ok_def)

lemma complete_ok:
  assumes "session_ok s"
  shows "fine s (complete s)"
proof -
  let ?t = "(if state s = AWAITING then pop_request s else s)\<lparr>state := IDLE\<rparr>"
  have st: "queue_ok (s\<lparr>state := x\<rparr>) = queue_ok s" for s x
    by (simp add: queue_ok_def QUEUE_CAPACITY_def pending_requests_def)
  have "queue_ok ?t"
    using pop_request_ok(1) [of s] session_okD [OF assms] by (simp add: st)
  with assms have "session_ok ?t"
    by (rule session_ok_idle) (simp_all add: pop_request_def)
  from pump_ok [OF this] have "fine ?t (pump ?t)" .
  moreover have "dispatching ?t = dispatching s" by (simp add: pop_request_def)
  moreover have "complete s = pump ?t" by (simp only: complete_def Let_def)
  ultimately show ?thesis unfolding fine_def by metis
qed

lemma emit_complete_ok:
  assumes "session_ok s" and "good_event e"
  shows "fine s (emit env e s \<bind> complete)"
  using emit_ok(1) [OF assms] by (rule fine_bind) (use complete_ok in \<open>auto simp: fine_def\<close>)

section \<open>Receiving\<close>

lemma rejection_good:
  assumes "frame_rejection x"
  shows "good_event (default_event\<lparr>kind := PROTOCOL_ERROR, event_id := i, error := x\<rparr>)"
  using assms by (auto simp: good_event_def event_wf_def payload_sized_def frame_rejection_def default_event_def)

lemma on_frame_error_ok:
  assumes "session_ok s"
  shows "fine s (on_frame_error env fe s)"
proof -
  obtain i where "(if state s = AWAITING then map_option req_id (head s) else Some CAPACITY_VOLTAGE) = Some i"
    using session_okD(4) [OF assms] by (cases "state s") auto
  then show ?thesis
    using emit_ok(1) [OF assms rejection_good [of "if fe = FE_CHECKSUM then ERR_CHECKSUM else ERR_BAD_LENGTH" i]]
    by (simp add: on_frame_error_def frame_rejection_def)
qed

lemma note_counts_simps [simp]:
  "state (note_counts i d s) = state s" "head (note_counts i d s) = head s"
  "pending_requests (note_counts i d s) = pending_requests s"
  "dispatching (note_counts i d s) = dispatching s"
  "trace (note_counts i d s) = trace s"
  by (simp_all add: note_counts_def head_def pending_requests_def)

lemma note_counts_ok: "session_ok s \<Longrightarrow> session_ok (note_counts i d s)"
  by (auto simp: note_counts_def session_ok_def session_inv_def seen_ok_def current_info_def
      queue_ok_def QUEUE_CAPACITY_def pending_requests_def)

lemma current_admissible:
  assumes "session_ok s" and "state s = AWAITING"
  shows "admissible_request (hd (pending_requests s))"
proof -
  have "pending_requests s \<noteq> []" using session_okD(3) [OF assms] by simp
  then show ?thesis using session_okD(1) [OF assms(1)] by (auto simp: queue_ok_def)
qed

lemma handle_single_ok:
  assumes "session_ok s" and "state s = AWAITING" and "i = req_id (hd (pending_requests s))"
    and "\<not> multi (multiframe_info i)" and "length data = 8"
  shows "fine s (handle_single env i data s)"
proof -
  let ?h = "hd (pending_requests s)"
  let ?ev = "default_event\<lparr>event_id := i, frames := 1\<rparr>"
  from current_admissible [OF assms(1, 2)] have adm: "length (req_data ?h) = 8" "is_known_data_id i"
    by (simp_all add: admissible_request_def assms(3))
  from assms(4) have single: "i \<notin> set paginated_ids" "i \<noteq> FAULT_RECORDS" by (auto simp: multi_iff)
  show ?thesis
  proof (cases "i \<in> set mos_ids")
    case True
    then have mos: "i = DISCHARGE_MOS_CONTROL \<or> i = CHARGE_MOS_CONTROL" by (auto simp: mos_ids_def)
    define requested where "requested \<longleftrightarrow> req_data ?h ! 0 \<noteq> 0"
    define reported where "reported \<longleftrightarrow> data ! 0 \<noteq> 0"
    define ack where "ack = ?ev\<lparr>payload := P_mos_control_ack (mos_control_ack.make requested reported)\<rparr>"
    define ev where "ev = (if requested \<noteq> reported
      then ack\<lparr>kind := PROTOCOL_ERROR, error := ERR_WRITE_REJECTED\<rparr> else ack)"
    have "handle_single env i data s = emit env ev s \<bind> complete"
      using mos session_okD(4) [OF assms(1, 2)] adm(1)
      by (simp add: handle_single_def Let_def ev_def ack_def requested_def reported_def)
    moreover have "good_event ev"
      using True single mos
      by (auto simp: ev_def ack_def good_event_def event_wf_def payload_sized_def default_event_def payload_fits_def
          is_alarm_threshold_id_def frame_rejection_def)
    ultimately show ?thesis using emit_complete_ok [OF assms(1)] by simp
  next
    case False
    then have "\<not> (i = DISCHARGE_MOS_CONTROL \<or> i = CHARGE_MOS_CONTROL)" by (auto simp: mos_ids_def)
    moreover have "i \<in> set single_ids \<or> is_alarm_threshold_id i"
      using adm(2) single False by (auto simp: known_ids_iff)
    then obtain p where p: "decode_single i data = Some p" "payload_fits i p"
      using decode_single_cases [of i data] by auto
    ultimately have "handle_single env i data s = emit env (?ev\<lparr>payload := p\<rparr>) s \<bind> complete"
      by (simp add: handle_single_def Let_def)
    moreover have "good_event (?ev\<lparr>payload := p\<rparr>)"
      using p(2) single decode_single_sized [OF assms(5) p(1)]
      by (simp add: good_event_def event_wf_def default_event_def frame_rejection_def)
    ultimately show ?thesis using emit_complete_ok [OF assms(1)] by simp
  qed
qed


section \<open>Paginated replies\<close>

text \<open>The window of the assembly buffer that is decoded.\<close>

definition reply_start :: "data_id \<Rightarrow> u32 \<Rightarrow> nat" where
  "reply_start i m = Min (counters m) * unat (bytes_per_frame (multiframe_info i))"

definition reply_length :: "data_id \<Rightarrow> u32 \<Rightarrow> u8 \<Rightarrow> nat" where
  "reply_length i m items =
    (let info = multiframe_info i;
         n = min (run_length (counters m) (Min (counters m)) * unat (bytes_per_frame info))
               (ASSEMBLY_LEN - reply_start i m);
         n = min n MAX_REASSEMBLY_LEN;
         n = (if total_bytes info \<noteq> 0 then min n (unat (total_bytes info)) else n)
     in if items \<noteq> 0
        then min n (if i = CELL_VOLTAGES then unat items * 2 else unat items)
        else n)"

definition reply_bytes :: "data_id \<Rightarrow> session \<Rightarrow> u8 list" where
  "reply_bytes i s =
    take (reply_length i (seen_mask s) (expected_items s))
      (drop (reply_start i (seen_mask s)) (assembly s))"

lemma bytes_per_frame_le: "unat (bytes_per_frame (multiframe_info i)) \<le> 7"
  using multiframe_bounds(2) [of i] by (simp add: word_le_nat_alt)

lemma seen_window:
  assumes "counters m \<subseteq> {..<17}" and "m \<noteq> 0"
  shows "Min (counters m) < 17" and "run_length (counters m) (Min (counters m)) \<le> 17"
    and "1 \<le> run_length (counters m) (Min (counters m))"
    and "reply_start i m \<le> 112"
proof -
  have mem: "Min (counters m) \<in> counters m" using assms(2) by (intro Min_in) simp_all
  then show lt: "Min (counters m) < 17" using assms(1) by auto
  then show "run_length (counters m) (Min (counters m)) \<le> 17"
    using run_length_bound [OF assms(1), of "Min (counters m)"] by simp
  have "Min (counters m) + run_length (counters m) (Min (counters m)) \<notin> counters m"
    by (rule run_length_props(1)) simp
  with mem have "run_length (counters m) (Min (counters m)) \<noteq> 0" by (metis add.right_neutral)
  then show "1 \<le> run_length (counters m) (Min (counters m))" by simp
  from lt have "Min (counters m) * unat (bytes_per_frame (multiframe_info i)) \<le> 16 * 7"
    by (intro mult_le_mono bytes_per_frame_le) simp
  then show "reply_start i m \<le> 112" by (simp add: reply_start_def)
qed

lemma reply_length_le: "reply_length i m items \<le> ASSEMBLY_LEN - reply_start i m"
  by (auto simp: reply_length_def Let_def)

lemma finish_multi_eq:
  assumes "counters (seen_mask s) \<subseteq> {..<17}" and "seen_mask s \<noteq> 0"
    and "length (assembly s) = ASSEMBLY_LEN" and "i \<in> set paginated_ids"
  shows "\<exists>p. decode_multi i (Some (reply_bytes i s)) = Some (Some p) \<and> payload_fits i p \<and>
    finish_multi env i s =
      emit env (default_event\<lparr>event_id := i, frames := frames_seen s, payload := p\<rparr>) s \<bind> complete"
proof -
  let ?m = "seen_mask s" and ?bpf = "unat (bytes_per_frame (multiframe_info i))"
  let ?b = "Min (counters ?m)" and ?r = "run_length (counters ?m) (Min (counters ?m))"
  note w = seen_window [OF assms(1, 2)]
  obtain p where p: "decode_multi i (Some (reply_bytes i s)) = Some (Some p)" "payload_fits i p"
    using decode_multi_defined [OF assms(4)] by blast
  have b: "lowest_frame_no ?m = Some (of_nat ?b)" by (rule lowest_frame_no_Min [OF assms(2)])
  have ub: "unat (of_nat ?b :: u8) = ?b" "unat (of_nat ?r :: u8) = ?r"
    using w by (simp_all add: unsigned_of_nat take_bit_nat_eq_self)
  have r: "contiguous_frames ?m (of_nat ?b) = Some (of_nat ?r)"
  proof -
    have "counters ?m \<subseteq> {..<31}" using assms(1) by (rule order_trans) auto
    from contiguous_frames_eq [OF this, of "of_nat ?b"] w(1) ub show ?thesis by simp
  qed
  have win: "reply_start i ?m + reply_length i ?m (expected_items s) \<le> length (assembly s)"
    using reply_length_le [of i ?m "expected_items s"] w(4) [of i] assms(3) by simp
  have start: "size_sub ASSEMBLY_LEN (?b * ?bpf) = ASSEMBLY_LEN - ?b * ?bpf"
    using w(4) [of i] by (simp add: reply_start_def)
  have clip: "(if t \<noteq> 0 \<and> unat (t :: u8) < n then unat t else n) = (if t \<noteq> 0 then min n (unat t) else n)"
    for t n by auto
  have "finish_multi env i s = do {
      bytes \<leftarrow> slice (assembly s) (reply_start i ?m) (reply_length i ?m (expected_items s));
      decoded \<leftarrow> decode_multi i (Some bytes);
      s \<leftarrow> emit env (case decoded of
          None \<Rightarrow> default_event\<lparr>event_id := i, frames := frames_seen s,
            kind := PROTOCOL_ERROR, error := ERR_UNKNOWN_DATA_ID\<rparr>
        | Some p \<Rightarrow> default_event\<lparr>event_id := i, frames := frames_seen s, payload := p\<rparr>) s;
      complete s
    }"
    unfolding finish_multi_def Let_def
    using assms(2) b r ub
    by (simp only: if_True not_False_eq_True simp_thms Option.bind.bind_lunit reply_start_def
        reply_length_def Let_def start clip)
  with p win show ?thesis by (intro exI [of _ p]) (simp add: reply_bytes_def)
qed

text \<open>Filing a frame under its counter.\<close>

definition filed :: "data_id \<Rightarrow> data_bytes \<Rightarrow> session \<Rightarrow> session" where
  "filed i data s =
    (let off = unat (data ! 0) * unat (bytes_per_frame (multiframe_info i));
         m = seen_mask s OR 2 ^ unat (data ! 0)
     in s\<lparr>assembly := take off (assembly s) @
            take (unat (bytes_per_frame (multiframe_info i))) (drop 1 data) @
            drop (off + unat (bytes_per_frame (multiframe_info i))) (assembly s),
          seen_mask := m, frames_seen := popcount32 m\<rparr>)"

lemma filing_loop:
  assumes "length a = 119" and "off + n \<le> 119" and "n \<le> 7" and "length data = 8"
  shows "for_loop (takeWhile (\<lambda>k. off + k < ASSEMBLY_LEN) [0..<n])
      (\<lambda>k a. do { c \<leftarrow> rd data (1 + k); wr a (off + k) c }) a =
    Some (take off a @ take n (drop 1 data) @ drop (off + n) a)"
proof -
  have tw: "takeWhile (\<lambda>k. off + k < ASSEMBLY_LEN) [0..<n] = [0..<n]"
    using assms(2) by (simp add: takeWhile_eq_all_conv)
  have "for_loop [0..<n] (\<lambda>k a. do { c \<leftarrow> rd data (1 + k); wr a (off + k) c }) a =
      Some (fold (\<lambda>k a. a[off + k := data ! (1 + k)]) [0..<n] a)"
    using assms
    by (intro for_loop_fold [where P = "\<lambda>t. length t = 119", THEN conjunct1]) simp_all
  also have "fold (\<lambda>k a. a[off + k := data ! (1 + k)]) [0..<n] a =
      take off a @ map (\<lambda>k. data ! (1 + k)) [0..<n] @ drop (off + n) a"
    using assms by (intro fold_update) simp
  also have "map (\<lambda>k. data ! (1 + k)) [0..<n] = take n (drop 1 data)"
    using assms by (intro nth_equalityI) simp_all
  finally show ?thesis unfolding tw .
qed

lemma handle_multi_eq:
  assumes "length (assembly s) = ASSEMBLY_LEN" and "length data = 8"
    and "frames_seen s = popcount32 (seen_mask s)"
  shows "handle_multi env i data s =
    (if data ! 0 > MAX_FRAME_INDEX
     then emit env (default_event\<lparr>kind := PROTOCOL_ERROR, event_id := i, error := ERR_FRAME_SEQUENCE\<rparr>) s
     else if expected_frames s \<noteq> 0 \<and> frames_seen (filed i data s) \<ge> expected_frames s
     then finish_multi env i (filed i data s)
     else Some ((filed i data s)\<lparr>deadline_ms := now_ms s + interframe_timeout_ms s\<rparr>))"
proof (cases "data ! 0 > MAX_FRAME_INDEX")
  case True
  then show ?thesis by (simp add: handle_multi_def)
next
  case False
  let ?k = "unat (data ! 0)" and ?bpf = "unat (bytes_per_frame (multiframe_info i))"
  from False have k: "?k \<le> 16" by (simp add: word_less_nat_alt)
  then have "?k * ?bpf \<le> 16 * 7" by (intro mult_le_mono bytes_per_frame_le)
  define a' where "a' = take (?k * ?bpf) (assembly s) @ take ?bpf (drop 1 data) @
    drop (?k * ?bpf + ?bpf) (assembly s)"
  from \<open>?k * ?bpf \<le> 16 * 7\<close> have loop: "for_loop (takeWhile (\<lambda>j. ?k * ?bpf + j < ASSEMBLY_LEN) [0..<?bpf])
      (\<lambda>j a. do { c \<leftarrow> rd data (1 + j); wr a (?k * ?bpf + j) c }) (assembly s) = Some a'"
    unfolding a'_def using assms(1, 2) bytes_per_frame_le [of i] by (intro filing_loop) simp_all
  have sh: "shl32 1 ?k = Some (2 ^ ?k)" using k by simp
  have mark: "(if seen_mask t AND 2 ^ ?k = 0
      then t\<lparr>seen_mask := seen_mask t OR 2 ^ ?k, frames_seen := popcount32 (seen_mask t OR 2 ^ ?k)\<rparr>
      else t) =
    t\<lparr>seen_mask := seen_mask t OR 2 ^ ?k, frames_seen := popcount32 (seen_mask t OR 2 ^ ?k)\<rparr>"
    if "frames_seen t = popcount32 (seen_mask t)" for t
  proof (cases "seen_mask t AND 2 ^ ?k = 0")
    case False
    then have "counters (seen_mask t OR 2 ^ ?k) = counters (seen_mask t)"
      using k by (auto simp: bit_test counters_or counters_one_bit)
    then have "bit (seen_mask t OR 2 ^ ?k) n = bit (seen_mask t) n" for n
      unfolding counters_def by blast
    then have "seen_mask t OR 2 ^ ?k = seen_mask t" by (intro bit_eqI) simp
    with that show ?thesis by simp
  qed simp
  have filed: "filed i data s = s\<lparr>assembly := a', seen_mask := seen_mask s OR 2 ^ ?k,
      frames_seen := popcount32 (seen_mask s OR 2 ^ ?k)\<rparr>"
    by (simp add: filed_def a'_def Let_def)
  let ?t = "s\<lparr>assembly := a'\<rparr>"
  have "handle_multi env i data s =
      (let t = (if seen_mask ?t AND 2 ^ ?k = 0
         then ?t\<lparr>seen_mask := seen_mask ?t OR 2 ^ ?k, frames_seen := popcount32 (seen_mask ?t OR 2 ^ ?k)\<rparr>
         else ?t)
       in if expected_frames t \<noteq> 0 \<and> frames_seen t \<ge> expected_frames t then finish_multi env i t
          else Some (t\<lparr>deadline_ms := now_ms t + interframe_timeout_ms t\<rparr>))"
    unfolding handle_multi_def Let_def loop sh Option.bind.bind_lunit using False by (simp only: if_False)
  also have "\<dots> = (if expected_frames s \<noteq> 0 \<and> frames_seen (filed i data s) \<ge> expected_frames s
       then finish_multi env i (filed i data s)
       else Some ((filed i data s)\<lparr>deadline_ms := now_ms s + interframe_timeout_ms s\<rparr>))"
    using assms(3) by (subst mark) (simp_all add: filed Let_def)
  finally show ?thesis using False by simp
qed

lemma finish_multi_ok:
  assumes "session_ok s" and "state s = AWAITING" and "i = req_id (hd (pending_requests s))"
    and "i \<in> set paginated_ids" and "seen_mask s \<noteq> 0"
  shows "fine s (finish_multi env i s)"
proof -
  have inv: "counters (seen_mask s) \<subseteq> {..<17}" "length (assembly s) = ASSEMBLY_LEN"
    using assms(1) by (simp_all add: session_ok_def session_inv_def seen_ok_def)
  have "\<not> streaming (multiframe_info i)" using assms(4) by (auto simp: streaming_iff paginated_ids_def)
  then have f: "frames_seen s = popcount32 (seen_mask s)"
    using assms(1-3) by (simp add: session_ok_def session_inv_def seen_ok_def current_info_def)
  from finish_multi_eq [OF inv(1) assms(5) inv(2) assms(4)] obtain p where p: "payload_fits i p"
    "decode_multi i (Some (reply_bytes i s)) = Some (Some p)"
    "finish_multi env i s =
      emit env (default_event\<lparr>event_id := i, frames := frames_seen s, payload := p\<rparr>) s \<bind> complete"
    by blast
  have "card (counters (seen_mask s)) \<le> 17" using card_mono [OF _ inv(1)] by simp
  moreover have "0 < card (counters (seen_mask s))" using assms(5) by (simp add: card_gt_0_iff)
  ultimately have "1 \<le> frames_seen s \<and> frames_seen s \<le> 17"
    using unat_popcount [of "seen_mask s"] by (simp add: f word_le_nat_alt)
  moreover have "i \<noteq> FAULT_RECORDS" using assms(4) by (auto simp: paginated_ids_def)
  ultimately have "good_event (default_event\<lparr>event_id := i, frames := frames_seen s, payload := p\<rparr>)"
    using p(1) assms(4) decode_multi_sized [OF p(2)]
    by (simp add: good_event_def event_wf_def default_event_def frame_rejection_def)
  from emit_complete_ok [OF assms(1) this] show ?thesis by (simp add: p(3))
qed

lemma filed_ok:
  assumes "session_ok s" and "\<not> data ! 0 > MAX_FRAME_INDEX" and "length data = 8"
  shows "session_ok (filed i data s)" and "seen_mask (filed i data s) \<noteq> 0"
proof -
  let ?k = "unat (data ! 0)" and ?bpf = "unat (bytes_per_frame (multiframe_info i))"
  from assms(2) have k: "?k \<le> 16" by (simp add: word_less_nat_alt)
  then have "?k * ?bpf \<le> 16 * 7" by (intro mult_le_mono bytes_per_frame_le)
  then have "length (assembly (filed i data s)) = length (assembly s)"
    if "length (assembly s) = 119"
    using that assms(3) bytes_per_frame_le [of i] by (simp add: filed_def Let_def)
  moreover have c: "counters (seen_mask (filed i data s)) = insert ?k (counters (seen_mask s))"
    using k by (auto simp: filed_def Let_def counters_or counters_one_bit)
  moreover have "queue_ok (filed i data s) = queue_ok s"
    "pending_requests (filed i data s) = pending_requests s"
    by (simp_all add: filed_def Let_def queue_ok_def QUEUE_CAPACITY_def pending_requests_def)
  ultimately show "session_ok (filed i data s)"
    using assms(1) k
    by (auto simp: session_ok_def session_inv_def seen_ok_def current_info_def filed_def Let_def)
  from c show "seen_mask (filed i data s) \<noteq> 0" by (metis counters_empty_iff insert_not_empty)
qed

lemma filed_simps [simp]:
  "state (filed i d s) = state s" "pending_requests (filed i d s) = pending_requests s"
  "dispatching (filed i d s) = dispatching s" "expected_frames (filed i d s) = expected_frames s"
  "expected_items (filed i d s) = expected_items s" "trace (filed i d s) = trace s"
  by (simp_all add: filed_def Let_def pending_requests_def)

lemma session_ok_deadline [simp]: "session_ok (s\<lparr>deadline_ms := d\<rparr>) = session_ok s"
  by (simp add: session_ok_def session_inv_def seen_ok_def current_info_def queue_ok_def
      QUEUE_CAPACITY_def pending_requests_def)

lemma session_ok_now [simp]: "session_ok (s\<lparr>now_ms := d\<rparr>) = session_ok s"
  by (simp add: session_ok_def session_inv_def seen_ok_def current_info_def queue_ok_def
      QUEUE_CAPACITY_def pending_requests_def)

lemma session_ok_retries [simp]: "session_ok (s\<lparr>retries := d\<rparr>) = session_ok s"
  by (simp add: session_ok_def session_inv_def seen_ok_def current_info_def queue_ok_def
      QUEUE_CAPACITY_def pending_requests_def)

lemma handle_multi_ok:
  assumes "session_ok s" and "state s = AWAITING" and "i = req_id (hd (pending_requests s))"
    and "i \<in> set paginated_ids" and "length data = 8"
  shows "fine s (handle_multi env i data s)"
proof -
  have "\<not> streaming (multiframe_info i)" using assms(4) by (auto simp: streaming_iff paginated_ids_def)
  then have inv: "length (assembly s) = ASSEMBLY_LEN" "frames_seen s = popcount32 (seen_mask s)"
    using assms(1-3) by (simp_all add: session_ok_def session_inv_def seen_ok_def current_info_def)
  note eq = handle_multi_eq [OF inv(1) assms(5) inv(2), of env i]
  show ?thesis
  proof (cases "data ! 0 > MAX_FRAME_INDEX")
    case True
    then show ?thesis
      using emit_ok(1) [OF assms(1) rejection_good [of ERR_FRAME_SEQUENCE i]]
      by (simp add: eq frame_rejection_def)
  next
    case False
    note ok = filed_ok [OF assms(1) False assms(5), of i]
    have "fine (filed i data s) (finish_multi env i (filed i data s))"
      using finish_multi_ok [OF ok(1) _ _ assms(4) ok(2)] assms(2, 3) by simp
    with False ok(1) show ?thesis by (simp add: eq fine_def)
  qed
qed

section \<open>The stream\<close>

lemma append_record_ok:
  assumes "session_ok s" and "\<forall>k \<in> set ks. k < length data"
  shows "\<exists>s'. append_record data ks s = Some s' \<and> session_ok s' \<and> dispatching s' = dispatching s \<and>
    state s' = state s \<and> pending_requests s' = pending_requests s"
  using assms
proof (induction ks arbitrary: s)
  case (Cons k ks)
  show ?case
  proof (cases "record_len s < FAULT_BUFFER_LEN")
    case True
    let ?t = "s\<lparr>record_buf := (record_buf s)[record_len s := data ! k], record_len := record_len s + 1\<rparr>"
    have "length (record_buf s) = FAULT_BUFFER_LEN"
      using Cons.prems(1) by (simp add: session_ok_def session_inv_def)
    with True Cons.prems(2) have "append_record data (k # ks) s = append_record data ks ?t" by simp
    moreover have "session_ok ?t"
      using Cons.prems(1) True
      by (simp add: session_ok_def session_inv_def seen_ok_def current_info_def queue_ok_def
          QUEUE_CAPACITY_def pending_requests_def)
    ultimately show ?thesis
      using Cons.IH [of ?t] Cons.prems(2) by (auto simp: pending_requests_def)
  next
    case False
    with Cons.prems show ?thesis by simp
  qed
qed simp

lemma handle_stream_ok:
  assumes "session_ok s" and "state s = AWAITING" and "FAULT_RECORDS = req_id (hd (pending_requests s))"
    and "length data = 8"
  shows "fine s (handle_stream env FAULT_RECORDS data s)"
proof (cases "data ! 0 = FRAME_NO_END")
  case True
  with complete_ok [OF assms(1)] show ?thesis by (simp add: handle_stream_def)
next
  case False
  have "\<forall>k \<in> set [1..<DATA_LEN]. k < length data" using assms(4) by simp
  from append_record_ok [OF assms(1) this] obtain s1 where
    s1: "append_record data [1..<DATA_LEN] s = Some s1" "session_ok s1"
      "dispatching s1 = dispatching s" "state s1 = state s" "pending_requests s1 = pending_requests s"
    by blast
  let ?s2 = "s1\<lparr>frames_seen := frames_seen s1 + 1\<rparr>"
  have info: "streaming (current_info s1)" using assms(3) s1(5) by (simp add: current_info_def streaming_iff)
  then have ok2: "session_ok ?s2"
    using s1(2) assms(2) s1(4)
    by (simp add: session_ok_def session_inv_def seen_ok_def current_info_def queue_ok_def
        QUEUE_CAPACITY_def pending_requests_def)
  let ?step = "\<lambda>s. if record_len s \<ge> FAULT_BUFFER_LEN then do {
            let ev = default_event\<lparr>event_id := FAULT_RECORDS, frames := of_nat FAULT_FRAMES_PER_RECORD\<rparr>;
            bytes \<leftarrow> slice (record_buf s) 0 (record_len s);
            s \<leftarrow> (case decode_fault_record (Some bytes) of
                 None \<Rightarrow> Some s
               | Some r \<Rightarrow> emit env (ev\<lparr>payload := P_fault_record r\<rparr>) s);
            Some (s\<lparr>record_len := 0\<rparr>)
          }
          else Some s"
  have clear: "session_ok t \<Longrightarrow> session_ok (t\<lparr>record_len := 0\<rparr>)" for t
    by (simp add: session_ok_def session_inv_def seen_ok_def current_info_def queue_ok_def
        QUEUE_CAPACITY_def pending_requests_def)
  have step: "fine ?s2 (?step ?s2)"
  proof (cases "record_len ?s2 \<ge> FAULT_BUFFER_LEN")
    case full: True
    have "length (record_buf ?s2) = 28" "record_len ?s2 \<le> 28"
      using ok2 by (simp_all add: session_ok_def session_inv_def)
    with full have sl: "slice (record_buf ?s2) 0 (record_len ?s2) = Some (record_buf ?s2)" by simp
    obtain r where r: "decode_fault_record (Some (record_buf ?s2)) = Some r"
      using decode_fault_record_defined [of "Some (record_buf ?s2)"] \<open>length (record_buf ?s2) = 28\<close> by auto
    let ?ev = "default_event\<lparr>event_id := FAULT_RECORDS, frames := of_nat FAULT_FRAMES_PER_RECORD,
      payload := P_fault_record r\<rparr>"
    have "good_event ?ev"
      by (simp add: good_event_def event_wf_def payload_sized_def default_event_def frame_rejection_def payload_fits_def
          is_alarm_threshold_id_def)
    from emit_ok(1) [OF ok2 this] obtain t where
      "emit env ?ev ?s2 = Some t" "session_ok t" "dispatching t = dispatching ?s2"
      by (auto simp: fine_def)
    with clear [of t] full sl r show ?thesis by (simp add: fine_def Let_def)
  qed (use ok2 in simp)
  have "handle_stream env FAULT_RECORDS data s =
      ?step ?s2 \<bind> (\<lambda>s. if state s \<noteq> AWAITING then pump s
        else Some (s\<lparr>deadline_ms := now_ms s + interframe_timeout_ms s\<rparr>))"
    using False s1(1) by (simp add: handle_stream_def Let_def)
  moreover have "fine ?s2 (?step ?s2 \<bind> (\<lambda>s. if state s \<noteq> AWAITING then pump s
        else Some (s\<lparr>deadline_ms := now_ms s + interframe_timeout_ms s\<rparr>)))"
    using step by (rule fine_bind) (use pump_ok in \<open>auto simp: fine_def\<close>)
  ultimately show ?thesis using s1(3) by (simp add: fine_def)
qed

section \<open>Frames, bytes and time\<close>

lemma on_frame_ok:
  assumes "session_ok s" and "length frame = 13"
  shows "fine s (on_frame env frame s)"
proof -
  let ?i = "frame ! MSG_DATA_ID_INDEX" and ?s = "note_counts (frame ! MSG_DATA_ID_INDEX) (data_of frame) s"
  have rej: "fine s (emit env (default_event\<lparr>kind := PROTOCOL_ERROR, event_id := ?i, error := x\<rparr>) s)"
    if "frame_rejection x" for x
    using emit_ok(1) [OF assms(1) rejection_good [OF that]] .
  show ?thesis
  proof (cases "state s = AWAITING \<and> frame ! MSG_ADDRESS_INDEX = bms_address s \<and>
      ?i = req_id (hd (pending_requests s))")
    case True
    note h = session_okD(4) [OF assms(1)]
    have ok: "session_ok ?s" "length (data_of frame) = 8"
      using note_counts_ok [OF assms(1)] by simp_all
    have "on_frame env frame s =
        (if \<not> multi (multiframe_info ?i) then handle_single env ?i (data_of frame) ?s
         else if streaming (multiframe_info ?i) then handle_stream env ?i (data_of frame) ?s
         else handle_multi env ?i (data_of frame) ?s)"
      using True h by (simp add: on_frame_def Let_def)
    also have "fine ?s \<dots>"
      using handle_single_ok [OF ok(1)] handle_stream_ok [OF ok(1)] handle_multi_ok [OF ok(1)] True ok(2)
      by (auto simp: multi_iff streaming_iff)
    finally show ?thesis by (simp add: fine_def)
  next
    case False
    then show ?thesis
      using rej session_okD(4) [OF assms(1)]
      by (auto simp: on_frame_def Let_def frame_rejection_def)
  qed
qed

lemma put_parser_ok: "session_ok s \<Longrightarrow> parser_inv p \<Longrightarrow> session_ok (put_parser p s)"
  by (simp add: put_parser_def session_ok_def session_inv_def seen_ok_def current_info_def
      queue_ok_def QUEUE_CAPACITY_def pending_requests_def)

text \<open>The session is a client of the framer.\<close>

definition session_idle_ok :: "session \<Rightarrow> bool" where
  "session_idle_ok s \<longleftrightarrow> session_ok s \<and> \<not> dispatching s"

lemma fine_idle: "session_idle_ok s \<Longrightarrow> fine s r \<Longrightarrow> \<exists>s'. r = Some s' \<and> session_idle_ok s'"
  by (auto simp: fine_def session_idle_ok_def)

interpretation session_client: framer_client parser put_parser "on_frame env" "on_frame_error env"
  session_idle_ok for env
proof unfold_locales
  fix s p assume s: "session_idle_ok s"
  then show "parser_inv (parser s)"
    by (simp add: session_idle_ok_def session_ok_def session_inv_def)
  from s show "session_idle_ok (put_parser p s)" if "parser_inv p"
    using put_parser_ok [OF _ that] by (simp add: session_idle_ok_def put_parser_def)
  from s show "\<exists>s'. on_frame env f s = Some s' \<and> session_idle_ok s'" if "valid_frame f" for f
    using on_frame_ok [of s f env] that by (intro fine_idle) (auto simp: session_idle_ok_def valid_frame_def)
  from s show "\<exists>s'. on_frame_error env e s = Some s' \<and> session_idle_ok s'" for e
    using on_frame_error_ok [of s env e] by (intro fine_idle) (auto simp: session_idle_ok_def)
qed

lemma feed_ok: "session_idle_ok s \<Longrightarrow> \<exists>s'. feed env data s = Some s' \<and> session_idle_ok s'"
  unfolding feed_def by (rule session_client.parser_feed_total)

lemma tick_ok:
  assumes "session_ok s"
  shows "fine s (tick env now s)"
proof -
  let ?s = "s\<lparr>now_ms := now\<rparr>"
  let ?i = "req_id (hd (pending_requests s))"
  have ok: "session_ok ?s" using assms by simp
  have p: "pending_requests ?s = pending_requests s" by (simp add: pending_requests_def)
  show ?thesis
  proof (cases "state s = AWAITING \<and> expired now (deadline_ms s)")
    case False
    with ok show ?thesis by (auto simp: tick_def Let_def)
  next
    case True
    have h: "head ?s = Some (hd (pending_requests s))" using session_okD(4) [OF ok] True p by simp
    consider (multi) "multi (multiframe_info ?i)" "\<not> streaming (multiframe_info ?i)" "frames_seen s > 0"
      | (stream) "streaming (multiframe_info ?i)" "frames_seen s > 0"
      | (retry) "\<not> (multi (multiframe_info ?i) \<and> \<not> streaming (multiframe_info ?i) \<and> frames_seen s > 0)"
          "\<not> (streaming (multiframe_info ?i) \<and> frames_seen s > 0)" by blast
    then show ?thesis
    proof cases
      case multi
      have "frames_seen s = popcount32 (seen_mask s)"
        using assms True multi(2) by (simp add: session_ok_def session_inv_def seen_ok_def current_info_def)
      then have "seen_mask ?s \<noteq> 0" using multi(3) by (auto simp: popcount_card)
      moreover have "?i \<in> set paginated_ids" using multi(1, 2) by (auto simp: multi_iff streaming_iff)
      ultimately have "fine ?s (finish_multi env ?i ?s)"
        using finish_multi_ok [OF ok, of ?i env] True p by simp
      with True h multi show ?thesis by (simp add: tick_def Let_def fine_def)
    next
      case stream
      let ?e = "default_event\<lparr>kind := PROTOCOL_ERROR, event_id := ?i, error := ERR_TRUNCATED,
        frames := frames_seen s\<rparr>"
      have "good_event ?e"
        by (simp add: good_event_def event_wf_def payload_sized_def default_event_def frame_rejection_def)
      with emit_complete_ok [OF ok, of ?e env] True h stream show ?thesis
        by (simp add: tick_def Let_def fine_def)
    next
      case retry
      let ?e = "default_event\<lparr>kind := TIMEOUT, event_id := ?i, error := ERR_NONE, event_retries := retries s\<rparr>"
      have e: "good_event ?e"
        by (simp add: good_event_def event_wf_def payload_sized_def default_event_def frame_rejection_def)
      show ?thesis
      proof (cases "retries s < max_retries s")
        case more: True
        let ?t = "?s\<lparr>retries := retries s + 1\<rparr>"
        have "head ?t = Some (hd (pending_requests s))" using h by (simp add: head_def)
        from transmit_eq [OF this]
        have "transmit ?t = Some (?t\<lparr>trace := trace s @ tx_outputs ?t (hd (pending_requests s)),
          deadline_ms := now + response_timeout_ms s\<rparr>)" by simp
        moreover have "session_ok (?t\<lparr>trace := trace s @ tx_outputs ?t (hd (pending_requests s)),
          deadline_ms := now + response_timeout_ms s\<rparr>)"
        proof -
          have "session_ok ?t" using ok by simp
          then have "session_ok (?t\<lparr>trace := trace s @ tx_outputs ?t (hd (pending_requests s))\<rparr>)"
            unfolding session_ok_def session_inv_trace by auto
          then show ?thesis using session_ok_deadline by simp
        qed
        moreover have "tick env now s = transmit ?t"
          using True h retry more by (auto simp: tick_def Let_def)
        ultimately show ?thesis by simp
      next
        case False
        have "tick env now s = emit env ?e ?s \<bind> complete"
          using True h retry False by (auto simp: tick_def Let_def)
        with emit_complete_ok [OF ok e, of env] show ?thesis by (simp add: fine_def)
      qed
    qed
  qed
qed

section \<open>Reachable sessions\<close>

text \<open>
  What the program that owns a session can do with it, with any event handlers: the handlers may
  differ from one call to the next, which covers handlers with any memory.
\<close>

datatype api_call =
    Api_call call
  | Api_action action
  | Api_feed environment "u8 list option"
  | Api_tick environment u32

primrec api :: "api_call \<Rightarrow> session \<Rightarrow> session option" where
  "api (Api_call c) s = map_option snd (do_call c s)"
| "api (Api_action a) s = Some (do_action a s)"
| "api (Api_feed env data) s = feed env data s"
| "api (Api_tick env now) s = tick env now s"

inductive reachable :: "session \<Rightarrow> bool" where
  construct: "0 < capacity \<Longrightarrow> reachable (init_session capacity host bms)"
| use: "reachable s \<Longrightarrow> api c s = Some s' \<Longrightarrow> reachable s'"

lemma init_ok: "0 < n \<Longrightarrow> session_idle_ok (init_session n host bms)"
  using init_queue_ok [of n host bms]
  by (simp add: session_idle_ok_def session_ok_def session_inv_def seen_ok_def init_session_def
      popcount_card)

lemma session_ok_trace_append:
  "session_ok s \<Longrightarrow> session_ok (s\<lparr>trace := trace s @ tx_outputs t h\<rparr>)"
  by (auto simp: session_ok_def tx_outputs_def split: option.splits)

lemma do_call_ok:
  assumes "session_idle_ok s"
  shows "\<exists>st s'. do_call c s = Some (st, s') \<and> session_idle_ok s'"
proof -
  let ?r = "call_request c"
  have ok: "session_ok s" "queue_ok s" "\<not> dispatching s"
    using assms session_okD(1) by (auto simp: session_idle_ok_def)
  consider "tx_fn s = None" | "tx_fn s \<noteq> None" "\<not> is_known_data_id (req_id ?r)"
    | "tx_fn s \<noteq> None" "is_known_data_id (req_id ?r)" "QUEUE_CAPACITY s \<le> queue_count s"
    | "tx_fn s \<noteq> None" "admissible_request ?r" "queue_count s < QUEUE_CAPACITY s"
    using call_request_data [of c] by (fastforce simp: admissible_request_def)
  then show ?thesis
  proof cases
    case 4
    from enqueue_accepted [OF ok(2) 4(2, 1, 3)] ok(3) obtain q s1 where
      s1: "s1 = s\<lparr>queue := q, queue_count := queue_count s + 1\<rparr>" "length q = length (queue s)"
      "queue_ok s1" "pending_requests s1 = pending_requests s @ [?r]"
      "enqueue ?r s = Some (QUEUED, if state s = IDLE
        then started (hd (pending_requests s @ [?r])) s1 else s1)" by auto
    have "current_info s1 = current_info s" if "state s = AWAITING"
    proof -
      have "pending_requests s \<noteq> []" using session_okD(3) [OF ok(1) that] by simp
      then show ?thesis by (simp add: current_info_def s1(4))
    qed
    then have ok1: "session_ok s1"
      using ok(1) s1(3) by (auto simp: session_ok_def session_inv_def seen_ok_def s1(1))
    have "queue_count s1 \<noteq> 0" by (simp add: s1(1))
    from started_ok [OF ok1 this] ok1 s1(5) ok(3) show ?thesis
      by (auto simp: do_call_enqueue session_idle_ok_def s1(1))
  qed (use assms enqueue_refused [of s ?r] in \<open>simp_all add: do_call_enqueue\<close>)
qed

lemma do_action_ok: "session_idle_ok s \<Longrightarrow> session_idle_ok (do_action a s)"
  using handled_ok [OF _ do_action_handled do_action_queue_ok, of s a] session_okD(1)
    handled_untouched [OF do_action_handled, of s a]
  by (auto simp: session_idle_ok_def untouched_def)

lemma api_ok: "session_idle_ok s \<Longrightarrow> \<exists>s'. api c s = Some s' \<and> session_idle_ok s'"
proof (cases c)
  case (Api_call x)
  then show "session_idle_ok s \<Longrightarrow> ?thesis" using do_call_ok [of s x] by auto
next
  case (Api_tick env now)
  then show "session_idle_ok s \<Longrightarrow> ?thesis"
    using fine_idle [OF _ tick_ok] by (simp add: session_idle_ok_def)
qed (use do_action_ok feed_ok in auto)

lemma reachable_ok: "reachable s \<Longrightarrow> session_idle_ok s"
proof (induction rule: reachable.induct)
  case (use s c s')
  from api_ok [OF use.IH, of c] use.hyps(2) show ?case by auto
qed (rule init_ok)

lemma traced_entry_good: "reachable s \<Longrightarrow> x \<in> set (trace s) \<Longrightarrow> good_entry x"
  using reachable_ok by (auto simp: session_idle_ok_def session_ok_def list_all_iff)

text \<open>A sequence of calls.\<close>

primrec run_api :: "api_call list \<Rightarrow> session \<Rightarrow> session option" where
  "run_api [] s = Some s"
| "run_api (c # cs) s = api c s \<bind> run_api cs"

lemma run_api_reachable: "reachable s \<Longrightarrow> \<exists>s'. run_api cs s = Some s' \<and> reachable s'"
proof (induction cs arbitrary: s)
  case (Cons c cs)
  from api_ok [OF reachable_ok [OF Cons.prems], of c] obtain t where "api c s = Some t" by blast
  with Cons.IH [of t] reachable.use [OF Cons.prems, of c t] show ?case by simp
qed simp

text \<open>A run to evaluate on: one read, no retries, and a clock that passes the deadline.\<close>

definition quiet_env :: environment where
  "quiet_env f c e t = Done"

definition run_from_start :: "api_call list \<Rightarrow> session option" where
  "run_from_start cs = run_api (Api_action (Set_tx_handler (Some 1) 0) # cs) (init_session 2 0x40 1)"

definition sample_run :: "session option" where
  "sample_run = run_from_start [Api_action (Set_max_retries 0), Api_call (Poll_rtc None 0),
     Api_tick quiet_env 250]"

lemma run_from_start_reachable: "\<exists>s. run_from_start cs = Some s \<and> reachable s"
  unfolding run_from_start_def by (rule run_api_reachable, rule reachable.construct) simp

lemma sample_run_reachable: "\<exists>s. sample_run = Some s \<and> reachable s"
  unfolding sample_run_def by (rule run_from_start_reachable)

lemma sample_run_trace:
  "map_option trace sample_run = Some [TX 1 0 (encode 0x40 RTC (replicate 8 0)),
     EMIT (default_event\<lparr>kind := TIMEOUT, event_id := RTC\<rparr>)]"
  by code_simp

text \<open>
  C1: the session never fails.  In every state reachable by any sequence of calls from any
  program, with any handlers that request, configure and reset from inside their callbacks, every
  call of the interface returns: no array is accessed out of bounds, nothing is shifted by the
  width of its type, no loop runs forever.
\<close>

theorem session_total:
  assumes "reachable s"
  shows "\<exists>s'. api c s = Some s' \<and> reachable s'"
  using api_ok [OF reachable_ok [OF assms], of c] reachable.use [OF assms] by blast

theorem session_total_witness:
  "\<exists>s'. api (Api_tick resetting_env 5) (init_session 24 0x40 1) = Some s' \<and> reachable s'"
  by (rule session_total) (rule reachable.construct, simp)

text \<open>
  C2: every event a session ever emits is well formed, so that, with the accessors' guarantee,
  no accessor ever reads an inactive member of the payload of an event the session delivered;
  and the error \<open>UNKNOWN_DATA_ID\<close> never occurs.
\<close>

theorem emitted_events_well_formed:
  assumes "reachable s" and "EMIT e \<in> set (trace s)"
  shows "event_wf e \<and> error e \<noteq> ERR_UNKNOWN_DATA_ID"
  using traced_entry_good [OF assms] by (simp add: good_event_def)

theorem emitted_events_well_formed_witness:
  "event_wf (default_event\<lparr>kind := TIMEOUT, event_id := RTC\<rparr>)"
proof -
  from sample_run_reachable obtain s where s: "sample_run = Some s" "reachable s" by blast
  have "EMIT (default_event\<lparr>kind := TIMEOUT, event_id := RTC\<rparr>) \<in> set (trace s)"
    using sample_run_trace unfolding s(1) by simp
  from emitted_events_well_formed [OF s(2) this] show ?thesis by simp
qed

text \<open>
  C13: between calls the session is in order.  At most \<open>QUEUE_CAPACITY\<close> requests are pending,
  at least one while it is busy; \<open>in_flight()\<close> is the known command of the oldest one while
  busy and \<open>DataId::NONE\<close> otherwise; less than a frame is buffered; and no dispatch is pending.
\<close>

theorem session_in_order:
  assumes "reachable s"
  shows "pending s \<le> QUEUE_CAPACITY s \<and> (busy s \<longrightarrow> 0 < pending s) \<and>
    (if busy s then in_flight s = Some (req_id (hd (pending_requests s))) \<and>
       is_known_data_id (req_id (hd (pending_requests s)))
     else in_flight s = Some DATA_ID_NONE) \<and>
    buffered (parser s) < MSG_MAX_LEN \<and> \<not> dispatching s"
proof -
  have ok: "session_ok s" "\<not> dispatching s"
    using reachable_ok [OF assms] by (simp_all add: session_idle_ok_def)
  have "parser_inv (parser s)" "queue_count s \<le> QUEUE_CAPACITY s"
    using ok(1) by (simp_all add: session_ok_def session_inv_def queue_ok_def)
  moreover have "state s = AWAITING \<Longrightarrow> is_known_data_id (req_id (hd (pending_requests s)))"
    using current_admissible [OF ok(1)] by (simp add: admissible_request_def)
  ultimately show ?thesis
    using session_okD(3, 4) [OF ok(1)] ok(2)
    by (cases "state s") (auto simp: busy_def pending_def in_flight_def parser_inv_def buffered_def)
qed

theorem session_in_order_witness:
  "\<exists>s. sample_run = Some s \<and> pending s \<le> QUEUE_CAPACITY s \<and> buffered (parser s) < 13"
  using sample_run_reachable session_in_order by fastforce

end
