(* ===== verification/Transactions.thy ===== *)
theory Transactions
  imports Invariants
begin

text \<open>
  What the session does with its bus: one transmission at a time, deadlines and retries, replies
  that complete a transaction and frames that do not.
\<close>

section \<open>One transmission at a time\<close>

definition silent :: "observable list \<Rightarrow> bool" where
  "silent evs \<longleftrightarrow> (\<forall>f c m. TX f c m \<notin> set evs)"

text \<open>
  Everything emitted comes before the only transmission, which is of the request now in flight.
\<close>

definition one_transmission :: "session \<Rightarrow> session \<Rightarrow> bool" where
  "one_transmission s s' \<longleftrightarrow>
    (\<exists>evs txs. trace s' = trace s @ evs @ txs \<and> silent evs \<and>
      (txs = [] \<or> busy s' \<and> (\<exists>f c. txs = [TX f c (request_frame s' (hd (pending_requests s')))])))"

lemma silent_simps [simp]:
  "silent []" "silent (EMIT e # evs) = silent evs" "silent (HANDLER f c e # evs) = silent evs"
  "silent (TX f c m # evs) = False" "silent (evs @ evs') \<longleftrightarrow> silent evs \<and> silent evs'"
  "silent (handler_entry fn c e)"
  by (auto simp: silent_def handler_entry_def split: option.splits)

lemma silent_owner_entry [simp]: "silent (owner_entry s e)"
  by (simp add: owner_entry_def Let_def)

lemma one_transmission_refl [simp]: "one_transmission s s"
  unfolding one_transmission_def by (intro exI [of _ "[]"]) simp

lemma one_transmission_from:
  assumes "one_transmission t s'" and "trace t = trace s @ evs" and "silent evs"
  shows "one_transmission s s'"
proof -
  from assms(1) obtain e x where ex: "trace s' = trace t @ e @ x" "silent e"
    "x = [] \<or> busy s' \<and> (\<exists>f c. x = [TX f c (request_frame s' (hd (pending_requests s')))])"
    by (auto simp: one_transmission_def)
  with assms(2, 3) show ?thesis
    unfolding one_transmission_def by (intro exI [of _ "evs @ e"] exI [of _ x]) simp
qed

lemma started_pending [simp]: "pending_requests (started h s) = pending_requests s"
  by (simp add: started_def pending_requests_def)

lemma pump_one_transmission:
  assumes "queue_ok s" and "pump s = Some s'"
  shows "one_transmission s s'" and "queue_ok s'"
proof -
  have st: "trace (started h s) = trace s @ tx_outputs s h" "busy (started h s)"
    "request_frame (started h s) h = request_frame s h" for h
    by (simp_all add: started_def busy_def request_frame_def)
  have "one_transmission s (started (hd (pending_requests s)) s)"
    unfolding one_transmission_def
    by (rule exI [of _ "[]"], rule exI [of _ "tx_outputs s (hd (pending_requests s))"])
      (auto simp: st tx_outputs_def split: option.splits)
  with pump_total [OF assms(1)] assms(2) show "one_transmission s s'" "queue_ok s'"
    by (cases "state s"; cases "queue_count s = 0"; auto)+
qed

lemma complete_one_transmission:
  assumes "queue_ok s" and "state s = AWAITING \<longrightarrow> queue_count s \<noteq> 0" and "complete s = Some s'"
  shows "one_transmission s s'"
proof -
  let ?t = "(if state s = AWAITING then pop_request s else s)\<lparr>state := IDLE\<rparr>"
  have "queue_ok ?t"
    using pop_request_ok(1) [OF assms(1)] assms(1, 2)
    by (auto simp: queue_ok_def QUEUE_CAPACITY_def pending_requests_def)
  moreover have "pump ?t = Some s'" using assms(3) by (simp only: complete_def Let_def)
  ultimately have "one_transmission ?t s'" by (rule pump_one_transmission)
  then show ?thesis by (rule one_transmission_from [where evs = "[]"]) (simp_all add: pop_request_def)
qed

text \<open>All that is needed of the session for this.\<close>

definition in_step :: "session \<Rightarrow> bool" where
  "in_step s \<longleftrightarrow> queue_ok s \<and> (state s = AWAITING \<longrightarrow> queue_count s \<noteq> 0)"

lemma session_ok_in_step: "session_ok s \<Longrightarrow> in_step s"
  using session_okD [of s] by (simp add: in_step_def)

lemma in_step_update:
  assumes "in_step s" and "queue t = queue s" and "queue_head t = queue_head s"
    and "queue_count t = queue_count s" and "state t = state s"
  shows "in_step t"
  using assms by (simp add: in_step_def queue_ok_def QUEUE_CAPACITY_def pending_requests_def)

lemma emit_silent:
  assumes "in_step s" and "emit env e s = Some s'"
  shows "\<exists>evs. trace s' = trace s @ evs \<and> silent evs" and "in_step s'"
proof -
  from emit_handled [of s env e] assms obtain ses where
    h: "handled (s\<lparr>trace := trace s @ EMIT e # owner_entry s e @ ses\<rparr>) s'"
    "\<exists>fn c. ses = handler_entry fn c e" "queue_ok s'" by (auto simp: in_step_def)
  then show "\<exists>evs. trace s' = trace s @ evs \<and> silent evs"
    by (intro exI [of _ "EMIT e # owner_entry s e @ ses"]) (auto dest: handled_trace)
  have "queue_count s' \<noteq> 0" if "pending_requests s' = pending_requests s @ new" "queue_count s \<noteq> 0" for new
    using that by (metis append_is_Nil_conv pending_Nil_iff)
  with h assms(1) show "in_step s'"
    by (auto simp: in_step_def handled_def continued_def abandoned_def)
qed

lemma emit_one_transmission:
  assumes "in_step s" and "emit env e s = Some s'"
  shows "one_transmission s s'"
proof -
  from emit_silent [OF assms] obtain evs where "trace s' = trace s @ evs" "silent evs" by blast
  then show ?thesis
    unfolding one_transmission_def by (intro exI [of _ evs] exI [of _ "[]"]) simp
qed

lemma emit_complete_one_transmission:
  assumes "in_step s" and "emit env e s = Some t" and "complete t = Some s'"
  shows "one_transmission s s'"
proof -
  from emit_silent [OF assms(1, 2)] obtain evs where
    evs: "trace t = trace s @ evs" "silent evs" "in_step t" by blast
  have "one_transmission t s'"
    using complete_one_transmission [OF _ _ assms(3)] evs(3) by (simp add: in_step_def)
  then show ?thesis using evs(1, 2) by (rule one_transmission_from)
qed

lemma handle_single_one_transmission:
  "in_step s \<Longrightarrow> handle_single env i data s = Some s' \<Longrightarrow> one_transmission s s'"
  unfolding handle_single_def Let_def
  by (auto simp: bind_eq_Some_conv split: if_splits option.splits
      intro: emit_complete_one_transmission)

lemma finish_multi_one_transmission:
  "in_step s \<Longrightarrow> finish_multi env i s = Some s' \<Longrightarrow> one_transmission s s'"
  unfolding finish_multi_def Let_def
  by (elim bind_eq_Some_conv [THEN iffD1, elim_format] exE conjE) (rule emit_complete_one_transmission)

text \<open>The part of the session that a frame of a reply in progress does not touch.\<close>

definition same_bus :: "session \<Rightarrow> session \<Rightarrow> bool" where
  "same_bus s t \<longleftrightarrow> trace t = trace s \<and> queue t = queue s \<and> queue_head t = queue_head s \<and>
    queue_count t = queue_count s \<and> state t = state s \<and> host_address t = host_address s \<and>
    retries t = retries s \<and> max_retries t = max_retries s"

lemma in_step_same_bus: "in_step s \<Longrightarrow> same_bus s t \<Longrightarrow> in_step t"
  by (rule in_step_update) (simp_all add: same_bus_def)

lemma handle_multi_cases:
  assumes "handle_multi env i data s = Some s'"
  obtains (reject) e where "emit env e s = Some s'"
  | (page) t where "same_bus s t" "finish_multi env i t = Some s' \<or>
      s' = t\<lparr>deadline_ms := now_ms t + interframe_timeout_ms t\<rparr>"
proof (cases "data ! 0 > MAX_FRAME_INDEX")
  case True
  with assms reject show thesis by (simp add: handle_multi_def)
next
  case False
  define T where "T = (\<lambda>a b. let t = s\<lparr>assembly := a\<rparr>
    in if seen_mask t AND b = 0
       then t\<lparr>seen_mask := seen_mask t OR b, frames_seen := popcount32 (seen_mask t OR b)\<rparr> else t)"
  from assms obtain a b where ab:
    "(if expected_frames (T a b) \<noteq> 0 \<and> frames_seen (T a b) \<ge> expected_frames (T a b)
      then finish_multi env i (T a b)
      else Some ((T a b)\<lparr>deadline_ms := now_ms (T a b) + interframe_timeout_ms (T a b)\<rparr>)) = Some s'"
    unfolding handle_multi_def Let_def if_not_P [OF False] bind_eq_Some_conv T_def by blast
  have "same_bus s (T a b)" by (simp add: T_def Let_def same_bus_def)
  with ab show thesis by (intro page [of "T a b"]) (auto split: if_splits)
qed

lemma handle_multi_one_transmission:
  assumes "in_step s" and "handle_multi env i data s = Some s'"
  shows "one_transmission s s'"
  using assms(2)
proof (cases rule: handle_multi_cases)
  case (reject e)
  with assms(1) show ?thesis by (rule emit_one_transmission)
next
  case (page t)
  from page(2) have "one_transmission t s'"
  proof
    assume "finish_multi env i t = Some s'"
    with in_step_same_bus [OF assms(1) page(1)] show ?thesis by (rule finish_multi_one_transmission)
  next
    assume "s' = t\<lparr>deadline_ms := now_ms t + interframe_timeout_ms t\<rparr>"
    then show ?thesis
      unfolding one_transmission_def by (intro exI [of _ "[]"]) simp
  qed
  then show ?thesis
    by (rule one_transmission_from [where evs = "[]"]) (use page(1) in \<open>simp_all add: same_bus_def\<close>)
qed

lemma append_record_keeps: "append_record data ks s = Some s' \<Longrightarrow> same_bus s s'"
  by (induction ks arbitrary: s) (fastforce simp: same_bus_def split: if_splits Option.bind_splits)+

lemma one_transmission_no_tx:
  assumes "trace s' = trace s @ evs" and "silent evs"
  shows "one_transmission s s'"
  using assms unfolding one_transmission_def by (intro exI [of _ evs] exI [of _ "[]"]) simp

lemma handle_stream_cases:
  assumes "handle_stream env i data s = Some s'"
  obtains (stop) "complete s = Some s'"
  | (next_frame) t u n where "same_bus s t" "u = t \<or> (\<exists>e. emit env e t = Some u)"
      "(if state u \<noteq> AWAITING then pump (u\<lparr>record_len := n\<rparr>)
        else Some (u\<lparr>record_len := n, deadline_ms := now_ms u + interframe_timeout_ms u\<rparr>)) = Some s'"
proof (cases "data ! 0 = FRAME_NO_END")
  case True
  with assms stop show thesis by (simp add: handle_stream_def)
next
  case False
  let ?step = "\<lambda>s. if record_len s \<ge> FAULT_BUFFER_LEN then do {
            let ev = default_event\<lparr>event_id := i, frames := of_nat FAULT_FRAMES_PER_RECORD\<rparr>;
            bytes \<leftarrow> slice (record_buf s) 0 (record_len s);
            s \<leftarrow> (case decode_fault_record (Some bytes) of
                 None \<Rightarrow> Some s
               | Some r \<Rightarrow> emit env (ev\<lparr>payload := P_fault_record r\<rparr>) s);
            Some (s\<lparr>record_len := 0\<rparr>)
          }
          else Some s"
  from assms False obtain s1 v where
    s1: "append_record data [1..<DATA_LEN] s = Some s1"
    and v: "?step (s1\<lparr>frames_seen := frames_seen s1 + 1\<rparr>) = Some v"
    and s': "(if state v \<noteq> AWAITING then pump v
      else Some (v\<lparr>deadline_ms := now_ms v + interframe_timeout_ms v\<rparr>)) = Some s'"
    unfolding handle_stream_def Let_def if_not_P [OF False] bind_eq_Some_conv by blast
  let ?t = "s1\<lparr>frames_seen := frames_seen s1 + 1\<rparr>"
  have t: "same_bus s ?t" using append_record_keeps [OF s1] by (simp add: same_bus_def)
  obtain u n where u: "u = ?t \<or> (\<exists>e. emit env e ?t = Some u)" "v = u\<lparr>record_len := n\<rparr>"
  proof (cases "record_len ?t \<ge> FAULT_BUFFER_LEN")
    case True
    with v obtain w where "w = ?t \<or> (\<exists>e. emit env e ?t = Some w)" "v = w\<lparr>record_len := 0\<rparr>"
      by (auto simp: Let_def bind_eq_Some_conv split: option.splits)
    then show thesis by (rule that)
  next
    case False
    with v have "v = ?t\<lparr>record_len := record_len ?t\<rparr>" by simp
    with that [of ?t "record_len ?t"] show thesis by blast
  qed
  from s' have "(if state u \<noteq> AWAITING then pump (u\<lparr>record_len := n\<rparr>)
        else Some (u\<lparr>record_len := n, deadline_ms := now_ms u + interframe_timeout_ms u\<rparr>)) = Some s'"
    unfolding u(2) by (cases "state u") simp_all
  with t u(1) show thesis by (rule next_frame)
qed

lemma handle_stream_one_transmission:
  assumes "in_step s" and "handle_stream env i data s = Some s'"
  shows "one_transmission s s'"
  using assms(2)
proof (cases rule: handle_stream_cases)
  case stop
  with assms(1) show ?thesis using complete_one_transmission [of s s'] by (simp add: in_step_def)
next
  case (next_frame t u n)
  have t: "in_step t" "trace t = trace s"
    using in_step_same_bus [OF assms(1) next_frame(1)] next_frame(1) by (simp_all add: same_bus_def)
  then obtain evs where u: "in_step u" "trace u = trace s @ evs" "silent evs"
    using next_frame(2) emit_silent [of t env] by (metis append_Nil2 silent_simps(1))
  let ?v = "u\<lparr>record_len := n\<rparr>"
  have v: "in_step ?v" by (rule in_step_update [OF u(1)]) simp_all
  have "one_transmission ?v s'"
  proof (cases "state u = AWAITING")
    case True
    with next_frame(3) show ?thesis by (auto intro: one_transmission_no_tx [of _ _ "[]"])
  next
    case False
    with next_frame(3) v show ?thesis by (auto simp: in_step_def intro: pump_one_transmission)
  qed
  then show ?thesis using u(2, 3) by (intro one_transmission_from [of ?v s' s evs]) simp_all
qed

lemma on_frame_one_transmission:
  assumes "in_step s" and "on_frame env frame s = Some s'"
  shows "one_transmission s s'"
proof (cases "state s = AWAITING \<and> frame ! MSG_ADDRESS_INDEX = bms_address s \<and>
    head s \<noteq> None \<and> frame ! MSG_DATA_ID_INDEX = req_id (the (head s))")
  case True
  let ?i = "frame ! MSG_DATA_ID_INDEX" and ?s = "note_counts (frame ! MSG_DATA_ID_INDEX) (data_of frame) s"
  have st: "in_step ?s" by (rule in_step_update [OF assms(1)]) (simp_all add: note_counts_def)
  have "one_transmission ?s s'"
    using True assms(2) handle_single_one_transmission [OF st] handle_stream_one_transmission [OF st]
      handle_multi_one_transmission [OF st]
    by (auto simp: on_frame_def Let_def split: if_splits)
  then show ?thesis by (rule one_transmission_from [where evs = "[]"]) simp_all
next
  case False
  with assms show ?thesis
    by (auto simp: on_frame_def Let_def bind_eq_Some_conv split: if_splits intro: emit_one_transmission)
qed

lemma tick_one_transmission:
  assumes "in_step s" and "tick env now s = Some s'"
  shows "one_transmission s s'"
proof -
  let ?s = "s\<lparr>now_ms := now\<rparr>"
  have st: "in_step ?s" by (rule in_step_update [OF assms(1)]) simp_all
  have "one_transmission ?s s'"
  proof (cases "state s = AWAITING \<and> expired now (deadline_ms s)")
    case False
    with assms(2) show ?thesis by (auto simp: tick_def Let_def)
  next
    case True
    then have h: "head ?s = Some (hd (pending_requests ?s))"
      using head_pending [of ?s] st by (simp add: in_step_def)
    let ?i = "req_id (hd (pending_requests ?s))"
    from assms(2) h True have "finish_multi env ?i ?s = Some s' \<or>
        (\<exists>e t. emit env e ?s = Some t \<and> complete t = Some s') \<or>
        transmit (?s\<lparr>retries := retries s + 1\<rparr>) = Some s'"
      by (auto simp: tick_def Let_def bind_eq_Some_conv split: if_splits)
    then show ?thesis
    proof (elim disjE exE conjE)
      assume "finish_multi env ?i ?s = Some s'"
      with st show ?thesis by (rule finish_multi_one_transmission)
    next
      fix e t assume "emit env e ?s = Some t" "complete t = Some s'"
      with st show ?thesis by (rule emit_complete_one_transmission)
    next
      let ?r = "?s\<lparr>retries := retries s + 1\<rparr>"
      assume "transmit ?r = Some s'"
      moreover have "head ?r = Some (hd (pending_requests ?s))" using h by (simp add: head_def)
      ultimately have s': "s' = ?r\<lparr>trace := trace ?r @ tx_outputs ?r (hd (pending_requests ?s)),
          deadline_ms := now_ms ?r + response_timeout_ms ?r\<rparr>"
        by (simp add: transmit_eq)
      have "pending_requests s' = pending_requests ?s" "busy s'"
        "request_frame s' h = request_frame ?r h" for h
        using True by (simp_all add: s' pending_requests_def busy_def request_frame_def)
      then show ?thesis
        unfolding one_transmission_def
        by (intro exI [of _ "[]"] exI [of _ "tx_outputs ?r (hd (pending_requests ?s))"])
          (auto simp: s' tx_outputs_def split: option.splits)
    qed
  qed
  then show ?thesis by (rule one_transmission_from [where evs = "[]"]) simp_all
qed

text \<open>
  C9: one transmission at a time.  A tick, and each frame that arrives, causes at most one call
  of the TX handler; it comes after every event and every handler call, and carries the frame of
  the request that is then in flight.
\<close>

theorem one_transmission_at_a_time:
  assumes "reachable s" and "tick env now s = Some s' \<or> on_frame env frame s = Some s'"
  shows "\<exists>evs txs. trace s' = trace s @ evs @ txs \<and> (\<forall>f c m. TX f c m \<notin> set evs) \<and>
    (txs = [] \<or> busy s' \<and> (\<exists>f c. txs = [TX f c (request_frame s' (hd (pending_requests s')))]))"
proof -
  have "in_step s"
    using reachable_ok [OF assms(1)] session_ok_in_step by (simp add: session_idle_ok_def)
  then have "one_transmission s s'"
    using assms(2) tick_one_transmission on_frame_one_transmission by blast
  then show ?thesis by (simp add: one_transmission_def silent_def)
qed

theorem one_transmission_at_a_time_witness:
  "\<exists>s s' evs txs. sample_run = Some s \<and> tick quiet_env 900 s = Some s' \<and>
    trace s' = trace s @ evs @ txs \<and> silent evs \<and> length txs \<le> 1"
proof -
  from sample_run_reachable obtain s where s: "sample_run = Some s" "reachable s" by blast
  from api_ok [OF reachable_ok [OF s(2)], of "Api_tick quiet_env 900"] obtain s' where
    s': "tick quiet_env 900 s = Some s'" by auto
  from one_transmission_at_a_time [OF s(2), of quiet_env 900 s'] s' obtain evs txs where
    t: "trace s' = trace s @ evs @ txs" "\<forall>f c m. TX f c m \<notin> set evs"
    and x: "txs = [] \<or> busy s' \<and>
      (\<exists>f c. txs = [TX f c (request_frame s' (hd (pending_requests s')))])" by blast
  from x have "length txs \<le> 1" by auto
  moreover from t(2) have "silent evs" by (simp add: silent_def)
  ultimately show ?thesis using s(1) s' t(1) by blast
qed

end
