(* ===== verification/Timing.thy ===== *)
theory Timing
  imports Transactions
begin

text \<open>
  Deadlines, retransmissions and timeouts: what \<open>tick\<close> does to a transaction.
\<close>

section \<open>Deadlines\<close>

text \<open>
  C28: the deadline test survives the roll-over of the clock.  Up to half the range of the counter
  after a deadline it has expired, and up to half the range before it has not, whatever the values.
\<close>

theorem deadline_wrap_safe:
  "(d < 2 ^ 31 \<longrightarrow> expired (dl + of_nat d) dl) \<and>
   (0 < d \<and> d \<le> 2 ^ 31 \<longrightarrow> \<not> expired (dl - of_nat d) dl)"
proof -
  have "unat (of_nat d :: u32) = d" if "d < 2 ^ 31"
    using that by (simp add: unsigned_of_nat take_bit_nat_eq_self)
  moreover have "unat (- of_nat d :: u32) = 2 ^ 32 - d" if "0 < d" "d \<le> 2 ^ 31"
  proof -
    have "- (of_nat d :: u32) = of_nat (2 ^ 32 - d)"
      using that by (simp add: of_nat_diff)
    moreover have "unat (of_nat (2 ^ 32 - d) :: u32) = 2 ^ 32 - d"
      using that by (simp add: unsigned_of_nat take_bit_nat_eq_self del: of_nat_diff)
    ultimately show ?thesis by (simp only:)
  qed
  ultimately show ?thesis by (auto simp: expired_unat)
qed

theorem deadline_wrap_safe_witness:
  "expired 5 0xFFFFFFF0 \<and> \<not> expired 0xFFFFFFF0 5"
proof -
  have "(0xFFFFFFF0 + of_nat 21 :: u32) = 5" and "(5 - of_nat 21 :: u32) = 0xFFFFFFF0" by simp_all
  moreover have "expired (0xFFFFFFF0 + of_nat 21) 0xFFFFFFF0"
    by (rule deadline_wrap_safe [THEN conjunct1, THEN mp]) simp
  moreover have "\<not> expired (5 - of_nat 21) 5"
    by (rule deadline_wrap_safe [THEN conjunct2, THEN mp]) simp
  ultimately show ?thesis by (simp only:) simp
qed

lemma expired_now [simp]: "expired t t"
  by (simp add: expired_unat)

section \<open>Retransmission and timeout\<close>

lemma tick_early:
  "state s \<noteq> AWAITING \<or> \<not> expired now (deadline_ms s) \<Longrightarrow> tick env now s = Some (s\<lparr>now_ms := now\<rparr>)"
  by (simp add: tick_def)

lemma head_update [simp]:
  "head (s\<lparr>now_ms := t\<rparr>) = head s" "head (s\<lparr>retries := n\<rparr>) = head s"
  by (simp_all add: head_def)

lemma tx_outputs_update [simp]:
  "tx_outputs (s\<lparr>now_ms := t\<rparr>) h = tx_outputs s h" "tx_outputs (s\<lparr>retries := n\<rparr>) h = tx_outputs s h"
  "tx_outputs (s\<lparr>trace := tr\<rparr>) h = tx_outputs s h"
  "tx_outputs (s\<lparr>deadline_ms := t\<rparr>) h = tx_outputs s h"
  by (simp_all add: tx_outputs_def request_frame_def split: option.split)

text \<open>Part of the reply has been accepted.\<close>

definition answered :: "session \<Rightarrow> bool" where
  "answered s \<longleftrightarrow> frames_seen s \<noteq> 0 \<and> multi (current_info s)"

lemma not_answered [intro]: "frames_seen s = 0 \<Longrightarrow> \<not> answered s"
  by (simp add: answered_def)

lemma tick_unanswered:
  assumes "session_ok s" and "state s = AWAITING" and "expired now (deadline_ms s)"
    and "\<not> answered s"
  shows "tick env now s = (let t = s\<lparr>now_ms := now\<rparr>
    in if retries s < max_retries s then transmit (t\<lparr>retries := retries s + 1\<rparr>)
       else emit env (default_event\<lparr>kind := TIMEOUT, event_id := req_id (hd (pending_requests s)),
         error := ERR_NONE, event_retries := retries s\<rparr>) t \<bind> complete)"
proof -
  have "head s = Some (hd (pending_requests s))" by (rule session_okD(4) [OF assms(1, 2)])
  moreover have "streaming (multiframe_info i) \<Longrightarrow> multi (multiframe_info i)" for i
    by (simp add: streaming_iff multi_iff)
  ultimately show ?thesis
    using assms(2-4) by (auto simp: tick_def Let_def answered_def current_info_def word_gt_0)
qed

lemma tick_retransmits:
  assumes "session_ok s" and "state s = AWAITING" and "expired now (deadline_ms s)"
    and "\<not> answered s" and "retries s < max_retries s"
  shows "tick env now s = Some (s\<lparr>now_ms := now, retries := retries s + 1,
    trace := trace s @ tx_outputs s (hd (pending_requests s)),
    deadline_ms := now + response_timeout_ms s\<rparr>)"
proof -
  let ?t = "s\<lparr>now_ms := now, retries := retries s + 1\<rparr>"
  have h: "head s = Some (hd (pending_requests s))" by (rule session_okD(4) [OF assms(1, 2)])
  have "tick env now s = transmit ?t"
    unfolding tick_unanswered [OF assms(1-4)] Let_def using assms(5) by simp
  also have "\<dots> = Some (?t\<lparr>trace := trace ?t @ tx_outputs ?t (hd (pending_requests s)),
      deadline_ms := now_ms ?t + response_timeout_ms ?t\<rparr>)"
    by (rule transmit_eq) (simp add: h)
  finally show ?thesis by simp
qed

definition timeout_event :: "data_id \<Rightarrow> u8 \<Rightarrow> event" where
  "timeout_event i n = default_event\<lparr>kind := TIMEOUT, event_id := i, event_retries := n\<rparr>"

lemma tick_times_out:
  assumes "session_ok s" and "state s = AWAITING" and "expired now (deadline_ms s)"
    and "\<not> answered s" and "\<not> retries s < max_retries s"
  shows "tick env now s =
    emit env (timeout_event (req_id (hd (pending_requests s))) (retries s)) (s\<lparr>now_ms := now\<rparr>) \<bind> complete"
proof -
  have "error default_event = ERR_NONE" by (simp add: default_event_def)
  then have "timeout_event i n = default_event\<lparr>kind := TIMEOUT, event_id := i, error := ERR_NONE,
      event_retries := n\<rparr>" for i n
    by (simp add: timeout_event_def)
  then show ?thesis
    unfolding tick_unanswered [OF assms(1-4)] Let_def using assms(5) by simp
qed

text \<open>The clock reaching the deadline \<open>n\<close> times in a row, with nothing received.\<close>

primrec expire :: "environment \<Rightarrow> nat \<Rightarrow> session \<Rightarrow> session option" where
  "expire env 0 s = Some s"
| "expire env (Suc n) s = tick env (deadline_ms s) s \<bind> expire env n"

lemma expire_retransmits:
  assumes "session_ok s" and "state s = AWAITING" and "\<not> answered s"
    and "unat (retries s) + n \<le> unat (max_retries s)"
  shows "\<exists>s'. expire env n s = Some s' \<and> session_ok s' \<and> state s' = AWAITING \<and> \<not> answered s' \<and>
    retries s' = retries s + of_nat n \<and> max_retries s' = max_retries s \<and>
    pending_requests s' = pending_requests s \<and>
    trace s' = trace s @ concat (replicate n (tx_outputs s (hd (pending_requests s))))"
  using assms
proof (induction n arbitrary: s)
  case (Suc n)
  let ?t = "s\<lparr>now_ms := deadline_ms s, retries := retries s + 1,
    trace := trace s @ tx_outputs s (hd (pending_requests s)),
    deadline_ms := deadline_ms s + response_timeout_ms s\<rparr>"
  from Suc.prems(4) have lt: "retries s < max_retries s" by (simp add: word_less_nat_alt)
  have t: "tick env (deadline_ms s) s = Some ?t"
    by (rule tick_retransmits [OF Suc.prems(1, 2) _ Suc.prems(3) lt]) simp
  have ok: "session_ok ?t"
    using tick_ok [OF Suc.prems(1), of env "deadline_ms s"] by (simp add: t)
  have p: "pending_requests ?t = pending_requests s" by (simp add: pending_requests_def)
  have "unat (retries s) + 1 < 256"
    using Suc.prems(4) less_256_of_nat [of "max_retries s"] by linarith
  then have "unat (retries s + 1) = unat (retries s) + 1" by (subst unat_word_ariths(1)) simp
  then have "unat (retries ?t) + n \<le> unat (max_retries ?t)" using Suc.prems(4) by simp
  moreover have "\<not> answered ?t"
    using Suc.prems(3) by (simp add: answered_def current_info_def pending_requests_def)
  ultimately obtain s' where
    s': "expire env n ?t = Some s'" "session_ok s'" "state s' = AWAITING" "\<not> answered s'"
      "retries s' = retries ?t + of_nat n" "max_retries s' = max_retries s"
      "pending_requests s' = pending_requests s"
      "trace s' = trace ?t @ concat (replicate n (tx_outputs ?t (hd (pending_requests ?t))))"
    using Suc.IH [OF ok] Suc.prems(2) p by auto
  have "tx_outputs ?t h = tx_outputs s h" for h by simp
  with s' p t show ?case by (simp add: algebra_simps)
qed simp

text \<open>
  C18: an unanswered request is sent again at each of its deadlines until the limit, and then
  reported as a timeout.  From any reachable state with a request in flight of whose reply nothing
  was accepted, the deadline passing once for every retry left retransmits its frame as many times
  and emits nothing; the next deadline emits \<open>TIMEOUT\<close> for it with the limit as its count of
  retransmissions, and the request leaves the queue.
\<close>

theorem retries_then_timeout:
  assumes "reachable s" and "busy s" and "frames_seen s = 0" and "retries s \<le> max_retries s"
    and "n = unat (max_retries s) - unat (retries s)"
  shows "\<exists>s1 s2 rest. expire env n s = Some s1 \<and>
    trace s1 = trace s @ concat (replicate n (tx_outputs s (hd (pending_requests s)))) \<and>
    pending_requests s1 = pending_requests s \<and>
    tick env (deadline_ms s1) s1 = Some s2 \<and>
    trace s2 = trace s1 @ EMIT (timeout_event (req_id (hd (pending_requests s))) (max_retries s)) # rest"
proof -
  from reachable_ok [OF assms(1)] assms(2) have ok: "session_ok s" "state s = AWAITING"
    by (cases "state s"; simp add: session_idle_ok_def busy_def)+
  have "unat (retries s) + n \<le> unat (max_retries s)" using assms(4, 5) by (simp add: word_le_nat_alt)
  from expire_retransmits [OF ok not_answered [OF assms(3)] this, of env] obtain s1 where
    s1: "expire env n s = Some s1" "session_ok s1" "state s1 = AWAITING" "\<not> answered s1"
      "retries s1 = retries s + of_nat n" "max_retries s1 = max_retries s"
      "pending_requests s1 = pending_requests s"
      "trace s1 = trace s @ concat (replicate n (tx_outputs s (hd (pending_requests s))))" by blast
  have r: "retries s1 = max_retries s"
    using s1(5) assms(4, 5) by (simp add: of_nat_diff word_le_nat_alt)
  let ?e = "timeout_event (req_id (hd (pending_requests s))) (max_retries s)"
  have "tick env (deadline_ms s1) s1 = emit env ?e (s1\<lparr>now_ms := deadline_ms s1\<rparr>) \<bind> complete"
    using tick_times_out [OF s1(2, 3) _ s1(4), of "deadline_ms s1" env] s1(6, 7) r by simp
  moreover from tick_ok [OF s1(2), of env "deadline_ms s1"] obtain s2 where
    s2: "tick env (deadline_ms s1) s1 = Some s2" by (auto simp: fine_def)
  ultimately have "emit env ?e (s1\<lparr>now_ms := deadline_ms s1\<rparr>) \<bind> complete = Some s2" by simp
  then obtain t where t: "emit env ?e (s1\<lparr>now_ms := deadline_ms s1\<rparr>) = Some t" "complete t = Some s2"
    by (auto simp: bind_eq_Some_conv)
  from emit_handled [of "s1\<lparr>now_ms := deadline_ms s1\<rparr>" env ?e] session_okD(1) [of "s1\<lparr>now_ms := deadline_ms s1\<rparr>"]
    s1(2) t(1) obtain ses where
    "handled ((s1\<lparr>now_ms := deadline_ms s1\<rparr>)\<lparr>trace := trace s1 @ EMIT ?e # ses\<rparr>) t" "queue_ok t"
    by auto
  then have tr: "trace t = trace s1 @ EMIT ?e # ses" by (simp add: handled_trace)
  have "in_step t" using emit_silent(2) [OF _ t(1)] session_ok_in_step s1(2) by simp
  then have "one_transmission t s2"
    using complete_one_transmission [OF _ _ t(2)] by (simp add: in_step_def)
  then obtain more where "trace s2 = trace t @ more" by (auto simp: one_transmission_def)
  with tr s1 s2 show ?thesis by auto
qed

text \<open>A request in flight, just sent.\<close>

definition asked_run :: "session option" where
  "asked_run = run_from_start [Api_call (Poll_rtc None 0)]"

lemma asked_run_state:
  "map_option (\<lambda>s. (busy s, content (parser s), frames_seen s, retries s, max_retries s,
     map (\<lambda>h. (req_id h, on_event h)) (pending_requests s), bms_address s)) asked_run =
   Some (True, [], 0, 0, 1, [(RTC, None)], 1)"
  by code_simp

theorem retries_then_timeout_witness:
  "\<exists>s s1 s2 rest. asked_run = Some s \<and> expire quiet_env 1 s = Some s1 \<and>
    tick quiet_env (deadline_ms s1) s1 = Some s2 \<and>
    trace s2 = trace s1 @ EMIT (timeout_event RTC 1) # rest"
proof -
  from run_from_start_reachable obtain s where s: "asked_run = Some s" "reachable s"
    unfolding asked_run_def by blast
  have st: "busy s" "frames_seen s = 0" "retries s = 0" "max_retries s = 1"
    and "map (\<lambda>h. (req_id h, on_event h)) (pending_requests s) = [(RTC, None)]"
    using asked_run_state unfolding s(1) by simp_all
  then have "req_id (hd (pending_requests s)) = RTC" by (cases "pending_requests s") auto
  with retries_then_timeout [OF s(2) st(1, 2), of 1 quiet_env] st(3, 4) s(1) show ?thesis by auto
qed

end
