(* ===== verification/Replies.thy ===== *)
theory Replies
  imports Timing
begin

text \<open>
  Replies from the device, byte by byte: how the frames of a reply reach \<open>on_frame\<close> through
  \<open>feed\<close>, what a single-frame reply does, and how a paginated reply is put back together.
\<close>

section \<open>Feeding whole frames\<close>

lemma put_parser_simps [simp]:
  "parser (put_parser p s) = p" "put_parser p (put_parser q s) = put_parser p s"
  "put_parser (parser s) s = s"
  by (simp_all add: put_parser_def)

lemma feed_no_output:
  assumes "parser_inv (parser s)" and "spec_run bs (content (parser s)) = (c, n, [])"
  shows "\<exists>p. parser_inv p \<and> content p = c \<and>
    (\<forall>rest. feed_with parser put_parser sink err (bs @ rest) s =
      feed_with parser put_parser sink err rest (put_parser p s))"
  using assms
proof (induction bs arbitrary: s c n)
  case Nil
  then show ?case by (intro exI [of _ "parser s"]) simp
next
  case (Cons b bs)
  obtain c1 n1 out where s1: "spec_byte b (content (parser s)) = (c1, n1, out)" by (metis prod_cases3)
  obtain c2 n2 outs2 where s2: "spec_run bs c1 = (c2, n2, outs2)" by (metis prod_cases3)
  from Cons.prems(2) s1 s2 have eq: "out = None" "outs2 = []" "c2 = c"
    by (auto split: option.splits)
  from feed_byte_refines [OF Cons.prems(1) s1] obtain p1 where p1:
    "feed_byte b (parser s) = Some (p1, None)" "parser_inv p1" "content p1 = c1"
    by (auto simp: eq)
  have "parser_inv (parser (put_parser p1 s))" "spec_run bs (content (parser (put_parser p1 s))) = (c, n2, [])"
    using p1 s2 eq by simp_all
  from Cons.IH [OF this] p1(1) show ?case by (auto simp: deliver_def)
qed

lemma feed_wire_frame:
  assumes "wire_frame f" and "parser_inv (parser s)" and "content (parser s) = []"
  shows "\<exists>p. parser_inv p \<and> content p = [] \<and>
    (\<forall>rest. feed env (Some (f @ rest)) s = on_frame env f (put_parser p s) \<bind> feed env (Some rest))"
proof -
  from assms(1) have f: "length f = 13" "f ! 12 = calc_chksum f"
    by (simp_all add: wire_frame_def valid_frame_def)
  have split: "f = take 12 f @ [f ! 12]"
    using f(1) take_Suc_conv_app_nth [of 12 f] by simp
  have "spec_run (take 12 f) (content (parser s)) = (take 12 f, 0, [])"
    using wire_prefix [OF assms(1), of 12] assms(3) by simp
  from feed_no_output [OF assms(2) this, of "Some (on_frame env)" "Some (on_frame_error env)"]
  obtain q where q: "parser_inv q" "content q = take 12 f"
    "\<And>rest. feed_with parser put_parser (Some (on_frame env)) (Some (on_frame_error env)) (take 12 f @ rest) s =
      feed_with parser put_parser (Some (on_frame env)) (Some (on_frame_error env)) rest (put_parser q s)"
    by blast
  have "spec_byte (f ! 12) (content q) = ([], 0, Some (FrameOut f))"
    using f split q(2) by (auto simp: spec_byte_def Let_def)
  from feed_byte_refines [OF q(1) this] obtain p where p:
    "feed_byte (f ! 12) q = Some (p, Some (FrameOut f))" "parser_inv p" "content p = []" by auto
  have "feed env (Some (f @ rest)) s = on_frame env f (put_parser p s) \<bind> feed env (Some rest)" for rest
  proof -
    have eq: "f @ rest = take 12 f @ f ! 12 # rest" using split by (metis append_Cons append_Nil append_assoc)
    show ?thesis
      unfolding feed_def parser_feed_def by (subst eq) (simp add: q(3) p(1) deliver_def)
  qed
  with p(2, 3) show ?thesis by blast
qed

lemma feed_nothing [simp]: "feed env (Some []) = Some"
  by (simp add: fun_eq_iff feed_def parser_feed_def)

text \<open>
  Sessions set up alike: the addresses, handlers and counts that decide what the replies to come
  mean and show.
\<close>

definition same_setup :: "session \<Rightarrow> session \<Rightarrow> bool" where
  [simp]: "same_setup s t \<longleftrightarrow> host_address t = host_address s \<and> bms_address t = bms_address s \<and>
    tx_fn t = tx_fn s \<and> tx_ctx t = tx_ctx s \<and> event_fn t = event_fn s \<and> event_ctx t = event_ctx s \<and>
    cached_cell_count t = cached_cell_count s \<and> cached_temp_count t = cached_temp_count s"

text \<open>The frame the device answers with.\<close>

definition reply_frame :: "session \<Rightarrow> data_id \<Rightarrow> data_bytes \<Rightarrow> message_bytes" where
  "reply_frame s i data = encode (bms_address s) i data"

lemma reply_frame_fields:
  assumes "length data = 8"
  shows "wire_frame (reply_frame s i data)" and "length (reply_frame s i data) = 13"
    and "reply_frame s i data ! MSG_ADDRESS_INDEX = bms_address s"
    and "reply_frame s i data ! MSG_DATA_ID_INDEX = i" and "data_of (reply_frame s i data) = data"
  using encode_fields [OF assms, of "bms_address s" i] encode_wire_frame [OF assms, of "bms_address s" i]
  by (simp_all add: reply_frame_def)

lemma on_reply:
  assumes "session_ok s" and "state s = AWAITING" and "i = req_id (hd (pending_requests s))"
    and "length data = 8"
  shows "on_frame env (reply_frame s i data) s =
    (if \<not> multi (multiframe_info i) then handle_single env i data (note_counts i data s)
     else if streaming (multiframe_info i) then handle_stream env i data (note_counts i data s)
     else handle_multi env i data (note_counts i data s))"
  using session_okD(4) [OF assms(1, 2)] reply_frame_fields [OF assms(4), of s i] assms(2, 3)
  by (simp add: on_frame_def Let_def)

section \<open>Single-frame replies\<close>

text \<open>An event, the handlers it runs, and at most one transmission at the end.\<close>

fun handler_call :: "event \<Rightarrow> observable \<Rightarrow> bool" where
  "handler_call e (HANDLER f c e') \<longleftrightarrow> e' = e"
| "handler_call e x \<longleftrightarrow> False"

fun transmission :: "observable \<Rightarrow> bool" where
  "transmission (TX f c m) \<longleftrightarrow> True"
| "transmission x \<longleftrightarrow> False"

definition reports :: "event \<Rightarrow> session \<Rightarrow> session \<Rightarrow> bool" where
  "reports e s s' \<longleftrightarrow> (\<exists>calls txs. trace s' = trace s @ EMIT e # calls @ txs \<and>
    list_all (handler_call e) calls \<and> list_all transmission txs \<and> length txs \<le> 1)"

lemma handler_entry_calls [simp]: "list_all (handler_call e) (handler_entry fn c e)"
  by (cases fn) simp_all

lemma owner_entry_calls [simp]: "list_all (handler_call e) (owner_entry s e)"
  by (simp add: owner_entry_def Let_def)

lemma tx_outputs_transmission [simp]:
  "list_all transmission (tx_outputs s h)" "length (tx_outputs s h) \<le> 1"
  by (simp_all add: tx_outputs_def split: option.split)

lemma complete_outputs:
  assumes "in_step s" and "complete s = Some s'"
  shows "\<exists>txs. trace s' = trace s @ txs \<and> list_all transmission txs \<and> length txs \<le> 1"
proof -
  let ?t = "(if state s = AWAITING then pop_request s else s)\<lparr>state := IDLE\<rparr>"
  have "queue_ok ?t"
    using pop_request_ok(1) [of s] assms(1)
    by (auto simp: in_step_def queue_ok_def QUEUE_CAPACITY_def pending_requests_def)
  moreover have "pump ?t = Some s'" using assms(2) by (simp only: complete_def Let_def)
  ultimately have "s' = ?t \<or> s' = started (hd (pending_requests ?t)) ?t"
    using pump_total [of ?t] by (cases "queue_count ?t = 0") auto
  moreover have "trace ?t = trace s" by (simp add: pop_request_def)
  moreover have "trace (started h t) = trace t @ tx_outputs t h" for h t by (simp add: started_def)
  ultimately show ?thesis by (metis append_Nil2 le0 list.pred_inject(1) list.size(3) tx_outputs_transmission)
qed

lemma emit_complete_reports:
  assumes "in_step s" and "emit env e s \<bind> complete = Some s'"
  shows "reports e s s'"
proof -
  from assms(2) obtain t where t: "emit env e s = Some t" "complete t = Some s'"
    by (auto simp: bind_eq_Some_conv)
  from emit_handled [of s env e] assms(1) t(1) obtain ses where
    h: "handled (s\<lparr>trace := trace s @ EMIT e # owner_entry s e @ ses\<rparr>) t"
    and ses: "\<exists>fn c. ses = handler_entry fn c e" by (auto simp: in_step_def)
  from h have tr: "trace t = trace s @ EMIT e # owner_entry s e @ ses" by (simp add: handled_trace)
  from complete_outputs [OF emit_silent(2) [OF assms(1) t(1)] t(2)] obtain txs where
    "trace s' = trace t @ txs" "list_all transmission txs" "length txs \<le> 1" by blast
  with tr ses show ?thesis
    unfolding reports_def by (intro exI [of _ "owner_entry s e @ ses"] exI [of _ txs]) auto
qed

lemma reports_from: "reports e t s' \<Longrightarrow> trace t = trace s \<Longrightarrow> reports e s s'"
  by (simp add: reports_def)

definition single_reply_event :: "request \<Rightarrow> data_bytes \<Rightarrow> event" where
  "single_reply_event h data =
    (let i = req_id h; ev = default_event\<lparr>event_id := i, frames := 1\<rparr>;
         requested = (req_data h ! 0 \<noteq> 0); reported = (data ! 0 \<noteq> 0);
         ack = ev\<lparr>payload := P_mos_control_ack (mos_control_ack.make requested reported)\<rparr>
     in if i \<in> set mos_ids
        then if requested = reported then ack
          else ack\<lparr>kind := PROTOCOL_ERROR, error := ERR_WRITE_REJECTED\<rparr>
        else ev\<lparr>payload := the (decode_single i data)\<rparr>)"

lemma handle_single_eq:
  assumes "head s = Some h" and "req_id h = i" and "admissible_request h"
    and "\<not> multi (multiframe_info i)"
  shows "handle_single env i data s = emit env (single_reply_event h data) s \<bind> complete"
proof (cases "i \<in> set mos_ids")
  case True
  then have "i = DISCHARGE_MOS_CONTROL \<or> i = CHARGE_MOS_CONTROL" by (auto simp: mos_ids_def)
  with True assms(1, 2, 3) show ?thesis
    by (simp add: handle_single_def single_reply_event_def Let_def admissible_request_def)
next
  case False
  then have no: "\<not> (i = DISCHARGE_MOS_CONTROL \<or> i = CHARGE_MOS_CONTROL)" by (auto simp: mos_ids_def)
  have "i \<in> set single_ids \<or> is_alarm_threshold_id i"
    using assms(2-4) False by (auto simp: admissible_request_def known_ids_iff multi_iff)
  then obtain p where "decode_single i data = Some p"
    using decode_single_cases [of i data] by auto
  with no False assms(2) show ?thesis
    by (simp add: handle_single_def single_reply_event_def Let_def)
qed

text \<open>What the bytes of the reply run: the event, then the next request.\<close>

lemma feed_single_reply_then:
  assumes "session_idle_ok s" and "busy s" and "content (parser s) = []" and "length data = DATA_LEN"
    and "\<not> multi (multiframe_info (req_id (hd (pending_requests s))))"
  shows "\<exists>p. parser_inv p \<and> content p = [] \<and>
    (\<forall>rest. feed env (Some (reply_frame s (req_id (hd (pending_requests s))) data @ rest)) s =
      emit env (single_reply_event (hd (pending_requests s)) data)
        (note_counts (req_id (hd (pending_requests s))) data (put_parser p s)) \<bind> complete \<bind>
      feed env (Some rest))"
proof -
  let ?h = "hd (pending_requests s)" and ?f = "reply_frame s (req_id (hd (pending_requests s))) data"
  from assms(1, 2) have inv: "session_ok s" "parser_inv (parser s)" "state s = AWAITING"
    by (cases "state s"; simp add: session_idle_ok_def session_ok_def session_inv_def busy_def)+
  have len: "length data = 8" using assms(4) by simp
  from feed_wire_frame [OF reply_frame_fields(1) [OF len] inv(2) assms(3),
      where env = env and i1 = "req_id ?h" and s1 = s]
  obtain p where p: "parser_inv p" "content p = []" and run: "\<And>rest. feed env (Some (?f @ rest)) s =
      on_frame env ?f (put_parser p s) \<bind> feed env (Some rest)" by blast
  let ?t = "put_parser p s"
  have t: "session_ok ?t" "state ?t = AWAITING" "pending_requests ?t = pending_requests s"
    "bms_address ?t = bms_address s"
    using put_parser_ok [OF inv(1) p(1)] inv(3) by (simp_all add: put_parser_def pending_requests_def)
  then have f: "?f = reply_frame ?t (req_id ?h) data" by (simp add: reply_frame_def)
  have u: "head (note_counts (req_id ?h) data ?t) = Some ?h"
    using session_okD(4) [OF t(1, 2)] t(3) by simp
  have "on_frame env ?f ?t =
      emit env (single_reply_event ?h data) (note_counts (req_id ?h) data ?t) \<bind> complete"
    unfolding f on_reply [OF t(1, 2) _ len, of "req_id ?h" env, unfolded t(3), OF refl]
    using assms(5) handle_single_eq [OF u refl current_admissible [OF inv(1, 3)] assms(5)] by simp
  with p run show ?thesis by auto
qed

lemma feed_single_reply:
  assumes "reachable s" and "busy s" and "content (parser s) = []" and "length data = DATA_LEN"
    and "\<not> multi (multiframe_info (req_id (hd (pending_requests s))))"
  shows "\<exists>p. parser_inv p \<and> feed env (Some (reply_frame s (req_id (hd (pending_requests s))) data)) s =
    emit env (single_reply_event (hd (pending_requests s)) data)
      (note_counts (req_id (hd (pending_requests s))) data (put_parser p s)) \<bind> complete"
proof -
  from feed_single_reply_then [OF reachable_ok [OF assms(1)] assms(2-5), of env] obtain p where
    "parser_inv p" "\<And>rest. feed env (Some (reply_frame s (req_id (hd (pending_requests s))) data @ rest)) s =
      emit env (single_reply_event (hd (pending_requests s)) data)
        (note_counts (req_id (hd (pending_requests s))) data (put_parser p s)) \<bind> complete \<bind>
      feed env (Some rest)" by blast
  from this(1) this(2) [of "[]"] show ?thesis by auto
qed



end
