(* ===== verification/Pagination.thy ===== *)
theory Pagination
  imports Replies
begin

text \<open>
  Putting a paginated reply back together: what the frames of a reply leave in the assembly
  buffer, in any order and with repetitions, and what is decoded when the reply is complete or
  the device stops.
\<close>

section \<open>Segments of the assembly buffer\<close>

lemma overwrite_nth:
  assumes "length S = n" and "off + n \<le> length A" and "m < length A"
  shows "(take off A @ S @ drop (off + n) A) ! m =
    (if off \<le> m \<and> m < off + n then S ! (m - off) else A ! m)"
  using assms by (auto simp: nth_append min_def)

lemma segment_overwrite:
  assumes "length S = n" and "k * n + n \<le> length A"
  shows "take n (drop (j * n) (take (k * n) A @ S @ drop (k * n + n) A)) =
    (if j = k then S else take n (drop (j * n) A))"
proof (cases "j = k")
  case True
  with assms show ?thesis by simp
next
  case False
  define B where "B = take (k * n) A @ S @ drop (k * n + n) A"
  have len: "length B = length A" using assms by (simp add: B_def)
  have "take n (drop (j * n) B) = take n (drop (j * n) A)"
  proof (rule nth_equalityI)
    show "length (take n (drop (j * n) B)) = length (take n (drop (j * n) A))" using len by simp
    fix m assume m: "m < length (take n (drop (j * n) B))"
    then have lt: "m < n" "j * n + m < length A" using len by auto
    have "\<not> (k * n \<le> j * n + m \<and> j * n + m < k * n + n)"
    proof
      assume "k * n \<le> j * n + m \<and> j * n + m < k * n + n"
      then have "(j * n + m) div n = k" using lt(1) by (intro div_nat_eqI) (auto simp: algebra_simps)
      moreover have "(j * n + m) div n = j" using lt(1) by simp
      ultimately show False using False by simp
    qed
    then have "B ! (j * n + m) = A ! (j * n + m)"
      unfolding B_def overwrite_nth [OF assms lt(2)] by (rule if_not_P)
    with lt len show "take n (drop (j * n) B) ! m = take n (drop (j * n) A) ! m" by simp
  qed
  with False show ?thesis by (simp add: B_def)
qed

lemma segments_concat:
  assumes "(b + r) * n \<le> length A" and "\<And>k. b \<le> k \<Longrightarrow> k < b + r \<Longrightarrow> take n (drop (k * n) A) = seg k"
  shows "take (r * n) (drop (b * n) A) = concat (map seg [b..<b + r])"
  using assms
proof (induction r)
  case (Suc r)
  have "take (Suc r * n) (drop (b * n) A) =
      take (r * n) (drop (b * n) A) @ take n (drop (r * n) (drop (b * n) A))"
    unfolding mult_Suc add.commute [of n] by (rule take_add)
  also have "drop (r * n) (drop (b * n) A) = drop ((b + r) * n) A" by (simp add: algebra_simps)
  also have "take n (drop ((b + r) * n) A) = seg (b + r)" using Suc.prems(2) by simp
  also have "take (r * n) (drop (b * n) A) = concat (map seg [b..<b + r])"
    using Suc.prems by (intro Suc.IH) (simp_all add: algebra_simps)
  finally show ?case by simp
qed simp

section \<open>Collecting frames\<close>

text \<open>The payload bytes of the frame with counter \<open>k\<close>, and the frame.\<close>

definition carried :: "data_id \<Rightarrow> (nat \<Rightarrow> u8 list) \<Rightarrow> nat \<Rightarrow> u8 list" where
  "carried i chunk k = take (unat (bytes_per_frame (multiframe_info i))) (chunk k)"

definition page_frame :: "session \<Rightarrow> data_id \<Rightarrow> (nat \<Rightarrow> u8 list) \<Rightarrow> nat \<Rightarrow> message_bytes" where
  "page_frame s i chunk k = reply_frame s i (of_nat k # chunk k)"

text \<open>The session after the frames with the counters in \<open>K\<close> arrived, since state \<open>s\<close>.\<close>

definition collecting :: "data_id \<Rightarrow> (nat \<Rightarrow> u8 list) \<Rightarrow> nat set \<Rightarrow> session \<Rightarrow> session \<Rightarrow> bool" where
  "collecting i chunk K s t \<longleftrightarrow>
    session_ok t \<and> state t = AWAITING \<and> dispatching t = dispatching s \<and>
    pending_requests t = pending_requests s \<and> same_setup s t \<and> trace t = trace s \<and>
    expected_frames t = expected_frames s \<and> expected_items t = expected_items s \<and>
    content (parser t) = [] \<and> counters (seen_mask t) = K \<and>
    (\<forall>k \<in> K. take (unat (bytes_per_frame (multiframe_info i)))
      (drop (k * unat (bytes_per_frame (multiframe_info i))) (assembly t)) = carried i chunk k)"

text \<open>A reply is still incomplete with these counters.\<close>

definition incomplete :: "session \<Rightarrow> nat set \<Rightarrow> bool" where
  "incomplete s K \<longleftrightarrow> expected_frames s = 0 \<or> card K < unat (expected_frames s)"

lemma paginated_frames_seen:
  assumes "session_ok t" and "state t = AWAITING" and "req_id (hd (pending_requests t)) \<in> set paginated_ids"
  shows "frames_seen t = popcount32 (seen_mask t)" and "length (assembly t) = 119"
    and "counters (seen_mask t) \<subseteq> {..<17}"
proof -
  have "\<not> streaming (current_info t)"
    using assms(3) by (auto simp: current_info_def streaming_iff paginated_ids_def)
  with assms(1, 2) show "frames_seen t = popcount32 (seen_mask t)" "length (assembly t) = 119"
    "counters (seen_mask t) \<subseteq> {..<17}"
    by (simp_all add: session_ok_def session_inv_def seen_ok_def)
qed

lemma note_counts_paginated: "i \<in> set paginated_ids \<Longrightarrow> note_counts i d t = t"
proof -
  have "STATUS_INFO \<notin> set paginated_ids" "BMU_CELL_TEMP_COUNT \<notin> set paginated_ids"
    by (simp_all add: paginated_ids_def)
  then show "i \<in> set paginated_ids \<Longrightarrow> ?thesis" unfolding note_counts_def by metis
qed

lemma filed_collecting:
  assumes "collecting i chunk K s t" and "i = req_id (hd (pending_requests s))"
    and "i \<in> set paginated_ids" and "k \<le> 16" and "length (chunk k) = 7"
  shows "collecting i chunk (insert k K) s (filed i (of_nat k # chunk k) t)"
proof -
  let ?n = "unat (bytes_per_frame (multiframe_info i))" and ?d = "of_nat k # chunk k :: u8 list"
  let ?t = "filed i ?d t"
  from assms(1) have t: "session_ok t" "state t = AWAITING" "pending_requests t = pending_requests s"
    by (simp_all add: collecting_def)
  note pg = paginated_frames_seen [OF t(1, 2), unfolded t(3), folded assms(2), OF assms(3)]
  have uk: "unat (of_nat k :: u8) = k" using assms(4) by (simp add: unsigned_of_nat take_bit_nat_eq_self)
  have "\<not> ?d ! 0 > MAX_FRAME_INDEX" using assms(4) uk by (simp add: word_less_nat_alt)
  then have ok: "session_ok ?t" using filed_ok(1) [OF t(1)] assms(5) by simp
  have "k * ?n \<le> 16 * 7" using assms(4) by (intro mult_le_mono bytes_per_frame_le)
  then have fit: "k * ?n + ?n \<le> length (assembly t)" using pg(2) bytes_per_frame_le [of i] by simp
  have seg: "length (carried i chunk k) = ?n"
    using assms(5) bytes_per_frame_le [of i] by (simp add: carried_def)
  have asm: "assembly ?t = take (k * ?n) (assembly t) @ carried i chunk k @ drop (k * ?n + ?n) (assembly t)"
    by (simp add: filed_def Let_def uk carried_def)
  have cs: "counters (seen_mask ?t) = insert k K"
    using assms(1, 4) by (auto simp: filed_def Let_def uk counters_or counters_one_bit collecting_def)
  have "\<forall>j \<in> insert k K. take ?n (drop (j * ?n) (assembly ?t)) = carried i chunk j"
    using assms(1) unfolding asm segment_overwrite [OF seg fit] by (auto simp: collecting_def)
  moreover have "same_setup t ?t" "parser ?t = parser t"
    by (simp_all add: filed_def Let_def)
  ultimately show ?thesis using assms(1) ok cs by (simp add: collecting_def)
qed

lemma collecting_deadline:
  "collecting i chunk K s t \<Longrightarrow> collecting i chunk K s (t\<lparr>deadline_ms := d\<rparr>)"
  by (simp add: collecting_def pending_requests_def)

lemma collecting_parser:
  assumes "collecting i chunk K s t" and "parser_inv p" and "content p = []"
  shows "collecting i chunk K s (put_parser p t)"
  using assms put_parser_ok [of t p]
  by (simp add: collecting_def put_parser_def pending_requests_def)

lemma on_page:
  assumes "collecting i chunk K s t" and "i = req_id (hd (pending_requests s))"
    and "i \<in> set paginated_ids" and "k \<le> 16" and "length (chunk k) = 7"
  shows "on_frame env (page_frame s i chunk k) t =
    (if incomplete s (insert k K)
     then Some ((filed i (of_nat k # chunk k) t)\<lparr>deadline_ms := now_ms t + interframe_timeout_ms t\<rparr>)
     else finish_multi env i (filed i (of_nat k # chunk k) t))"
proof -
  let ?d = "of_nat k # chunk k :: u8 list"
  from assms(1) have t: "session_ok t" "state t = AWAITING" "pending_requests t = pending_requests s"
    "bms_address t = bms_address s" "expected_frames t = expected_frames s"
    by (simp_all add: collecting_def)
  note pg = paginated_frames_seen [OF t(1, 2), unfolded t(3), folded assms(2), OF assms(3)]
  have len: "length ?d = 8" using assms(5) by simp
  have fc: "collecting i chunk (insert k K) s (filed i ?d t)" by (rule filed_collecting [OF assms])
  have "frames_seen (filed i ?d t) = popcount32 (seen_mask (filed i ?d t))" by (simp add: filed_def Let_def)
  then have card: "unat (frames_seen (filed i ?d t)) = card (insert k K)"
    using fc unat_popcount by (simp add: collecting_def)
  have uk: "unat (of_nat k :: u8) = k" using assms(4) by (simp add: unsigned_of_nat take_bit_nat_eq_self)
  have k: "\<not> ?d ! 0 > MAX_FRAME_INDEX" using assms(4) uk by (simp add: word_less_nat_alt)
  have "page_frame s i chunk k = reply_frame t i ?d" by (simp add: page_frame_def reply_frame_def t(4))
  then have "on_frame env (page_frame s i chunk k) t = handle_multi env i ?d t"
    using on_reply [OF t(1, 2), of i ?d env] assms(2, 3) len t(3) note_counts_paginated [OF assms(3)]
    by (auto simp: multi_iff streaming_iff paginated_ids_def)
  also have "\<dots> = (if incomplete s (insert k K)
     then Some ((filed i ?d t)\<lparr>deadline_ms := now_ms t + interframe_timeout_ms t\<rparr>)
     else finish_multi env i (filed i ?d t))"
    using handle_multi_eq [of t ?d env i] pg(1, 2) len k card t(5)
    by (simp add: incomplete_def word_le_nat_alt not_le)
  finally show ?thesis .
qed

lemma feed_pages:
  assumes "collecting i chunk K s t" and "i = req_id (hd (pending_requests s))"
    and "i \<in> set paginated_ids" and "\<forall>k \<in> set ks. k \<le> 16 \<and> length (chunk k) = 7"
    and "incomplete s (K \<union> set ks)"
  shows "\<exists>t'. collecting i chunk (K \<union> set ks) s t' \<and>
    (\<forall>rest. feed env (Some (concat (map (page_frame s i chunk) ks) @ rest)) t = feed env (Some rest) t')"
  using assms(1, 4, 5)
proof (induction ks arbitrary: K t)
  case Nil
  then show ?case by auto
next
  case (Cons k ks)
  let ?f = "page_frame s i chunk k"
  from Cons.prems(2) have k: "k \<le> 16" "length (chunk k) = 7" by auto
  have wf: "wire_frame ?f"
    unfolding page_frame_def using k(2) by (intro reply_frame_fields) simp
  have t: "parser_inv (parser t)" "content (parser t) = []"
    using Cons.prems(1) by (simp_all add: collecting_def session_ok_def session_inv_def)
  from feed_wire_frame [OF wf t, of env] obtain p where p: "parser_inv p" "content p = []"
    and run: "\<And>rest. feed env (Some (?f @ rest)) t = on_frame env ?f (put_parser p t) \<bind> feed env (Some rest)"
    by blast
  have c: "collecting i chunk K s (put_parser p t)" by (rule collecting_parser [OF Cons.prems(1) p])
  have fin: "finite K" using Cons.prems(1) by (auto simp: collecting_def)
  have "card (insert k K) \<le> card (K \<union> set (k # ks))" using fin by (intro card_mono) auto
  then have "incomplete s (insert k K)" using Cons.prems(3) by (auto simp: incomplete_def)
  then have step: "on_frame env ?f (put_parser p t) =
      Some ((filed i (of_nat k # chunk k) (put_parser p t))\<lparr>deadline_ms :=
        now_ms (put_parser p t) + interframe_timeout_ms (put_parser p t)\<rparr>)"
    using on_page [where env = env, OF c assms(2, 3) k] by simp
  let ?t' = "(filed i (of_nat k # chunk k) (put_parser p t))\<lparr>deadline_ms :=
        now_ms (put_parser p t) + interframe_timeout_ms (put_parser p t)\<rparr>"
  have "collecting i chunk (insert k K) s ?t'"
    by (intro collecting_deadline filed_collecting [OF c assms(2, 3) k])
  from Cons.IH [OF this] Cons.prems(2, 3) obtain t' where
    t': "collecting i chunk (K \<union> set (k # ks)) s t'"
    "\<And>rest. feed env (Some (concat (map (page_frame s i chunk) ks) @ rest)) ?t' = feed env (Some rest) t'"
    by auto
  have "feed env (Some (concat (map (page_frame s i chunk) (k # ks)) @ rest)) t = feed env (Some rest) t'" for rest
    using run [of "concat (map (page_frame s i chunk) ks) @ rest"] step t'(2) by simp
  with t'(1) show ?case by blast
qed

section \<open>The decoded reply\<close>

text \<open>The nominal length of a reply of which \<open>n\<close> bytes are there.\<close>

definition trimmed :: "data_id \<Rightarrow> u8 \<Rightarrow> nat \<Rightarrow> nat" where
  "trimmed i items n =
    (let n = min n MAX_REASSEMBLY_LEN; total = unat (total_bytes (multiframe_info i));
         n = (if total \<noteq> 0 then min n total else n)
     in if items \<noteq> 0 then min n (if i = CELL_VOLTAGES then unat items * 2 else unat items) else n)"

definition unbroken_bytes :: "data_id \<Rightarrow> (nat \<Rightarrow> u8 list) \<Rightarrow> nat set \<Rightarrow> u8 list" where
  "unbroken_bytes i chunk K = concat (map (carried i chunk) [Min K..<Min K + run_length K (Min K)])"

lemma collected_bytes:
  assumes "collecting i chunk K s t" and "i = req_id (hd (pending_requests s))"
    and "i \<in> set paginated_ids" and "K \<noteq> {}"
  shows "reply_bytes i t = (let b = unbroken_bytes i chunk K in take (trimmed i (expected_items s) (length b)) b)"
    and "seen_mask t \<noteq> 0"
proof -
  let ?n = "unat (bytes_per_frame (multiframe_info i))"
  let ?b = "Min K" and ?r = "run_length K (Min K)"
  from assms(1) have t: "session_ok t" "state t = AWAITING" "pending_requests t = pending_requests s"
    "counters (seen_mask t) = K" "expected_items t = expected_items s"
    by (simp_all add: collecting_def)
  note pg = paginated_frames_seen [OF t(1, 2), unfolded t(3), folded assms(2), OF assms(3)]
  show nz: "seen_mask t \<noteq> 0" using assms(4) t(4) by auto
  have finK: "finite K" using t(4) by auto
  have "?b < 17" using Min_in [OF finK assms(4)] pg(3) t(4) by auto
  then have br: "?b + ?r \<le> 17" using run_length_bound [of K 17 ?b] pg(3) t(4) by simp
  then have "(?b + ?r) * ?n \<le> 17 * 7" by (intro mult_le_mono bytes_per_frame_le)
  then have fit: "(?b + ?r) * ?n \<le> length (assembly t)" using pg(2) by simp
  have seg: "take ?n (drop (k * ?n) (assembly t)) = carried i chunk k" if "?b \<le> k" "k < ?b + ?r" for k
  proof -
    have "?b + (k - ?b) \<in> K" using run_length_props(2) [OF finK, of "k - ?b" ?b] that by simp
    with that have "k \<in> K" by simp
    then show ?thesis using assms(1) by (simp add: collecting_def)
  qed
  have cat: "take (?r * ?n) (drop (?b * ?n) (assembly t)) = unbroken_bytes i chunk K"
    unfolding unbroken_bytes_def by (rule segments_concat [OF fit seg])
  have len: "length (unbroken_bytes i chunk K) = ?r * ?n"
    unfolding cat [symmetric] using fit by (simp add: algebra_simps)
  have al: "ASSEMBLY_LEN = 119" by simp
  have "min (?r * ?n) (ASSEMBLY_LEN - ?b * ?n) = ?r * ?n"
    unfolding al using fit pg(2) by (simp add: algebra_simps)
  then have "reply_length i (seen_mask t) (expected_items t) = trimmed i (expected_items s) (?r * ?n)"
    unfolding reply_length_def reply_start_def trimmed_def Let_def t(4, 5) by (simp add: unat_eq_0)
  moreover have "trimmed i (expected_items s) (?r * ?n) \<le> ?r * ?n"
    by (auto simp: trimmed_def Let_def)
  moreover have "take m (take k D) = take m D" if "m \<le> k" for m k and D :: "u8 list"
    using that by (simp add: min_absorb1)
  ultimately show "reply_bytes i t = (let b = unbroken_bytes i chunk K in take (trimmed i (expected_items s) (length b)) b)"
    unfolding Let_def len unfolding reply_bytes_def reply_start_def t(4) cat [symmetric] by metis
qed

definition page_event :: "data_id \<Rightarrow> nat set \<Rightarrow> event_payload \<Rightarrow> event" where
  "page_event i K p = default_event\<lparr>event_id := i, frames := of_nat (card K), payload := p\<rparr>"

lemma finish_collected:
  assumes "collecting i chunk K s t" and "i = req_id (hd (pending_requests s))"
    and "i \<in> set paginated_ids" and "K \<noteq> {}"
  shows "\<exists>p. decode_multi i (Some (let b = unbroken_bytes i chunk K
      in take (trimmed i (expected_items s) (length b)) b)) = Some (Some p) \<and>
    finish_multi env i t = emit env (page_event i K p) t \<bind> complete"
proof -
  from assms(1) have t: "session_ok t" "state t = AWAITING" "pending_requests t = pending_requests s"
    "counters (seen_mask t) = K"
    by (simp_all add: collecting_def)
  note pg = paginated_frames_seen [OF t(1, 2), unfolded t(3), folded assms(2), OF assms(3)]
  note cb = collected_bytes [OF assms]
  have "frames_seen t = of_nat (card K)" using pg(1) t(4) by (simp add: popcount_card)
  moreover have "length (assembly t) = ASSEMBLY_LEN" using pg(2) by simp
  ultimately show ?thesis
    using finish_multi_eq [OF pg(3) cb(2) _ assms(3), of env]
    unfolding cb(1) page_event_def by auto
qed

lemma run_length_interval: "0 < n \<Longrightarrow> run_length {b..<b + n} b = n"
  unfolding run_length_def by (rule Least_equality) (auto simp: not_less)

lemma unbroken_interval:
  "0 < n \<Longrightarrow> unbroken_bytes i chunk {b..<b + n} = concat (map (carried i chunk) [b..<b + n])"
proof -
  assume "0 < n"
  moreover from this have "Min {b..<b + n} = b" by (intro Min_eqI) auto
  ultimately show ?thesis by (simp add: unbroken_bytes_def run_length_interval)
qed

lemma awaiting_reply:
  assumes "reachable s" and "busy s" and "seen_mask s = 0" and "content (parser s) = []"
  shows "collecting i chunk {} s s" and "session_idle_ok s"
proof -
  from reachable_ok [OF assms(1)] show ok: "session_idle_ok s" .
  with assms(2-4) show "collecting i chunk {} s s"
    by (cases "state s") (simp_all add: collecting_def session_idle_ok_def busy_def)
qed

text \<open>All the frames of a reply, the last new one at the end: the event is decided.\<close>

lemma feed_all_pages:
  assumes "collecting i chunk {} s s" and "i = req_id (hd (pending_requests s))"
    and "i \<in> set paginated_ids" and "unat (expected_frames s) = n" and "0 < n" and "b + n \<le> 17"
    and "set ks = {b..<b + n}" and "last ks \<notin> set (butlast ks)" and "\<forall>k \<in> set ks. length (chunk k) = 7"
  shows "\<exists>u p. collecting i chunk {b..<b + n} s u \<and>
    decode_multi i (Some (let c = concat (map (carried i chunk) [b..<b + n])
      in take (trimmed i (expected_items s) (length c)) c)) = Some (Some p) \<and>
    (\<forall>rest. feed env (Some (concat (map (page_frame s i chunk) ks) @ rest)) s =
      emit env (page_event i {b..<b + n} p) u \<bind> complete \<bind> feed env (Some rest))"
proof -
  have ne: "ks \<noteq> []" using assms(5, 7) by auto
  let ?k = "last ks" and ?ks = "butlast ks"
  have split: "ks = ?ks @ [?k]" using ne by simp
  then have setk: "set ks = insert ?k (set ?ks)" by (metis list.simps(15) rotate1.simps(2) set_rotate1)
  have card: "card (set ks) = n" using assms(7) by simp
  then have "card (set ?ks) + 1 = n" using assms(8) setk by simp
  then have inc: "incomplete s ({} \<union> set ?ks)" using assms(4, 5) by (simp add: incomplete_def)
  have full: "\<not> incomplete s (insert ?k (set ?ks))"
    using card setk assms(4, 5) by (auto simp: incomplete_def)
  have all: "\<forall>k \<in> set ks. k \<le> 16 \<and> length (chunk k) = 7" using assms(6, 7, 9) by auto
  then have k: "?k \<le> 16" "length (chunk ?k) = 7" and "\<forall>k \<in> set ?ks. k \<le> 16 \<and> length (chunk k) = 7"
    unfolding setk by auto
  from feed_pages [OF assms(1-3) this(3) inc, of env] obtain t where
    t: "collecting i chunk (set ?ks) s t"
    and run1: "\<And>rest. feed env (Some (concat (map (page_frame s i chunk) ?ks) @ rest)) s = feed env (Some rest) t"
    by auto
  let ?f = "page_frame s i chunk ?k"
  have wf: "wire_frame ?f" unfolding page_frame_def using k(2) by (intro reply_frame_fields) simp
  have "parser_inv (parser t)" "content (parser t) = []"
    using t by (simp_all add: collecting_def session_ok_def session_inv_def)
  from feed_wire_frame [OF wf this, of env] obtain p0 where p0: "parser_inv p0" "content p0 = []"
    and run2: "\<And>rest. feed env (Some (?f @ rest)) t = on_frame env ?f (put_parser p0 t) \<bind> feed env (Some rest)"
    by blast
  let ?u = "filed i (of_nat ?k # chunk ?k) (put_parser p0 t)"
  have c: "collecting i chunk (set ?ks) s (put_parser p0 t)" by (rule collecting_parser [OF t p0])
  then have cu: "collecting i chunk {b..<b + n} s ?u"
    using filed_collecting [OF c assms(2, 3) k] setk assms(7) by simp
  from finish_collected [OF cu assms(2, 3), of env] assms(5) obtain p where
    p: "decode_multi i (Some (let c = concat (map (carried i chunk) [b..<b + n])
      in take (trimmed i (expected_items s) (length c)) c)) = Some (Some p)"
    "finish_multi env i ?u = emit env (page_event i {b..<b + n} p) ?u \<bind> complete"
    unfolding unbroken_interval [OF assms(5)] by auto
  have cat: "concat (map (page_frame s i chunk) ks) = concat (map (page_frame s i chunk) ?ks) @ ?f"
    by (subst split) simp
  have "on_frame env ?f (put_parser p0 t) = emit env (page_event i {b..<b + n} p) ?u \<bind> complete"
    using on_page [where env = env, OF c assms(2, 3) k] full p(2) by simp
  then have "feed env (Some (concat (map (page_frame s i chunk) ks) @ rest)) s =
    emit env (page_event i {b..<b + n} p) ?u \<bind> complete \<bind> feed env (Some rest)" for rest
    unfolding cat append_assoc run1 run2 by simp
  with cu p(1) show ?thesis by blast
qed

text \<open>
  C21: a paginated reply is put back together whatever the order of its frames, whatever counter
  the device starts at, and however often a frame is repeated.  With such a request in flight and
  the number of its frames known, feeding all the frames numbered \<open>b\<close> to \<open>b + n - 1\<close>, the last new
  one at the end, produces exactly one event, the response decoded from their payload bytes in
  the order of the counters, cut to the nominal length.
\<close>

theorem pages_reassembled:
  assumes "reachable s" and "busy s" and "seen_mask s = 0" and "content (parser s) = []"
    and "i = req_id (hd (pending_requests s))" and "i \<in> set paginated_ids"
    and "unat (expected_frames s) = n" and "0 < n" and "b + n \<le> 17"
    and "set ks = {b..<b + n}" and "last ks \<notin> set (butlast ks)"
    and "\<forall>k. length (chunk k) = 7"
  shows "\<exists>s' p. feed env (Some (concat (map (page_frame s i chunk) ks))) s = Some s' \<and>
    decode_multi i (Some (let c = concat (map (carried i chunk) [b..<b + n])
      in take (trimmed i (expected_items s) (length c)) c)) = Some (Some p) \<and>
    reports (page_event i {b..<b + n} p) s s'"
proof -
  note aw = awaiting_reply(1) [OF assms(1-4), of i chunk] awaiting_reply(2) [OF assms(1-4)]
  let ?bytes = "concat (map (page_frame s i chunk) ks)"
  from feed_all_pages [OF aw(1) assms(5-11), of env] assms(12) obtain u p where
    cu: "collecting i chunk {b..<b + n} s u" and
    p: "decode_multi i (Some (let c = concat (map (carried i chunk) [b..<b + n])
      in take (trimmed i (expected_items s) (length c)) c)) = Some (Some p)" and
    run: "\<And>rest. feed env (Some (?bytes @ rest)) s =
      emit env (page_event i {b..<b + n} p) u \<bind> complete \<bind> feed env (Some rest)" by blast
  from feed_ok [OF aw(2)] obtain s' where s': "feed env (Some ?bytes) s = Some s'" by blast
  have "in_step u" "trace u = trace s" using cu session_ok_in_step by (simp_all add: collecting_def)
  with emit_complete_reports [of u env "page_event i {b..<b + n} p" s'] run [of "[]"] s'
  have "reports (page_event i {b..<b + n} p) s s'" by (auto intro: reports_from)
  with s' p show ?thesis by blast
qed

text \<open>
  C23: a reply that stops short is cut at its first gap.  Feeding frames with any counters up to
  16, fewer than the known number of frames or with that number unknown, emits nothing; when the
  deadline then passes, the reply is a response decoded from the unbroken run of frames from the
  lowest counter received, cut to the nominal length, while its frame count still counts them all.
\<close>

theorem short_reply_cut_at_gap:
  assumes "reachable s" and "busy s" and "seen_mask s = 0" and "content (parser s) = []"
    and "i = req_id (hd (pending_requests s))" and "i \<in> set paginated_ids"
    and "ks \<noteq> []" and "\<forall>k \<in> set ks. k \<le> 16" and "incomplete s (set ks)"
    and "\<forall>k. length (chunk k) = 7"
  shows "\<exists>t s' p. feed env (Some (concat (map (page_frame s i chunk) ks))) s = Some t \<and>
    trace t = trace s \<and> pending_requests t = pending_requests s \<and>
    tick env (deadline_ms t) t = Some s' \<and>
    decode_multi i (Some (let c = unbroken_bytes i chunk (set ks)
      in take (trimmed i (expected_items s) (length c)) c)) = Some (Some p) \<and>
    reports (page_event i (set ks) p) t s'"
proof -
  note aw = awaiting_reply(1) [OF assms(1-4), of i chunk] awaiting_reply(2) [OF assms(1-4)]
  have "\<forall>k \<in> set ks. k \<le> 16 \<and> length (chunk k) = 7" using assms(8, 10) by blast
  from feed_pages [OF aw(1) assms(5, 6) this, of env] assms(9) obtain t where
    t: "collecting i chunk (set ks) s t"
    and run: "\<And>rest. feed env (Some (concat (map (page_frame s i chunk) ks) @ rest)) s = feed env (Some rest) t"
    by auto
  then have fed: "feed env (Some (concat (map (page_frame s i chunk) ks))) s = Some t"
    using run [of "[]"] by simp
  let ?u = "t\<lparr>now_ms := deadline_ms t\<rparr>"
  have cu: "collecting i chunk (set ks) s ?u" using t by (simp add: collecting_def pending_requests_def)
  from finish_collected [OF cu assms(5, 6), of env] assms(7) obtain p where
    p: "decode_multi i (Some (let c = unbroken_bytes i chunk (set ks)
      in take (trimmed i (expected_items s) (length c)) c)) = Some (Some p)"
    "finish_multi env i ?u = emit env (page_event i (set ks) p) ?u \<bind> complete" by auto
  from t have ts: "session_ok t" "state t = AWAITING" "pending_requests t = pending_requests s"
    "trace t = trace s" "counters (seen_mask t) = set ks"
    by (simp_all add: collecting_def)
  have "unat (frames_seen t) = card (set ks)"
    using paginated_frames_seen(1) [OF ts(1, 2)] assms(5, 6) ts(3, 5) by (simp add: unat_popcount)
  then have "frames_seen t > 0" using assms(7) by (simp add: word_less_nat_alt card_gt_0_iff)
  moreover have "multi (multiframe_info i)" "\<not> streaming (multiframe_info i)"
    using assms(6) by (auto simp: multi_iff streaming_iff paginated_ids_def)
  moreover have "head ?u = Some (hd (pending_requests s))" using session_okD(4) [OF ts(1, 2)] ts(3) by simp
  ultimately have tk: "tick env (deadline_ms t) t = finish_multi env i ?u"
    using ts(2) assms(5) by (simp add: tick_def Let_def)
  from tick_ok [OF ts(1), of env "deadline_ms t"] obtain s' where
    s': "tick env (deadline_ms t) t = Some s'" by (auto simp: fine_def)
  have "in_step ?u" using session_ok_in_step [of ?u] ts(1) by simp
  with emit_complete_reports [of ?u env "page_event i (set ks) p" s'] tk s' p(2)
  have "reports (page_event i (set ks) p) t s'" by (auto intro: reports_from)
  with fed ts s' p(1) show ?thesis by blast
qed

section \<open>Two replies\<close>

definition version_run :: "session option" where
  "version_run = run_from_start [Api_call (Poll_software_version None 0)]"

definition voltages_run :: "session option" where
  "voltages_run = run_from_start [Api_call (Poll_cell_voltages 0 None 0)]"

definition sample_chunk :: "nat \<Rightarrow> u8 list" where
  "sample_chunk k = [0x0C, of_nat k, 0x0C, of_nat k, 0x0C, of_nat k, 0]"

lemma length_sample_chunk: "length (sample_chunk k) = 7"
  by (simp add: sample_chunk_def)

lemma version_run_state:
  "map_option (\<lambda>s. (busy s, seen_mask s, content (parser s), map req_id (pending_requests s),
     expected_frames s, expected_items s)) version_run =
   Some (True, 0, [], [SOFTWARE_VERSION], 2, 0)"
  by code_simp

lemma voltages_run_state:
  "map_option (\<lambda>s. (busy s, seen_mask s, content (parser s), map req_id (pending_requests s),
     expected_frames s, expected_items s)) voltages_run =
   Some (True, 0, [], [CELL_VOLTAGES], 0, 0)"
  by code_simp

lemma version_decoded:
  "decode_multi SOFTWARE_VERSION (Some (let c = concat (map (carried SOFTWARE_VERSION sample_chunk) [1..<1 + 2])
     in take (trimmed SOFTWARE_VERSION 0 (length c)) c)) =
   Some (Some (P_version (version_payload.make 14
     [0x0C, 1, 0x0C, 1, 0x0C, 1, 0, 0x0C, 2, 0x0C, 2, 0x0C, 2, 0])))"
  by code_simp

lemma voltages_decoded:
  "decode_multi CELL_VOLTAGES (Some (let c = concat (map (carried CELL_VOLTAGES sample_chunk) [1..<3])
     in take (trimmed CELL_VOLTAGES 0 (length c)) c)) =
   Some (Some (P_cell_voltages (cell_voltages.make 6
     ([3073, 3073, 3073, 3074, 3074, 3074] @ replicate 42 0))))"
  by code_simp

theorem pages_reassembled_witness:
  "\<exists>s s'. version_run = Some s \<and>
    feed quiet_env (Some (concat (map (page_frame s SOFTWARE_VERSION sample_chunk) [2, 2, 1]))) s = Some s' \<and>
    reports (page_event SOFTWARE_VERSION {1..<1 + 2} (P_version (version_payload.make 14
      [0x0C, 1, 0x0C, 1, 0x0C, 1, 0, 0x0C, 2, 0x0C, 2, 0x0C, 2, 0]))) s s'"
proof -
  from run_from_start_reachable obtain s where s: "version_run = Some s" "reachable s"
    unfolding version_run_def by blast
  have st: "busy s" "seen_mask s = 0" "content (parser s) = []" "expected_frames s = 2"
    "expected_items s = 0" and "map req_id (pending_requests s) = [SOFTWARE_VERSION]"
    using version_run_state unfolding s(1) by simp_all
  then have id: "SOFTWARE_VERSION = req_id (hd (pending_requests s))" by (cases "pending_requests s") auto
  have "\<exists>s' p. feed quiet_env (Some (concat (map (page_frame s SOFTWARE_VERSION sample_chunk) [2, 2, 1]))) s = Some s' \<and>
    decode_multi SOFTWARE_VERSION (Some (let c = concat (map (carried SOFTWARE_VERSION sample_chunk) [1..<1 + 2])
      in take (trimmed SOFTWARE_VERSION (expected_items s) (length c)) c)) = Some (Some p) \<and>
    reports (page_event SOFTWARE_VERSION {1..<1 + 2} p) s s'"
    by (intro pages_reassembled [OF s(2) st(1-3) id])
      (auto simp: paginated_ids_def st(4) length_sample_chunk)
  then show ?thesis using s(1) unfolding st(5) version_decoded by auto
qed

theorem short_reply_cut_at_gap_witness:
  "\<exists>s t s'. voltages_run = Some s \<and>
    feed quiet_env (Some (concat (map (page_frame s CELL_VOLTAGES sample_chunk) [1, 4, 2]))) s = Some t \<and>
    tick quiet_env (deadline_ms t) t = Some s' \<and>
    reports (page_event CELL_VOLTAGES {1, 2, 4} (P_cell_voltages (cell_voltages.make 6
      ([3073, 3073, 3073, 3074, 3074, 3074] @ replicate 42 0)))) t s'"
proof -
  from run_from_start_reachable obtain s where s: "voltages_run = Some s" "reachable s"
    unfolding voltages_run_def by blast
  have st: "busy s" "seen_mask s = 0" "content (parser s) = []" "expected_frames s = 0"
    "expected_items s = 0" and "map req_id (pending_requests s) = [CELL_VOLTAGES]"
    using voltages_run_state unfolding s(1) by simp_all
  then have id: "CELL_VOLTAGES = req_id (hd (pending_requests s))" by (cases "pending_requests s") auto
  have r: "run_length {1, 2, 4} 1 = 2"
    unfolding run_length_def
  proof (rule Least_equality)
    show "1 + y \<notin> {1, 2, 4} \<Longrightarrow> 2 \<le> y" for y :: nat by (cases y; cases "y - 1") auto
  qed simp
  have m: "Min {1, 2, 4 :: nat} = 1" and three: "1 + 2 = (3 :: nat)" by simp_all
  have ub: "unbroken_bytes CELL_VOLTAGES sample_chunk {1, 2, 4} =
      concat (map (carried CELL_VOLTAGES sample_chunk) [1..<3])"
    by (simp only: unbroken_bytes_def m r three)
  have "set [1, 4, 2 :: nat] = {1, 2, 4}" by auto
  moreover have "\<exists>t s' p. feed quiet_env (Some (concat (map (page_frame s CELL_VOLTAGES sample_chunk) [1, 4, 2]))) s = Some t \<and>
    trace t = trace s \<and> pending_requests t = pending_requests s \<and>
    tick quiet_env (deadline_ms t) t = Some s' \<and>
    decode_multi CELL_VOLTAGES (Some (let c = unbroken_bytes CELL_VOLTAGES sample_chunk (set [1, 4, 2])
      in take (trimmed CELL_VOLTAGES (expected_items s) (length c)) c)) = Some (Some p) \<and>
    reports (page_event CELL_VOLTAGES (set [1, 4, 2]) p) t s'"
    by (intro short_reply_cut_at_gap [OF s(2) st(1-3) id])
      (simp_all add: paginated_ids_def incomplete_def st(4) length_sample_chunk)
  ultimately show ?thesis
    using s(1) unfolding st(5) \<open>set [1, 4, 2] = {1, 2, 4}\<close> ub voltages_decoded by auto
qed

end
