(* ===== verification/FaultStream.thy ===== *)
theory FaultStream
  imports Pagination
begin

text \<open>
  The stream of fault records (0x64): four frames make a record, the counter 0xFF ends the stream,
  and silence truncates it.
\<close>

section \<open>Appending to the record\<close>

lemma append_record_eq:
  assumes "length (record_buf s) = FAULT_BUFFER_LEN" and "record_len s + length ks \<le> FAULT_BUFFER_LEN"
    and "\<forall>k \<in> set ks. k < length data"
  shows "append_record data ks s = Some (s\<lparr>record_buf := take (record_len s) (record_buf s) @
      map ((!) data) ks @ drop (record_len s + length ks) (record_buf s),
    record_len := record_len s + length ks\<rparr>)"
  using assms
proof (induction ks arbitrary: s)
  case (Cons k ks)
  let ?t = "s\<lparr>record_buf := (record_buf s)[record_len s := data ! k], record_len := record_len s + 1\<rparr>"
  have room: "record_len s < 28" "length (record_buf s) = 28" "k < length data" using Cons.prems by simp_all
  then have "append_record data (k # ks) s = append_record data ks ?t" by simp
  also have "\<dots> = Some (?t\<lparr>record_buf := take (record_len ?t) (record_buf ?t) @
      map ((!) data) ks @ drop (record_len ?t + length ks) (record_buf ?t),
    record_len := record_len ?t + length ks\<rparr>)"
    by (rule Cons.IH) (use Cons.prems in simp_all)
  also have "take (record_len ?t) (record_buf ?t) = take (record_len s) (record_buf s) @ [data ! k]"
    using room by (simp add: take_Suc_conv_app_nth)
  finally show ?case by (simp add: add.assoc)
qed simp

section \<open>Recording frames\<close>

text \<open>The session with these bytes of the next record received, since state \<open>s\<close>.\<close>

definition recording :: "u8 list \<Rightarrow> nat \<Rightarrow> session \<Rightarrow> session \<Rightarrow> bool" where
  "recording bytes n s t \<longleftrightarrow>
    session_ok t \<and> state t = AWAITING \<and> dispatching t = dispatching s \<and>
    pending_requests t = pending_requests s \<and> same_setup s t \<and> trace t = trace s \<and> retries t = retries s \<and> max_retries t = max_retries s \<and>
    content (parser t) = [] \<and> record_len t = length bytes \<and>
    take (length bytes) (record_buf t) = bytes \<and> frames_seen t = frames_seen s + of_nat n"

text \<open>The session after the bytes of one more frame are appended.\<close>

definition appended :: "data_bytes \<Rightarrow> session \<Rightarrow> session" where
  "appended data s = s\<lparr>record_buf := take (record_len s) (record_buf s) @ drop 1 data @
      drop (record_len s + 7) (record_buf s),
    record_len := record_len s + 7, frames_seen := frames_seen s + 1\<rparr>"

definition record_frame :: "data_bytes \<Rightarrow> bool" where
  "record_frame d \<longleftrightarrow> length d = DATA_LEN \<and> d ! 0 \<noteq> FRAME_NO_END"

definition record_event :: "fault_record \<Rightarrow> event" where
  "record_event r = default_event\<lparr>event_id := FAULT_RECORDS,
    frames := of_nat FAULT_FRAMES_PER_RECORD, payload := P_fault_record r\<rparr>"

text \<open>What follows a record: the stream goes on, or a handler ended it.\<close>

definition resume :: "session \<Rightarrow> session option" where
  "resume s = (if state s \<noteq> AWAITING then pump (s\<lparr>record_len := 0\<rparr>)
    else Some (s\<lparr>record_len := 0, deadline_ms := now_ms s + interframe_timeout_ms s\<rparr>))"

lemma handle_stream_eq:
  assumes "session_ok s" and "record_frame data" and "record_len s + 7 \<le> FAULT_BUFFER_LEN"
    and "state s = AWAITING"
  shows "record_len s + 7 < FAULT_BUFFER_LEN \<Longrightarrow> handle_stream env FAULT_RECORDS data s =
      Some ((appended data s)\<lparr>deadline_ms := now_ms s + interframe_timeout_ms s\<rparr>)"
    and "record_len s + 7 = FAULT_BUFFER_LEN \<Longrightarrow>
      \<exists>r. decode_fault_record (Some (take (record_len s) (record_buf s) @ drop 1 data)) = Some r \<and>
        handle_stream env FAULT_RECORDS data s = emit env (record_event r) (appended data s) \<bind> resume"
proof -
  from assms(2) have d: "length data = 8" "data ! 0 \<noteq> 0xFF" by (simp_all add: record_frame_def)
  have len: "length (record_buf s) = 28" using assms(1) by (simp add: session_ok_def session_inv_def)
  have tl: "map ((!) data) [1..<DATA_LEN] = drop 1 data"
    using d(1) by (intro nth_equalityI) simp_all
  have "\<forall>k \<in> set [1..<DATA_LEN]. k < length data" "length [1..<DATA_LEN] = 7" using d(1) by simp_all
  with len assms(3)
  have a: "append_record data [1..<DATA_LEN] s = Some (s\<lparr>record_buf := take (record_len s) (record_buf s) @
      drop 1 data @ drop (record_len s + 7) (record_buf s), record_len := record_len s + 7\<rparr>)"
    by (subst append_record_eq) (simp_all only: tl, simp_all)
  have t: "t\<lparr>frames_seen := frames_seen t + 1\<rparr> = appended data s" if "t = s\<lparr>record_buf :=
      take (record_len s) (record_buf s) @ drop 1 data @ drop (record_len s + 7) (record_buf s),
      record_len := record_len s + 7\<rparr>" for t
    using that by (simp add: appended_def)
  let ?step = "\<lambda>s. if record_len s \<ge> FAULT_BUFFER_LEN then do {
            let ev = default_event\<lparr>event_id := FAULT_RECORDS, frames := of_nat FAULT_FRAMES_PER_RECORD\<rparr>;
            bytes \<leftarrow> slice (record_buf s) 0 (record_len s);
            s \<leftarrow> (case decode_fault_record (Some bytes) of
                 None \<Rightarrow> Some s
               | Some r \<Rightarrow> emit env (ev\<lparr>payload := P_fault_record r\<rparr>) s);
            Some (s\<lparr>record_len := 0\<rparr>)
          }
          else Some s"
  let ?next = "\<lambda>s. if state s \<noteq> AWAITING then pump s
        else Some (s\<lparr>deadline_ms := now_ms s + interframe_timeout_ms s\<rparr>)"
  have run: "handle_stream env FAULT_RECORDS data s = ?step (appended data s) \<bind> ?next"
    unfolding handle_stream_def Let_def a Option.bind.bind_lunit t [OF refl] using d(2) by simp
  show "handle_stream env FAULT_RECORDS data s =
      Some ((appended data s)\<lparr>deadline_ms := now_ms s + interframe_timeout_ms s\<rparr>)"
    if "record_len s + 7 < FAULT_BUFFER_LEN"
    unfolding run using that assms(4) by (simp add: appended_def)
  show "\<exists>r. decode_fault_record (Some (take (record_len s) (record_buf s) @ drop 1 data)) = Some r \<and>
        handle_stream env FAULT_RECORDS data s = emit env (record_event r) (appended data s) \<bind> resume"
    if full: "record_len s + 7 = FAULT_BUFFER_LEN"
  proof -
    have buf: "record_buf (appended data s) = take (record_len s) (record_buf s) @ drop 1 data"
      using full len by (simp add: appended_def)
    then have l: "length (record_buf (appended data s)) = 28" using full len d(1) by simp
    have rl: "record_len (appended data s) = 28" using full by (simp add: appended_def)
    have sl: "slice (record_buf (appended data s)) 0 (record_len (appended data s)) =
        Some (record_buf (appended data s))" using l rl by simp
    obtain r where r: "decode_fault_record (Some (record_buf (appended data s))) = Some r"
      using decode_fault_record_defined [of "Some (record_buf (appended data s))"] l by auto
    have ev: "default_event\<lparr>event_id := FAULT_RECORDS, frames := of_nat FAULT_FRAMES_PER_RECORD\<rparr>
        \<lparr>payload := P_fault_record r\<rparr> = record_event r"
      by (simp add: record_event_def)
    have "?step (appended data s) =
        emit env (record_event r) (appended data s) \<bind> (\<lambda>s. Some (s\<lparr>record_len := 0\<rparr>))"
      using rl sl r ev by (simp add: Let_def)
    then have "handle_stream env FAULT_RECORDS data s =
        emit env (record_event r) (appended data s) \<bind> (\<lambda>s. ?next (s\<lparr>record_len := 0\<rparr>))"
      unfolding run by (cases "emit env (record_event r) (appended data s)") simp_all
    moreover have "(\<lambda>s. ?next (s\<lparr>record_len := 0\<rparr>)) = resume"
      by (simp add: fun_eq_iff resume_def)
    ultimately show ?thesis using r unfolding buf by auto
  qed
qed

lemma appended_ok:
  assumes "session_ok s" and "state s = AWAITING" and "FAULT_RECORDS = req_id (hd (pending_requests s))"
    and "record_frame data" and "record_len s + 7 \<le> FAULT_BUFFER_LEN"
  shows "session_ok (appended data s)"
proof -
  have "streaming (current_info s)" using assms(3) by (simp add: current_info_def streaming_iff)
  with assms show ?thesis
    by (auto simp: session_ok_def session_inv_def seen_ok_def current_info_def queue_ok_def
        QUEUE_CAPACITY_def pending_requests_def appended_def record_frame_def)
qed

lemma appended_simps [simp]:
  "state (appended d s) = state s" "pending_requests (appended d s) = pending_requests s"
  "dispatching (appended d s) = dispatching s" "trace (appended d s) = trace s"
  "event_fn (appended d s) = event_fn s" "now_ms (appended d s) = now_ms s"
  "parser (appended d s) = parser s" "queue_count (appended d s) = queue_count s"
  "retries (appended d s) = retries s" "max_retries (appended d s) = max_retries s"
  "host_address (appended d s) = host_address s" "bms_address (appended d s) = bms_address s"
  "tx_fn (appended d s) = tx_fn s" "tx_ctx (appended d s) = tx_ctx s" "event_ctx (appended d s) = event_ctx s"
  "cached_cell_count (appended d s) = cached_cell_count s" "cached_temp_count (appended d s) = cached_temp_count s"
  by (simp_all add: appended_def pending_requests_def)

lemma appended_recording:
  assumes "recording bytes n s t" and "FAULT_RECORDS = req_id (hd (pending_requests s))"
    and "record_frame d" and "length bytes + 7 \<le> FAULT_BUFFER_LEN"
  shows "recording (bytes @ drop 1 d) (n + 1) s (appended d t)"
proof -
  from assms(1) have t: "session_ok t" "state t = AWAITING" "pending_requests t = pending_requests s"
    "record_len t = length bytes" "take (length bytes) (record_buf t) = bytes"
    by (simp_all add: recording_def)
  have "session_ok (appended d t)"
    using appended_ok [OF t(1, 2) _ assms(3)] assms(2, 4) t(3, 4) by simp
  moreover have "record_buf (appended d t) = bytes @ drop 1 d @ drop (length bytes + 7) (record_buf t)"
    using t(4, 5) by (simp add: appended_def)
  moreover have "frames_seen (appended d t) = frames_seen t + 1" "record_len (appended d t) = length bytes + 7"
    using t(4) by (simp_all add: appended_def)
  ultimately show ?thesis using assms(1, 3) by (simp add: recording_def record_frame_def)
qed

lemma recording_deadline: "recording b n s t \<Longrightarrow> recording b n s (t\<lparr>deadline_ms := d\<rparr>)"
  by (simp add: recording_def pending_requests_def)

lemma recording_parser:
  "recording b n s t \<Longrightarrow> parser_inv p \<Longrightarrow> content p = [] \<Longrightarrow> recording b n s (put_parser p t)"
  using put_parser_ok [of t p] by (simp add: recording_def put_parser_def pending_requests_def)

definition fault_frame :: "session \<Rightarrow> data_bytes \<Rightarrow> message_bytes" where
  "fault_frame s = reply_frame s FAULT_RECORDS"

lemma feed_fault_frame:
  assumes "recording bytes n s t" and "FAULT_RECORDS = req_id (hd (pending_requests s))"
    and "length d = DATA_LEN"
  shows "\<exists>p. recording bytes n s (put_parser p t) \<and>
    (\<forall>rest. feed env (Some (fault_frame s d @ rest)) t =
      handle_stream env FAULT_RECORDS d (put_parser p t) \<bind> feed env (Some rest))"
proof -
  have len: "length d = 8" using assms(3) by simp
  from assms(1) have t: "parser_inv (parser t)" "content (parser t) = []" "bms_address t = bms_address s"
    by (simp_all add: recording_def session_ok_def session_inv_def)
  have wf: "wire_frame (fault_frame s d)" unfolding fault_frame_def by (rule reply_frame_fields [OF len])
  from feed_wire_frame [OF wf t(1, 2), of env] obtain p where p: "parser_inv p" "content p = []"
    and run: "\<And>rest. feed env (Some (fault_frame s d @ rest)) t =
      on_frame env (fault_frame s d) (put_parser p t) \<bind> feed env (Some rest)" by blast
  note r = recording_parser [OF assms(1) p]
  then have u: "session_ok (put_parser p t)" "state (put_parser p t) = AWAITING"
    "pending_requests (put_parser p t) = pending_requests s" "bms_address (put_parser p t) = bms_address s"
    by (simp_all add: recording_def)
  have "fault_frame s d = reply_frame (put_parser p t) FAULT_RECORDS d"
    by (simp add: fault_frame_def reply_frame_def u(4))
  moreover have "FAULT_RECORDS \<noteq> STATUS_INFO" "FAULT_RECORDS \<noteq> BMU_CELL_TEMP_COUNT" by simp_all
  then have "note_counts FAULT_RECORDS d u = u" for u unfolding note_counts_def by (simp only: if_False)
  ultimately have "on_frame env (fault_frame s d) (put_parser p t) =
      handle_stream env FAULT_RECORDS d (put_parser p t)"
    using on_reply [OF u(1, 2) _ len, of FAULT_RECORDS env] assms(2) u(3)
    by (simp add: multi_iff streaming_iff)
  with r run show ?thesis by auto
qed

lemma feed_fault_frames:
  assumes "recording bytes n s t" and "FAULT_RECORDS = req_id (hd (pending_requests s))"
    and "\<forall>d \<in> set ds. record_frame d" and "length bytes + 7 * length ds < FAULT_BUFFER_LEN"
  shows "\<exists>t'. recording (bytes @ concat (map (drop 1) ds)) (n + length ds) s t' \<and>
    (\<forall>rest. feed env (Some (concat (map (fault_frame s) ds) @ rest)) t = feed env (Some rest) t')"
  using assms(1, 3, 4)
proof (induction ds arbitrary: bytes n t)
  case Nil
  then show ?case by auto
next
  case (Cons d ds)
  from Cons.prems(2) have d: "record_frame d" "length d = DATA_LEN" by (simp_all add: record_frame_def)
  from feed_fault_frame [OF Cons.prems(1) assms(2) d(2), of env] obtain p where
    p: "recording bytes n s (put_parser p t)"
    and run: "\<And>rest. feed env (Some (fault_frame s d @ rest)) t =
      handle_stream env FAULT_RECORDS d (put_parser p t) \<bind> feed env (Some rest)" by blast
  let ?u = "put_parser p t"
  let ?t = "(appended d ?u)\<lparr>deadline_ms := now_ms ?u + interframe_timeout_ms ?u\<rparr>"
  have u: "session_ok ?u" "state ?u = AWAITING" "record_len ?u + 7 < FAULT_BUFFER_LEN"
    using p Cons.prems(3) by (simp_all add: recording_def)
  then have "handle_stream env FAULT_RECORDS d ?u = Some ?t"
    using handle_stream_eq(1) [OF u(1) d(1)] by simp
  moreover have "recording (bytes @ drop 1 d) (n + 1) s ?t"
    using appended_recording [OF p assms(2) d(1)] Cons.prems(3) by (intro recording_deadline) simp
  moreover have "length (drop 1 d) = 7" using d(2) by simp
  ultimately show ?case
    using Cons.IH [of "bytes @ drop 1 d" "n + 1" ?t] Cons.prems(2, 3) run by auto
qed

lemma stream_start:
  assumes "reachable s" and "busy s" and "record_len s = 0" and "content (parser s) = []"
  shows "recording [] 0 s s" and "session_idle_ok s"
proof -
  from reachable_ok [OF assms(1)] show ok: "session_idle_ok s" .
  with assms(2-4) show "recording [] 0 s s"
    by (cases "state s") (simp_all add: recording_def session_idle_ok_def busy_def)
qed

text \<open>The record in four frames; a whole record, up to the event.\<close>

definition record_of :: "data_bytes list \<Rightarrow> fault_record" where
  "record_of ds = the (decode_fault_record (Some (concat (map (drop 1) ds))))"

lemma feed_record:
  assumes "recording [] n s t" and "FAULT_RECORDS = req_id (hd (pending_requests s))"
    and "length ds = FAULT_FRAMES_PER_RECORD" and "\<forall>d \<in> set ds. record_frame d"
  shows "\<exists>u. decode_fault_record (Some (concat (map (drop 1) ds))) = Some (record_of ds) \<and>
    recording (concat (map (drop 1) ds)) (n + length ds) s u \<and>
    (\<forall>rest. feed env (Some (concat (map (fault_frame s) ds) @ rest)) t =
      emit env (record_event (record_of ds)) u \<bind> resume \<bind> feed env (Some rest))"
proof -
  let ?k = "last ds" and ?ds = "butlast ds"
  from assms(3) have split: "ds = ?ds @ [?k]" "length ?ds = 3" by (simp_all del: length_0_conv flip: length_greater_0_conv)
  from assms(4) split(1) have d: "\<forall>d \<in> set ?ds. record_frame d" "record_frame ?k"
    by (metis in_set_butlastD, metis in_set_conv_decomp)
  then have len: "length ?k = DATA_LEN" by (simp add: record_frame_def)
  from feed_fault_frames [OF assms(1, 2) d(1), of env] split(2) obtain t1 where
    t1: "recording (concat (map (drop 1) ?ds)) (n + length ?ds) s t1"
    and run1: "\<And>rest. feed env (Some (concat (map (fault_frame s) ?ds) @ rest)) t = feed env (Some rest) t1"
    by auto
  from feed_fault_frame [OF t1 assms(2) len, of env] obtain p where
    p: "recording (concat (map (drop 1) ?ds)) (n + length ?ds) s (put_parser p t1)"
    and run2: "\<And>rest. feed env (Some (fault_frame s ?k @ rest)) t1 =
      handle_stream env FAULT_RECORDS ?k (put_parser p t1) \<bind> feed env (Some rest)" by blast
  let ?u = "put_parser p t1"
  have "length (concat (map (drop 1) ?ds)) = (\<Sum>d\<leftarrow>?ds. 7)"
    unfolding length_concat map_map using d(1)
    by (intro arg_cong [where f = sum_list] map_cong) (simp_all add: record_frame_def)
  then have bytes: "length (concat (map (drop 1) ?ds)) = 21" using split(2) by (simp add: sum_list_triv)
  then have u: "session_ok ?u" "state ?u = AWAITING" "record_len ?u = 21"
    "take (record_len ?u) (record_buf ?u) = concat (map (drop 1) ?ds)"
    using p by (simp_all add: recording_def)
  have cat: "concat (map (drop 1) ds) = concat (map (drop 1) ?ds) @ drop 1 ?k"
    "concat (map (fault_frame s) ds) = concat (map (fault_frame s) ?ds) @ fault_frame s ?k"
    by (subst split(1), simp)+
  have fit: "record_len ?u + 7 = FAULT_BUFFER_LEN" using u(3) by simp
  from handle_stream_eq(2) [OF u(1) d(2) eq_imp_le [OF fit] u(2) fit, of env, unfolded u(4) cat(1) [symmetric]]
  obtain r where r: "decode_fault_record (Some (concat (map (drop 1) ds))) = Some r"
    "handle_stream env FAULT_RECORDS ?k ?u = emit env (record_event r) (appended ?k ?u) \<bind> resume"
    by blast
  have "recording (concat (map (drop 1) ds)) (n + length ?ds + 1) s (appended ?k ?u)"
    unfolding cat(1) using appended_recording [OF p assms(2) d(2)] bytes by simp
  moreover have "feed env (Some (concat (map (fault_frame s) ds) @ rest)) t =
      emit env (record_event r) (appended ?k ?u) \<bind> resume \<bind> feed env (Some rest)" for rest
    unfolding cat(2) append_assoc run1 run2 r(2) ..
  moreover have "n + length ?ds + 1 = n + length ds" using split(2) assms(3) by simp
  moreover have "record_of ds = r" using r(1) by (simp add: record_of_def)
  ultimately show ?thesis using r(1) by metis
qed

section \<open>The events of a stream\<close>

lemma pump_outputs:
  assumes "queue_ok s" and "pump s = Some s'"
  shows "\<exists>txs. trace s' = trace s @ txs \<and> list_all transmission txs \<and> length txs \<le> 1"
proof -
  from pump_total [OF assms(1)] assms(2) have "s' = s \<or> s' = started (hd (pending_requests s)) s"
    by (cases "state s"; cases "queue_count s = 0") auto
  moreover have "trace (started h s) = trace s @ tx_outputs s h" for h by (simp add: started_def)
  ultimately show ?thesis by (metis append_Nil2 le0 list.pred_inject(1) list.size(3) tx_outputs_transmission)
qed

lemma queue_ok_record_len [simp]: "queue_ok (s\<lparr>record_len := n\<rparr>) = queue_ok s"
  by (simp add: queue_ok_def QUEUE_CAPACITY_def pending_requests_def)

lemma resume_outputs:
  assumes "queue_ok s" and "resume s = Some s'"
  shows "\<exists>txs. trace s' = trace s @ txs \<and> list_all transmission txs \<and> length txs \<le> 1"
    and "record_len s' = 0"
proof -
  let ?t = "s\<lparr>record_len := 0\<rparr>"
  have ok: "queue_ok ?t" using assms(1) by simp
  show "\<exists>txs. trace s' = trace s @ txs \<and> list_all transmission txs \<and> length txs \<le> 1"
    using assms(2) pump_outputs [OF ok, of s'] by (cases "state s") (auto simp: resume_def)
  show "record_len s' = 0"
    using assms(2) pump_total [OF ok]
    by (cases "state s"; cases "queue_count s = 0") (auto simp: resume_def started_def)
qed

text \<open>
  C24: four frames of the stream make a fault record.  With a request for the records in flight
  and no part of a record received, the bytes of four frames, none of them the end marker, produce
  exactly one event, a response with the record decoded from their 28 payload bytes; afterwards no
  part of a record is left over.
\<close>

theorem fault_record_streamed:
  assumes "reachable s" and "busy s" and "record_len s = 0" and "content (parser s) = []"
    and "req_id (hd (pending_requests s)) = FAULT_RECORDS"
    and "length ds = FAULT_FRAMES_PER_RECORD" and "\<forall>d \<in> set ds. record_frame d"
  shows "\<exists>r s'. decode_fault_record (Some (concat (map (drop 1) ds))) = Some r \<and>
    feed env (Some (concat (map (fault_frame s) ds))) s = Some s' \<and>
    reports (record_event r) s s' \<and> record_len s' = 0"
proof -
  note st = stream_start [OF assms(1-4)]
  let ?r = "record_of ds"
  from feed_record [OF st(1) assms(5) [symmetric] assms(6, 7), of env] obtain u where
    r: "decode_fault_record (Some (concat (map (drop 1) ds))) = Some ?r"
    and u: "recording (concat (map (drop 1) ds)) (0 + length ds) s u"
    and run: "\<And>rest. feed env (Some (concat (map (fault_frame s) ds) @ rest)) s =
      emit env (record_event ?r) u \<bind> resume \<bind> feed env (Some rest)" by blast
  from feed_ok [OF st(2)] obtain s' where
    s': "feed env (Some (concat (map (fault_frame s) ds))) s = Some s'" by blast
  have "emit env (record_event ?r) u \<bind> resume = Some s'" using run [of "[]"] s' by simp
  then obtain t where t: "emit env (record_event ?r) u = Some t" "resume t = Some s'"
    by (auto simp: bind_eq_Some_conv)
  have iu: "in_step u" "trace u = trace s"
    using u session_ok_in_step by (simp_all add: recording_def)
  from emit_handled [of u env "record_event ?r"] iu(1) t(1) obtain ses where
    h: "handled (u\<lparr>trace := trace u @ EMIT (record_event ?r) # owner_entry u (record_event ?r) @ ses\<rparr>) t"
    and ses: "\<exists>fn c. ses = handler_entry fn c (record_event ?r)" and ok: "queue_ok t"
    by (auto simp: in_step_def)
  from h have tr: "trace t = trace s @ EMIT (record_event ?r) # owner_entry u (record_event ?r) @ ses"
    using iu(2) by (simp add: handled_trace)
  from resume_outputs [OF ok t(2)] obtain txs where
    tx: "trace s' = trace t @ txs" "list_all transmission txs" "length txs \<le> 1" and "record_len s' = 0"
    by blast
  moreover have "reports (record_event ?r) s s'"
    unfolding reports_def using tr tx ses
    by (intro exI [of _ "owner_entry u (record_event ?r) @ ses"] exI [of _ txs]) auto
  ultimately show ?thesis using r s' by blast
qed

lemma complete_retires:
  assumes "in_step s" and "state s = AWAITING" and "complete s = Some s'"
  shows "pending_requests s' = tl (pending_requests s)"
proof -
  let ?t = "(pop_request s)\<lparr>state := IDLE\<rparr>"
  have q: "queue_ok s" "queue_count s \<noteq> 0" using assms(1, 2) by (simp_all add: in_step_def)
  have p: "pending_requests ?t = tl (pending_requests s)" "queue_ok ?t"
    using pop_request_ok [OF q] by (simp_all add: queue_ok_def QUEUE_CAPACITY_def pending_requests_def)
  from pump_total [OF p(2)] assms(2, 3) p(1) show ?thesis by (simp add: complete_def Let_def)
qed

definition truncated_event :: "u8 \<Rightarrow> event" where
  "truncated_event n = default_event\<lparr>kind := PROTOCOL_ERROR, event_id := FAULT_RECORDS,
    error := ERR_TRUNCATED, frames := n\<rparr>"

lemma awaiting_head:
  assumes "reachable s" and "busy s"
  shows "session_ok s" and "state s = AWAITING" and "head s = Some (hd (pending_requests s))"
  using reachable_ok [OF assms(1)] assms(2) session_okD(4) [of s]
  by (cases "state s"; simp add: session_idle_ok_def busy_def)+


section \<open>A stream longer than its counter\<close>

text \<open>With no handler to call, an event only leaves its mark in the trace.\<close>

lemma emit_unheard:
  assumes "head s = Some h" and "on_event h = None" and "event_fn s = None" and "\<not> dispatching s"
  shows "emit env e s = Some (s\<lparr>trace := trace s @ [EMIT e]\<rparr>)"
proof -
  obtain c where "(if state s = AWAITING \<and> queue_count s > 0
      then map_option (\<lambda>h. (on_event h, on_event_ctx h)) (head s) else Some (None, 0)) = Some (None, c)"
    using assms(1, 2) by (cases "state s = AWAITING \<and> queue_count s > 0") auto
  moreover have "s\<lparr>dispatching := False, trace := x\<rparr> = s\<lparr>trace := x\<rparr>" for x
    using assms(4) by (cases s) simp
  ultimately show ?thesis
    using assms(3, 4) by (simp add: emit_def Let_def call_handler_def)
qed

lemma recording_head:
  assumes "recording b n s t"
  shows "head t = Some (hd (pending_requests s))"
  using assms session_okD(4) [of t] by (simp add: recording_def)

lemma recording_extends:
  assumes "recording b n s t" and "session_idle_ok s"
  shows "recording [] n (s\<lparr>trace := tr\<rparr>) (t\<lparr>trace := tr, record_len := 0, deadline_ms := d\<rparr>)
    \<longleftrightarrow> session_ok (t\<lparr>trace := tr, record_len := 0, deadline_ms := d\<rparr>)"
  using assms by (simp add: recording_def pending_requests_def)

text \<open>
  Any number of records, with handlers of which it is known what they add to the trace and that
  they leave the session alone.
\<close>

definition told :: "(event \<Rightarrow> observable list) \<Rightarrow> data_bytes list list \<Rightarrow> observable list" where
  "told outs dss = concat (map (\<lambda>ds. outs (record_event (record_of ds))) dss)"

definition only_told :: "environment \<Rightarrow> (event \<Rightarrow> observable list) \<Rightarrow> session \<Rightarrow> bool" where
  "only_told env outs s \<longleftrightarrow> (\<forall>e u. session_ok u \<and> state u = AWAITING \<and> dispatching u = dispatching s \<and>
    pending_requests u = pending_requests s \<and> same_setup s u \<longrightarrow>
    emit env e u = Some (u\<lparr>trace := trace u @ outs e\<rparr>)) \<and>
    (\<forall>e. good_event e \<longrightarrow> list_all good_entry (outs e))"

lemma record_event_good: "good_event (record_event r)"
  by (simp add: record_event_def good_event_def event_wf_def payload_sized_def default_event_def
      frame_rejection_def payload_fits_def is_alarm_threshold_id_def)

lemma feed_records:
  assumes "recording [] n s t" and "session_idle_ok s" and "FAULT_RECORDS = req_id (hd (pending_requests s))"
    and "only_told env outs s"
    and "\<forall>ds \<in> set dss. length ds = FAULT_FRAMES_PER_RECORD \<and> (\<forall>d \<in> set ds. record_frame d)"
  shows "\<exists>t'. recording [] (n + 4 * length dss) (s\<lparr>trace := trace s @ told outs dss\<rparr>) t' \<and>
    (\<forall>rest. feed env (Some (concat (map (fault_frame s) (concat dss)) @ rest)) t = feed env (Some rest) t')"
  using assms
proof (induction dss arbitrary: n s t)
  case Nil
  then show ?case by (intro exI [of _ t]) (simp add: told_def)
next
  case (Cons ds dss)
  from Cons.prems(5) have ds: "length ds = FAULT_FRAMES_PER_RECORD" "\<forall>d \<in> set ds. record_frame d" by auto
  let ?e = "record_event (record_of ds)"
  from feed_record [OF Cons.prems(1, 3) ds, of env] obtain u where
    u: "recording (concat (map (drop 1) ds)) (n + length ds) s u"
    and run: "\<And>rest. feed env (Some (concat (map (fault_frame s) ds) @ rest)) t =
      emit env ?e u \<bind> resume \<bind> feed env (Some rest)" by blast
  have uu: "session_ok u" "state u = AWAITING" "trace u = trace s"
    using u by (simp_all add: recording_def)
  let ?tr = "trace s @ outs ?e"
  let ?v = "u\<lparr>trace := ?tr, record_len := 0, deadline_ms := now_ms u + interframe_timeout_ms u\<rparr>"
  have "emit env ?e u = Some (u\<lparr>trace := ?tr\<rparr>)"
    using Cons.prems(4) u unfolding only_told_def by (simp add: recording_def)
  then have step: "emit env ?e u \<bind> resume = Some ?v"
    using uu(2) by (simp add: resume_def)
  have "list_all good_entry (outs ?e)" using Cons.prems(4) record_event_good by (simp add: only_told_def)
  then have tr: "session_ok (x\<lparr>trace := ?tr\<rparr>)" if "session_ok x" "trace x = trace s" for x
    using that by (auto simp: session_ok_def)
  have "session_ok ?v"
  proof -
    have "session_ok (u\<lparr>trace := ?tr, record_len := 0\<rparr>)"
      using tr [OF uu(1, 3)]
      by (simp add: session_ok_def session_inv_def seen_ok_def current_info_def queue_ok_def
          QUEUE_CAPACITY_def pending_requests_def)
    then show ?thesis using session_ok_deadline by simp
  qed
  with recording_extends [OF u Cons.prems(2)]
  have rec: "recording [] (n + length ds) (s\<lparr>trace := ?tr\<rparr>) ?v" by blast
  have sok: "session_idle_ok (s\<lparr>trace := ?tr\<rparr>)"
    using tr [of s] Cons.prems(2) by (simp add: session_idle_ok_def)
  have ff: "fault_frame (s\<lparr>trace := x\<rparr>) = fault_frame s" for x
    by (simp add: fun_eq_iff fault_frame_def reply_frame_def)
  have ot: "only_told env outs (s\<lparr>trace := ?tr\<rparr>)" using Cons.prems(4) by (simp add: only_told_def)
  have "\<exists>t'. recording [] (n + length ds + 4 * length dss)
      ((s\<lparr>trace := ?tr\<rparr>)\<lparr>trace := trace (s\<lparr>trace := ?tr\<rparr>) @ told outs dss\<rparr>) t' \<and>
    (\<forall>rest. feed env (Some (concat (map (fault_frame (s\<lparr>trace := ?tr\<rparr>)) (concat dss)) @ rest)) ?v =
      feed env (Some rest) t')"
    by (rule Cons.IH [OF rec sok _ ot]) (use Cons.prems in simp_all)
  then obtain t' where t':
    "recording [] (n + length ds + 4 * length dss) (s\<lparr>trace := trace s @ told outs (ds # dss)\<rparr>) t'"
    "\<And>rest. feed env (Some (concat (map (fault_frame s) (concat dss)) @ rest)) ?v = feed env (Some rest) t'"
    by (auto simp: ff told_def)
  have "feed env (Some (concat (map (fault_frame s) (concat (ds # dss))) @ rest)) t = feed env (Some rest) t'"
    for rest
    using run [of "concat (map (fault_frame s) (concat dss)) @ rest"] t'(2) [of rest]
    unfolding step by simp
  with t'(1) ds(1) show ?case by (intro exI [of _ t']) (simp add: algebra_simps)
qed

text \<open>
  C39: the session counts the frames of a stream in 8 bits, and after 256 of them believes it has
  received none.  With no handlers, a request for the records in flight and a retry left, 64
  complete records (256 frames) are delivered as 64 events; if the stream then stalls, the request
  is sent again, as if it had never been answered, instead of being reported as \<open>TRUNCATED\<close>.
\<close>

theorem fault_stream_count_wraps:
  assumes "reachable s" and "busy s" and "record_len s = 0" and "content (parser s) = []"
    and "req_id (hd (pending_requests s)) = FAULT_RECORDS" and "frames_seen s = 0"
    and "on_event (hd (pending_requests s)) = None" and "event_fn s = None"
    and "retries s < max_retries s" and "length dss = 64"
    and "\<forall>ds \<in> set dss. length ds = FAULT_FRAMES_PER_RECORD \<and> (\<forall>d \<in> set ds. record_frame d)"
  shows "\<exists>t s' rs. feed env (Some (concat (map (fault_frame s) (concat dss)))) s = Some t \<and>
    length rs = 64 \<and> trace t = trace s @ map (\<lambda>r. EMIT (record_event r)) rs \<and>
    tick env (deadline_ms t) t = Some s' \<and>
    trace s' = trace t @ tx_outputs t (hd (pending_requests s)) \<and>
    pending_requests s' = pending_requests s"
proof -
  note st = stream_start [OF assms(1-4)]
  let ?outs = "\<lambda>e. [EMIT e]" and ?rs = "map record_of dss"
  have tell: "told ?outs dss = map (\<lambda>r. EMIT (record_event r)) ?rs" by (induction dss) (simp_all add: told_def)
  have "only_told env ?outs s"
    unfolding only_told_def
  proof (intro conjI allI impI)
    fix e u
    assume u: "session_ok u \<and> state u = AWAITING \<and> dispatching u = dispatching s \<and>
      pending_requests u = pending_requests s \<and> same_setup s u"
    then have "head u = Some (hd (pending_requests s))" using session_okD(4) [of u] by simp
    moreover have "\<not> dispatching u" using u st(2) by (simp add: session_idle_ok_def)
    ultimately show "emit env e u = Some (u\<lparr>trace := trace u @ [EMIT e]\<rparr>)"
      using emit_unheard [of u "hd (pending_requests s)"] assms(7, 8) u by simp
  qed simp
  from feed_records [OF st assms(5) [symmetric] this assms(11)] assms(10) obtain t where
    t: "recording [] 256 (s\<lparr>trace := trace s @ map (\<lambda>r. EMIT (record_event r)) ?rs\<rparr>) t"
    and run: "\<And>rest. feed env (Some (concat (map (fault_frame s) (concat dss)) @ rest)) s = feed env (Some rest) t"
    unfolding tell by auto
  have fed: "feed env (Some (concat (map (fault_frame s) (concat dss)))) s = Some t"
    using run [of "[]"] by simp
  have tt: "session_ok t" "state t = AWAITING" "pending_requests t = pending_requests s"
    "trace t = trace s @ map (\<lambda>r. EMIT (record_event r)) ?rs" "retries t < max_retries t"
    using t assms(9) by (simp_all add: recording_def)
  have "frames_seen t = 0" using t assms(6) by (simp add: recording_def)
  from tick_retransmits [OF tt(1, 2) expired_now not_answered [OF this] tt(5), of env] tt(3)
  obtain s' where "tick env (deadline_ms t) t = Some s'"
    "trace s' = trace t @ tx_outputs t (hd (pending_requests s))"
    "pending_requests s' = pending_requests s"
    by (auto simp: pending_requests_def)
  with fed assms(10) tt(4) show ?thesis by (metis length_map)
qed

section \<open>A stream\<close>

definition fault_run :: "session option" where
  "fault_run = run_from_start [Api_call (Poll_fault_records None 0)]"

lemma fault_run_state:
  "map_option (\<lambda>s. (busy s, record_len s, content (parser s), frames_seen s, event_fn s, retries s,
     max_retries s, map (\<lambda>h. (req_id h, on_event h)) (pending_requests s))) fault_run =
   Some (True, 0, [], 0, None, 0, 1, [(FAULT_RECORDS, None)])"
  by code_simp

lemma fault_run_facts:
  "\<exists>s. fault_run = Some s \<and> reachable s \<and> busy s \<and> record_len s = 0 \<and> content (parser s) = [] \<and>
    req_id (hd (pending_requests s)) = FAULT_RECORDS \<and> frames_seen s = 0 \<and>
    on_event (hd (pending_requests s)) = None \<and> event_fn s = None \<and> retries s < max_retries s"
proof -
  from run_from_start_reachable obtain s where s: "fault_run = Some s" "reachable s"
    unfolding fault_run_def by blast
  have "map (\<lambda>h. (req_id h, on_event h)) (pending_requests s) = [(FAULT_RECORDS, None)]"
    using fault_run_state unfolding s(1) by simp
  then have "req_id (hd (pending_requests s)) = FAULT_RECORDS" "on_event (hd (pending_requests s)) = None"
    by (cases "pending_requests s"; simp)+
  with s fault_run_state show ?thesis unfolding s(1) by (intro exI [of _ s]) simp
qed

definition sample_record :: "data_bytes list" where
  "sample_record = map (\<lambda>k. k # replicate 7 k) [0, 1, 2, 3]"

lemma sample_record_frames:
  "length sample_record = FAULT_FRAMES_PER_RECORD" "\<forall>d \<in> set sample_record. record_frame d"
  by (simp_all add: sample_record_def record_frame_def)

theorem fault_record_streamed_witness:
  "\<exists>s r s'. fault_run = Some s \<and> feed quiet_env (Some (concat (map (fault_frame s) sample_record))) s = Some s' \<and>
    reports (record_event r) s s' \<and> record_len s' = 0"
proof -
  from fault_run_facts obtain s where s: "fault_run = Some s" "reachable s" "busy s" "record_len s = 0"
    "content (parser s) = []" "req_id (hd (pending_requests s)) = FAULT_RECORDS" by blast
  from fault_record_streamed [OF s(2-6) sample_record_frames, of quiet_env] s(1) show ?thesis by blast
qed


theorem fault_stream_count_wraps_witness:
  "\<exists>s t s'. fault_run = Some s \<and>
    feed quiet_env (Some (concat (map (fault_frame s) (concat (replicate 64 sample_record))))) s = Some t \<and>
    tick quiet_env (deadline_ms t) t = Some s' \<and>
    trace s' = trace t @ tx_outputs t (hd (pending_requests s))"
proof -
  from fault_run_facts obtain s where s: "fault_run = Some s" "reachable s" "busy s" "record_len s = 0"
    "content (parser s) = []" "req_id (hd (pending_requests s)) = FAULT_RECORDS" "frames_seen s = 0"
    "on_event (hd (pending_requests s)) = None" "event_fn s = None" "retries s < max_retries s" by blast
  from fault_stream_count_wraps [OF s(2-10), of "replicate 64 sample_record" quiet_env]
    sample_record_frames s(1) show ?thesis by fastforce
qed

end
