(* ===== verification/Boundaries.thy ===== *)
theory Boundaries
  imports FaultStream
begin

text \<open>
  The edges of the session's contract: frames that answer nothing, framing errors, requests made
  while the session is idle but an event is being dispatched, requests made long after the last
  tick, the cell and sensor counts it remembers, and \<open>reset()\<close>.
\<close>

section \<open>Frames that answer nothing\<close>

definition rejection_event :: "data_id \<Rightarrow> error_code \<Rightarrow> event" where
  "rejection_event i x = default_event\<lparr>kind := PROTOCOL_ERROR, event_id := i, error := x\<rparr>"

text \<open>Why a frame is turned away, in the order of the tests.\<close>

definition rejection :: "session \<Rightarrow> message_bytes \<Rightarrow> error_code option" where
  "rejection s f =
    (let i = f ! MSG_DATA_ID_INDEX
     in if \<not> busy s then Some ERR_UNEXPECTED_DATA_ID
        else if f ! MSG_ADDRESS_INDEX \<noteq> bms_address s then Some ERR_BAD_SOURCE_ADDRESS
        else if i \<noteq> req_id (hd (pending_requests s)) then Some ERR_UNEXPECTED_DATA_ID
        else if i \<in> set paginated_ids \<and> data_of f ! 0 > MAX_FRAME_INDEX then Some ERR_FRAME_SEQUENCE
        else None)"

lemma on_frame_rejects:
  assumes "session_ok s" and "length f = MSG_MAX_LEN" and "rejection s f = Some x"
  shows "on_frame env f s = emit env (rejection_event (f ! MSG_DATA_ID_INDEX) x) s"
proof -
  let ?i = "f ! MSG_DATA_ID_INDEX"
  consider (idle) "state s = IDLE" "x = ERR_UNEXPECTED_DATA_ID"
    | (address) "state s = AWAITING" "f ! MSG_ADDRESS_INDEX \<noteq> bms_address s" "x = ERR_BAD_SOURCE_ADDRESS"
    | (other) "state s = AWAITING" "f ! MSG_ADDRESS_INDEX = bms_address s"
        "?i \<noteq> req_id (hd (pending_requests s))" "x = ERR_UNEXPECTED_DATA_ID"
    | (counter) "state s = AWAITING" "f ! MSG_ADDRESS_INDEX = bms_address s"
        "?i = req_id (hd (pending_requests s))" "?i \<in> set paginated_ids"
        "data_of f ! 0 > MAX_FRAME_INDEX" "x = ERR_FRAME_SEQUENCE"
    using assms(3) by (cases "state s") (auto simp: rejection_def Let_def busy_def split: if_splits)
  then show ?thesis
  proof cases
    case counter
    note pg = paginated_frames_seen [OF assms(1) counter(1) counter(4) [unfolded counter(3)]]
    have "note_counts ?i (data_of f) s = s" by (rule note_counts_paginated [OF counter(4)])
    moreover have "multi (multiframe_info ?i)" "\<not> streaming (multiframe_info ?i)"
      using counter(4) by (auto simp: multi_iff streaming_iff paginated_ids_def)
    ultimately have "on_frame env f s = handle_multi env ?i (data_of f) s"
      using counter(1-3) session_okD(4) [OF assms(1) counter(1)] by (simp add: on_frame_def Let_def)
    also have "\<dots> = emit env (rejection_event ?i x) s"
      using handle_multi_eq [of s "data_of f" env ?i] pg counter(5, 6) by (simp add: rejection_event_def)
    finally show ?thesis .
  qed (use session_okD(4) [OF assms(1)] in \<open>auto simp: on_frame_def Let_def rejection_event_def\<close>)
qed

text \<open>An event alone: reported to the handlers, and the transaction unharmed.\<close>

definition only_reports :: "event \<Rightarrow> session \<Rightarrow> session \<Rightarrow> bool" where
  "only_reports e s s' \<longleftrightarrow>
    (\<exists>calls. trace s' = trace s @ EMIT e # calls \<and> list_all (handler_call e) calls) \<and>
    (busy s' = busy s \<and> (\<exists>new. pending_requests s' = pending_requests s @ new) \<and>
       deadline_ms s' = deadline_ms s \<and> retries s' = retries s \<and> seen_mask s' = seen_mask s \<and>
       frames_seen s' = frames_seen s \<and> assembly s' = assembly s \<and> record_len s' = record_len s \<or>
     \<not> busy s' \<and> content (parser s') = [])"

lemma emit_only_reports:
  assumes "queue_ok s" and "emit env e s = Some s'"
  shows "only_reports e s s'"
proof -
  from emit_handled [OF assms(1), of env e] assms(2) obtain ses where
    h: "handled (s\<lparr>trace := trace s @ EMIT e # owner_entry s e @ ses\<rparr>) s'"
    and ses: "\<exists>fn c. ses = handler_entry fn c e" by auto
  have "trace s' = trace s @ EMIT e # owner_entry s e @ ses" using handled_trace [OF h] by simp
  moreover have "list_all (handler_call e) (owner_entry s e @ ses)" using ses by auto
  moreover have "busy s' = busy s \<and> (\<exists>new. pending_requests s' = pending_requests s @ new) \<and>
       deadline_ms s' = deadline_ms s \<and> retries s' = retries s \<and> seen_mask s' = seen_mask s \<and>
       frames_seen s' = frames_seen s \<and> assembly s' = assembly s \<and> record_len s' = record_len s \<or>
     \<not> busy s' \<and> content (parser s') = []"
    using h by (auto simp: handled_def continued_def abandoned_def untouched_def busy_def
        parser_reset_def content_def)
  ultimately show ?thesis unfolding only_reports_def by blast
qed



section \<open>Requests made from a handler while nothing is in flight\<close>

text \<open>A handler that asks for the clock whenever it is called.\<close>

definition polling_env :: environment where
  "polling_env f c e t = Call (Poll_rtc None 0) (\<lambda>_. Done)"

definition stranded_run :: "session option" where
  "stranded_run = run_from_start [Api_action (Set_event_handler (Some 5) 0),
     Api_feed polling_env (Some (encode 1 RTC (replicate 8 0)))]"

lemma stranded_run_state:
  "map_option (\<lambda>s. (busy s, tx_fn s, map req_id (pending_requests s), trace s)) stranded_run =
   Some (False, Some 1, [RTC], [EMIT (rejection_event RTC ERR_UNEXPECTED_DATA_ID),
     HANDLER 5 0 (rejection_event RTC ERR_UNEXPECTED_DATA_ID)])"
  by code_simp

lemma idle_ticks:
  assumes "\<not> busy s"
  shows "\<exists>s'. run_api (map (\<lambda>(env, t). Api_tick env t) ts) s = Some s' \<and> \<not> busy s' \<and>
    trace s' = trace s \<and> pending_requests s' = pending_requests s"
  using assms
proof (induction ts arbitrary: s)
  case (Cons et ts)
  obtain env t where et: "et = (env, t)" by fastforce
  have "tick env t s = Some (s\<lparr>now_ms := t\<rparr>)"
    using Cons.prems by (cases "state s") (simp_all add: tick_def Let_def busy_def)
  with Cons.IH [of "s\<lparr>now_ms := t\<rparr>"] Cons.prems show ?case
    by (auto simp: et busy_def pending_requests_def)
qed simp


section \<open>Requests made long after the last tick\<close>

lemma call_starts:
  assumes "reachable s" and "\<not> busy s" and "do_call c s = Some (QUEUED, s')"
  shows "\<exists>q s1. s1 = s\<lparr>queue := q, queue_count := queue_count s + 1\<rparr> \<and>
    pending_requests s1 = pending_requests s @ [call_request c] \<and>
    s' = started (hd (pending_requests s @ [call_request c])) s1 \<and>
    session_idle_ok s' \<and> pending_requests s' = pending_requests s @ [call_request c]"
proof -
  let ?r = "call_request c"
  from reachable_ok [OF assms(1)] have ok: "queue_ok s" "\<not> dispatching s"
    using session_okD(1) by (auto simp: session_idle_ok_def)
  have en: "enqueue ?r s = Some (QUEUED, s')" using assms(3) by (simp add: do_call_enqueue)
  then have "tx_fn s \<noteq> None" "is_known_data_id (req_id ?r)" "queue_count s < QUEUE_CAPACITY s"
    by (auto simp: enqueue_def split: if_splits)
  moreover from this have "admissible_request ?r"
    using call_request_data [of c] by (simp add: admissible_request_def)
  ultimately obtain q s1 where
    s1: "s1 = s\<lparr>queue := q, queue_count := queue_count s + 1\<rparr>" "queue_ok s1"
      "pending_requests s1 = pending_requests s @ [?r]"
      "enqueue ?r s = Some (QUEUED, if state s = IDLE \<and> \<not> dispatching s
        then started (hd (pending_requests s @ [?r])) s1 else s1)"
    using enqueue_accepted [OF ok(1)] by blast
  have "state s = IDLE" using assms(2) by (simp add: busy_def)
  then have s': "s' = started (hd (pending_requests s @ [?r])) s1" using s1(4) en ok(2) by simp
  from do_call_ok [OF reachable_ok [OF assms(1)], of c] assms(3) have "session_idle_ok s'" by auto
  moreover have "pending_requests s' = pending_requests s @ [?r]"
    using s1(3) by (simp add: s' started_def pending_requests_def)
  ultimately show ?thesis using s1(1, 3) s' by blast
qed

text \<open>
  The deadline of a request made while nothing is in flight is counted from the last tick,
  not from the moment it is made.  If the next tick is at or past that deadline and a retry is
  left, the request is sent a second time by that tick, however shortly after the first.
\<close>

lemma deadline_counts_from_last_tick:
  assumes "reachable s" and "\<not> busy s" and "do_call c s = Some (QUEUED, s')"
    and "expired t (now_ms s + response_timeout_ms s)" and "0 < max_retries s"
  shows "busy s' \<and> deadline_ms s' = now_ms s + response_timeout_ms s \<and>
    (\<exists>s''. tick env t s' = Some s'' \<and>
      trace s'' = trace s' @ tx_outputs s' (hd (pending_requests s')) \<and>
      pending_requests s'' = pending_requests s')"
proof -
  from call_starts [OF assms(1-3)] obtain q s1 where
    s1: "s1 = s\<lparr>queue := q, queue_count := queue_count s + 1\<rparr>"
      "s' = started (hd (pending_requests s @ [call_request c])) s1" "session_idle_ok s'" by blast
  then have st: "session_ok s'" "state s' = AWAITING" "deadline_ms s' = now_ms s + response_timeout_ms s"
    "frames_seen s' = 0" "retries s' < max_retries s'"
    using assms(5) by (simp_all add: session_idle_ok_def started_def)
  then have ex: "expired t (deadline_ms s')" using assms(4) by simp
  let ?s'' = "s'\<lparr>now_ms := t, retries := retries s' + 1,
    trace := trace s' @ tx_outputs s' (hd (pending_requests s')), deadline_ms := t + response_timeout_ms s'\<rparr>"
  have "tick env t s' = Some ?s''" by (rule tick_retransmits [OF st(1, 2) ex not_answered [OF st(4)] st(5)])
  moreover have "pending_requests ?s'' = pending_requests s'" by (simp add: pending_requests_def)
  ultimately show ?thesis using st(2, 3) by (auto simp: busy_def)
qed

lemma wired_session:
  "run_from_start [] = Some (set_tx_handler (Some 1) 0 (init_session 2 0x40 1))"
  by (simp add: run_from_start_def)

text \<open>The order of calls of the README's quick start, on a host that has been up for 100 seconds.\<close>

lemma deadline_counts_from_last_tick_witness:
  "\<exists>s s' s''. run_from_start [] = Some s \<and> do_call (Poll_rtc None 0) s = Some (QUEUED, s') \<and>
    tick quiet_env 100000 s' = Some s'' \<and>
    trace s'' = [TX 1 0 (encode 0x40 RTC (replicate 8 0)), TX 1 0 (encode 0x40 RTC (replicate 8 0))]"
proof -
  from run_from_start_reachable obtain s where s: "run_from_start [] = Some s" "reachable s" by blast
  have st: "\<not> busy s" "now_ms s = 0" "response_timeout_ms s = 250" "max_retries s = 1"
    using s(1) unfolding wired_session
    by (auto simp: set_tx_handler_def init_session_def busy_def)
  have "map_option (\<lambda>p. (fst p, trace (snd p), map (\<lambda>h. (req_id h, req_data h)) (pending_requests (snd p)),
      tx_fn (snd p), tx_ctx (snd p), host_address (snd p)))
      (do_call (Poll_rtc None 0) (set_tx_handler (Some 1) 0 (init_session 2 0x40 1))) =
    Some (QUEUED, [TX 1 0 (encode 0x40 RTC (replicate 8 0))], [(RTC, replicate 8 0)], Some 1, 0, 0x40)"
    by code_simp
  then obtain s' where s': "do_call (Poll_rtc None 0) s = Some (QUEUED, s')"
    and t: "trace s' = [TX 1 0 (encode 0x40 RTC (replicate 8 0))]"
    "map (\<lambda>h. (req_id h, req_data h)) (pending_requests s') = [(RTC, replicate 8 0)]"
    "tx_fn s' = Some 1" "tx_ctx s' = 0" "host_address s' = 0x40"
    using s(1) unfolding wired_session by auto
  have h: "req_id (hd (pending_requests s')) = RTC" "req_data (hd (pending_requests s')) = replicate 8 0"
    using t(2) by (cases "pending_requests s'"; simp)+
  have "expired 100000 (now_ms s + response_timeout_ms s)" unfolding st by (simp add: expired_unat)
  from deadline_counts_from_last_tick [OF s(2) st(1) s' this, of quiet_env] st(4) obtain s'' where
    "tick quiet_env 100000 s' = Some s''"
    "trace s'' = trace s' @ tx_outputs s' (hd (pending_requests s'))" by auto
  moreover have "tx_outputs s' (hd (pending_requests s')) = [TX 1 0 (encode 0x40 RTC (replicate 8 0))]"
    by (simp only: tx_outputs_def request_frame_def h t option.simps)
  ultimately show ?thesis using s(1) s' t(1) by auto
qed

section \<open>The counts that size a paginated read\<close>

lemma complete_next:
  assumes "in_step s" and "state s = AWAITING" and "pending_requests s = h1 # h2 # rest"
  shows "complete s = Some (started h2 ((pop_request s)\<lparr>state := IDLE\<rparr>))"
    and "pending_requests (started h2 ((pop_request s)\<lparr>state := IDLE\<rparr>)) = h2 # rest"
proof -
  let ?t = "(pop_request s)\<lparr>state := IDLE\<rparr>"
  have q: "queue_ok s" "queue_count s \<noteq> 0" using assms(1, 2) by (simp_all add: in_step_def)
  have p: "pending_requests ?t = h2 # rest" "queue_ok ?t"
    using pop_request_ok [OF q] assms(3) by (simp_all add: queue_ok_def QUEUE_CAPACITY_def pending_requests_def)
  then have "queue_count ?t \<noteq> 0" by (metis length_pending list.size(3) list.distinct(1) length_0_conv)
  with pump_total [OF p(2)] p(1) show "complete s = Some (started h2 ?t)"
    using assms(2) by (auto simp: complete_def Let_def)
  have "pending_requests (started h2 ?t) = pending_requests ?t"
    by (simp add: started_def pending_requests_def)
  with p(1) show "pending_requests (started h2 ?t) = h2 # rest" by simp
qed

text \<open>
  The number of cells and sensors learned from a status reply sizes the paginated reads
  behind it in the queue, although they were queued before the reply came.  A read of the cell
  voltages or temperatures without a count of its own, next in line when the reply to 0x94 arrives,
  is sent with as many items expected as that reply says and the frames that hold them.
\<close>

lemma status_sizes_next_read:
  assumes "reachable s" and "busy s" and "content (parser s) = []" and "length data = DATA_LEN"
    and "pending_requests s = h1 # h2 # rest" and "req_id h1 = STATUS_INFO" and "on_event h1 = None"
    and "event_fn s = None" and "req_id h2 = CELL_VOLTAGES \<or> req_id h2 = CELL_TEMPERATURES"
    and "hint h2 = 0"
  shows "\<exists>s'. feed env (Some (reply_frame s STATUS_INFO data)) s = Some s' \<and> busy s' \<and>
    pending_requests s' = h2 # rest \<and>
    expected_items s' = (if req_id h2 = CELL_VOLTAGES then data ! 0 else data ! 1) \<and>
    expected_frames s' = (if req_id h2 = CELL_VOLTAGES then cell_voltage_frames (data ! 0)
      else cell_temperature_frames (data ! 1))"
proof -
  have h: "hd (pending_requests s) = h1" using assms(5) by simp
  have "STATUS_INFO \<notin> set paginated_ids" "STATUS_INFO \<noteq> FAULT_RECORDS"
    by (simp_all add: paginated_ids_def)
  then have "\<not> multi (multiframe_info (req_id (hd (pending_requests s))))"
    unfolding h assms(6) by (simp add: multi_iff)
  from feed_single_reply [OF assms(1-4) this, of env, unfolded h assms(6)] obtain p where p: "parser_inv p"
    and run: "feed env (Some (reply_frame s STATUS_INFO data)) s =
      emit env (single_reply_event h1 data) (note_counts STATUS_INFO data (put_parser p s)) \<bind> complete"
    by blast
  let ?u = "note_counts STATUS_INFO data (put_parser p s)"
  have ok: "session_ok s" "\<not> dispatching s" "state s = AWAITING"
    using reachable_ok [OF assms(1)] assms(2)
    by (cases "state s"; simp add: session_idle_ok_def busy_def)+
  have u: "session_ok ?u" by (rule note_counts_ok [OF put_parser_ok [OF ok(1) p]])
  have v: "\<not> dispatching ?u" "state ?u = AWAITING" "event_fn ?u = None"
    "pending_requests ?u = h1 # h2 # rest" "cached_cell_count ?u = data ! 0" "cached_temp_count ?u = data ! 1"
    using ok(2, 3) assms(5, 8)
    by (simp_all add: put_parser_def note_counts_def pending_requests_def)
  have "head ?u = Some h1" using session_okD(4) [OF u v(2)] v(4) by simp
  from emit_unheard [OF this assms(7) v(3, 1)]
  have em: "emit env (single_reply_event h1 data) ?u =
      Some (?u\<lparr>trace := trace ?u @ [EMIT (single_reply_event h1 data)]\<rparr>)" .
  let ?t = "?u\<lparr>trace := trace ?u @ [EMIT (single_reply_event h1 data)]\<rparr>"
  have t: "in_step ?t" "state ?t = AWAITING" "pending_requests ?t = h1 # h2 # rest"
    using session_ok_in_step [OF u] v(2, 4) by (simp_all add: in_step_def)
  let ?s' = "started h2 ((pop_request ?t)\<lparr>state := IDLE\<rparr>)"
  have "feed env (Some (reply_frame s STATUS_INFO data)) s = Some ?s'"
    unfolding run em using complete_next(1) [OF t] by simp
  moreover have "busy ?s'" by (simp add: busy_def started_def)
  moreover have "expected_items ?s' = (if req_id h2 = CELL_VOLTAGES then data ! 0 else data ! 1)"
    "expected_frames ?s' = (if req_id h2 = CELL_VOLTAGES then cell_voltage_frames (data ! 0)
      else cell_temperature_frames (data ! 1))"
    using assms(9, 10) v(5, 6)
    by (auto simp: started_def request_items_def request_frames_def pop_request_def)
  ultimately show ?thesis using complete_next(2) [OF t] by blast
qed

definition sized_run :: "session option" where
  "sized_run = run_from_start [Api_call (Poll_status_info None 0), Api_call (Poll_cell_voltages 0 None 0)]"

lemma sized_run_state:
  "map_option (\<lambda>s. (busy s, content (parser s), event_fn s,
     map (\<lambda>h. (req_id h, on_event h, hint h)) (pending_requests s))) sized_run =
   Some (True, [], None, [(STATUS_INFO, None, 0), (CELL_VOLTAGES, None, 0)])"
  by code_simp

lemma status_sizes_next_read_witness:
  "\<exists>s s'. sized_run = Some s \<and>
    feed quiet_env (Some (reply_frame s STATUS_INFO [16, 4, 0, 0, 0, 0, 0, 0])) s = Some s' \<and>
    expected_items s' = 16 \<and> expected_frames s' = 6"
proof -
  from run_from_start_reachable obtain s where s: "sized_run = Some s" "reachable s"
    unfolding sized_run_def by blast
  have st: "busy s" "content (parser s) = []" "event_fn s = None"
    and p: "map (\<lambda>h. (req_id h, on_event h, hint h)) (pending_requests s) =
      [(STATUS_INFO, None, 0), (CELL_VOLTAGES, None, 0)]"
    using sized_run_state unfolding s(1) by simp_all
  from p obtain h1 h2 where h: "pending_requests s = [h1, h2]" "req_id h1 = STATUS_INFO"
    "on_event h1 = None" "req_id h2 = CELL_VOLTAGES" "hint h2 = 0" by auto
  have six: "cell_voltage_frames 16 = 6" by code_simp
  from status_sizes_next_read [OF s(2) st(1, 2) _ h(1-3) st(3) disjI1 [OF h(4)] h(5),
      of "[16, 4, 0, 0, 0, 0, 0, 0]" quiet_env] six h(4) s(1)
  show ?thesis by auto
qed

end
