(* ===== verification/Progress.thy ===== *)
theory Progress
  imports Boundaries
begin

text \<open>
  Progress: whatever the device does, or if it does nothing at all, every accepted request comes
  to an end as long as the clock is passed in.  The handlers considered here watch without asking
  for anything.
\<close>

section \<open>Handlers that only watch\<close>

primrec silent_client :: "client \<Rightarrow> bool" where
  "silent_client Done \<longleftrightarrow> True"
| "silent_client (Call c k) \<longleftrightarrow> False"
| "silent_client (Act a k) \<longleftrightarrow> False"
| "silent_client (Observe k) \<longleftrightarrow> (\<forall>obs. silent_client (k obs))"

definition watching :: "environment \<Rightarrow> bool" where
  "watching env \<longleftrightarrow> (\<forall>f c e t. silent_client (env f c e t))"

lemma run_watching: "silent_client c \<Longrightarrow> run_client c s = Some s"
  by (induction c) simp_all

lemma quiet_watching [simp]: "watching quiet_env"
  by (simp add: watching_def quiet_env_def)

definition calls_of :: "session \<Rightarrow> event \<Rightarrow> observable list" where
  "calls_of s e = owner_entry s e @ handler_entry (event_fn s) (event_ctx s) e"

lemma call_watching:
  "watching env \<Longrightarrow> call_handler env fn c e s = Some (s\<lparr>trace := trace s @ handler_entry fn c e\<rparr>)"
  by (cases fn) (simp_all add: call_handler_def watching_def run_watching)

lemma emit_watching:
  assumes "watching env" and "queue_ok s"
  shows "emit env e s = Some (s\<lparr>trace := trace s @ EMIT e # calls_of s e\<rparr>)"
proof -
  let ?owned = "state s = AWAITING \<and> queue_count s > 0"
  define own where "own = (if ?owned then (on_event (hd (pending_requests s)),
    on_event_ctx (hd (pending_requests s))) else (None, 0))"
  have own: "(if ?owned then map_option (\<lambda>h. (on_event h, on_event_ctx h)) (head s) else Some (None, 0))
      = Some own"
    using head_pending [OF assms(2)] by (simp add: own_def)
  have entry: "owner_entry s e = handler_entry (fst own) (snd own) e"
    by (simp add: owner_entry_def own_def Let_def)
  have d: "s\<lparr>dispatching := d, trace := x\<rparr> = s\<lparr>trace := x\<rparr>" if "dispatching s = d" for d x
    using that by (cases s) simp
  show ?thesis
    unfolding emit_def own using d
    by (cases own; cases "dispatching s") (simp_all add: call_watching [OF assms(1)] calls_of_def entry)
qed

section \<open>The events of a trace\<close>

fun emitted :: "observable list \<Rightarrow> event list" where
  "emitted [] = []"
| "emitted (EMIT e # os) = e # emitted os"
| "emitted (o1 # os) = emitted os"

lemma emitted_append [simp]: "emitted (xs @ ys) = emitted xs @ emitted ys"
  by (induction xs rule: emitted.induct) simp_all

lemma emitted_none:
  "list_all (handler_call e) xs \<Longrightarrow> emitted xs = []" "list_all transmission xs \<Longrightarrow> emitted xs = []"
  by (induction xs rule: emitted.induct) simp_all

lemma calls_of_calls [simp]: "list_all (handler_call e) (calls_of s e)"
  by (simp add: calls_of_def)

lemma emitted_tx_outputs [simp]:
  "emitted (tx_outputs s h) = []" "emitted (concat (replicate n (tx_outputs s h))) = []"
proof -
  show "emitted (tx_outputs s h) = []" by (rule emitted_none) simp
  then show "emitted (concat (replicate n (tx_outputs s h))) = []" by (induction n) simp_all
qed

section \<open>The end of a transaction\<close>

text \<open>The deadline passes and nothing is left to try: an event for the request, and the next one.\<close>

lemma tick_final:
  assumes "session_ok s" and "state s = AWAITING" and "expired now (deadline_ms s)"
    and "answered s \<or> \<not> retries s < max_retries s"
  shows "\<exists>e. event_id e = req_id (hd (pending_requests s)) \<and>
    tick env now s = emit env e (s\<lparr>now_ms := now\<rparr>) \<bind> complete"
proof -
  let ?s = "s\<lparr>now_ms := now\<rparr>" and ?i = "req_id (hd (pending_requests s))"
  have h: "head ?s = Some (hd (pending_requests s))" using session_okD(4) [OF assms(1, 2)] by simp
  consider (page) "?i \<in> set paginated_ids" "frames_seen s \<noteq> 0"
    | (stream) "?i = FAULT_RECORDS" "frames_seen s \<noteq> 0"
    | (none) "\<not> answered s" "\<not> retries s < max_retries s"
    using assms(4) by (auto simp: answered_def current_info_def multi_iff)
  then show ?thesis
  proof cases
    case page
    note pg = paginated_frames_seen [OF assms(1, 2) page(1)]
    have "multi (multiframe_info ?i)" "\<not> streaming (multiframe_info ?i)"
      using page(1) by (auto simp: multi_iff streaming_iff paginated_ids_def)
    then have tk: "tick env now s = finish_multi env ?i ?s"
      using h page(2) assms(2, 3) by (simp add: tick_def Let_def word_gt_0)
    have "seen_mask ?s \<noteq> 0" using pg(1) page(2) by (auto simp: popcount_card)
    moreover have "counters (seen_mask ?s) \<subseteq> {..<17}" "length (assembly ?s) = ASSEMBLY_LEN"
      using pg(2, 3) by simp_all
    ultimately obtain p where "finish_multi env ?i ?s =
        emit env (default_event\<lparr>event_id := ?i, frames := frames_seen ?s, payload := p\<rparr>) ?s \<bind> complete"
      using finish_multi_eq [of ?s ?i env] page(1) by blast
    then show ?thesis
      unfolding tk by (intro exI [of _ "default_event\<lparr>event_id := ?i, frames := frames_seen ?s, payload := p\<rparr>"]) simp
  next
    case stream
    then show ?thesis
      using h assms(2, 3)
      by (intro exI [of _ "truncated_event (frames_seen s)"])
        (simp add: tick_def Let_def streaming_iff truncated_event_def word_gt_0)
  next
    case none
    then show ?thesis
      using tick_times_out [OF assms(1-3), of env]
      by (intro exI [of _ "timeout_event ?i (retries s)"]) (simp add: timeout_event_def)
  qed
qed

lemma expire_add: "expire env (m + n) s = expire env m s \<bind> expire env n"
  by (induction m arbitrary: s) (auto split: Option.bind_splits)

text \<open>The state after the oldest request is retired: idle, or the next one just sent.\<close>

definition after_retiring :: "session \<Rightarrow> session \<Rightarrow> bool" where
  "after_retiring s t \<longleftrightarrow> pending_requests t = tl (pending_requests s) \<and> max_retries t = max_retries s \<and>
    (if tl (pending_requests s) = [] then state t = IDLE
     else state t = AWAITING \<and> frames_seen t = 0 \<and> retries t = 0)"

lemma complete_after_retiring:
  assumes "in_step s" and "state s = AWAITING" and "complete s = Some t"
  shows "after_retiring s t"
proof -
  let ?u = "(pop_request s)\<lparr>state := IDLE\<rparr>"
  have q: "queue_ok s" "queue_count s \<noteq> 0" using assms(1, 2) by (simp_all add: in_step_def)
  have p: "pending_requests ?u = tl (pending_requests s)" "queue_ok ?u"
    using pop_request_ok [OF q] by (simp_all add: queue_ok_def QUEUE_CAPACITY_def pending_requests_def)
  have run: "pump ?u = Some t" using assms(2, 3) by (simp add: complete_def Let_def)
  have c: "queue_count ?u = 0 \<longleftrightarrow> tl (pending_requests s) = []"
    by (metis p(1) length_pending length_0_conv)
  have m: "max_retries ?u = max_retries s" "state ?u = IDLE" by (simp_all add: pop_request_def)
  have st: "max_retries (started h x) = max_retries x" "state (started h x) = AWAITING"
    "frames_seen (started h x) = 0" "retries (started h x) = 0" for h x
    by (simp_all add: started_def)
  from complete_retires [OF assms] have "pending_requests t = tl (pending_requests s)" .
  moreover have "tl (pending_requests s) = [] \<Longrightarrow> t = ?u"
    "tl (pending_requests s) \<noteq> [] \<Longrightarrow> t = started (hd (pending_requests ?u)) ?u"
    using pump_total [OF p(2)] run c m(2) by auto
  ultimately show ?thesis
    unfolding after_retiring_def using m st by (cases "tl (pending_requests s) = []") simp_all
qed

lemma one_request_ends:
  assumes "session_ok s" and "state s = AWAITING" and "watching env"
  shows "\<exists>n t new e. n \<le> unat (max_retries s) + 1 \<and> expire env n s = Some t \<and> session_ok t \<and>
    after_retiring s t \<and> trace t = trace s @ new \<and> emitted new = [e] \<and>
    event_id e = req_id (hd (pending_requests s)) \<and>
    (frames_seen s = 0 \<and> retries s = 0 \<longrightarrow> e = timeout_event (event_id e) (max_retries s))"
proof -
  define k where "k = (if answered s then 0 else unat (max_retries s) - unat (retries s))"
  obtain s1 where s1: "expire env k s = Some s1" "session_ok s1" "state s1 = AWAITING"
    "answered s1 \<or> \<not> retries s1 < max_retries s1" "max_retries s1 = max_retries s"
    "pending_requests s1 = pending_requests s"
    "trace s1 = trace s @ concat (replicate k (tx_outputs s (hd (pending_requests s))))"
    "frames_seen s = 0 \<and> retries s = 0 \<longrightarrow> \<not> answered s1 \<and> retries s1 = max_retries s"
  proof (cases "answered s \<or> \<not> retries s < max_retries s")
    case True
    then have "k = 0" by (auto simp: k_def word_less_nat_alt)
    moreover have "frames_seen s = 0 \<and> retries s = 0 \<longrightarrow> \<not> answered s \<and> retries s = max_retries s"
      using True by (auto simp: answered_def word_gt_0)
    ultimately show thesis using that [of s] True assms(1, 2) by simp
  next
    case False
    then have lt: "unat (retries s) + k \<le> unat (max_retries s)" and na: "\<not> answered s"
      by (auto simp: k_def word_less_nat_alt)
    from expire_retransmits [OF assms(1, 2) na lt, of env] obtain s1 where
      s1: "expire env k s = Some s1" "session_ok s1" "state s1 = AWAITING" "\<not> answered s1"
        "retries s1 = retries s + of_nat k" "max_retries s1 = max_retries s"
        "pending_requests s1 = pending_requests s"
        "trace s1 = trace s @ concat (replicate k (tx_outputs s (hd (pending_requests s))))" by blast
    have "retries s1 = max_retries s"
      using s1(5) False by (simp add: k_def of_nat_diff word_less_nat_alt)
    with that [of s1] s1 show thesis by simp
  qed
  let ?u = "s1\<lparr>now_ms := deadline_ms s1\<rparr>" and ?r = "hd (pending_requests s)"
  obtain e where e: "event_id e = req_id ?r"
    "tick env (deadline_ms s1) s1 = emit env e ?u \<bind> complete"
    "frames_seen s = 0 \<and> retries s = 0 \<longrightarrow> e = timeout_event (event_id e) (max_retries s)"
  proof (cases "frames_seen s = 0 \<and> retries s = 0")
    case True
    with s1(8) have na: "\<not> answered s1" "retries s1 = max_retries s" by auto
    then have "\<not> retries s1 < max_retries s1" using s1(5) by simp
    from tick_times_out [OF s1(2, 3) expired_now na(1) this, of env] na(2) s1(6)
      that [of "timeout_event (req_id ?r) (max_retries s)"]
    show thesis by (simp add: timeout_event_def)
  next
    case False
    from tick_final [OF s1(2, 3) expired_now s1(4), of env] s1(6) that False show thesis by auto
  qed
  have u: "in_step ?u" "state ?u = AWAITING" "pending_requests ?u = pending_requests s"
    "max_retries ?u = max_retries s" "queue_ok ?u"
    using session_ok_in_step [of ?u] s1(2, 3, 5, 6) by (simp_all add: in_step_def pending_requests_def)
  from emit_watching [OF assms(3) u(5), of e]
  have em: "emit env e ?u = Some (?u\<lparr>trace := trace s1 @ EMIT e # calls_of ?u e\<rparr>)" by simp
  let ?v = "?u\<lparr>trace := trace s1 @ EMIT e # calls_of ?u e\<rparr>"
  from tick_ok [OF s1(2), of env "deadline_ms s1"] obtain t where
    t: "tick env (deadline_ms s1) s1 = Some t" "session_ok t" by (auto simp: fine_def)
  then have run: "complete ?v = Some t" using e(2) em by simp
  have v: "in_step ?v" "state ?v = AWAITING" "pending_requests ?v = pending_requests s"
    "max_retries ?v = max_retries s"
    using u by (simp_all add: in_step_def pending_requests_def)
  have ar: "after_retiring s t"
    using complete_after_retiring [OF v(1, 2) run] v(3, 4) by (simp add: after_retiring_def)
  from complete_outputs [OF v(1) run] obtain txs where
    tx: "trace t = trace ?v @ txs" "list_all transmission txs" by blast
  let ?new = "concat (replicate k (tx_outputs s ?r)) @ EMIT e # calls_of ?u e @ txs"
  have "trace t = trace s @ ?new" using tx(1) s1(7) by simp
  moreover have "emitted ?new = [e]"
    using emitted_none(1) [OF calls_of_calls] emitted_none(2) [OF tx(2)] by simp
  moreover have "expire env (k + 1) s = Some t"
    unfolding expire_add using s1(1) t(1) by simp
  moreover have "k + 1 \<le> unat (max_retries s) + 1" by (simp add: k_def)
  ultimately show ?thesis using t(2) ar e(1, 3) by blast
qed

lemma all_requests_end:
  assumes "session_ok s" and "watching env" and "pending_requests s = rs"
    and "rs \<noteq> [] \<longrightarrow> state s = AWAITING"
  shows "\<exists>n t new. n \<le> length rs * (unat (max_retries s) + 1) \<and> expire env n s = Some t \<and>
    pending_requests t = [] \<and> trace t = trace s @ new \<and>
    map event_id (emitted new) = map req_id rs \<and>
    (frames_seen s = 0 \<and> retries s = 0 \<longrightarrow>
      emitted new = map (\<lambda>r. timeout_event (req_id r) (max_retries s)) rs)"
  using assms
proof (induction rs arbitrary: s)
  case Nil
  then show ?case by (intro exI [of _ 0] exI [of _ s] exI [of _ "[]"]) simp
next
  case (Cons r rs)
  from one_request_ends [OF Cons.prems(1) _ Cons.prems(2)] Cons.prems(3, 4) obtain n1 t1 new1 e where
    t1: "n1 \<le> unat (max_retries s) + 1" "expire env n1 s = Some t1" "session_ok t1"
      "after_retiring s t1" "trace t1 = trace s @ new1" "emitted new1 = [e]" "event_id e = req_id r"
      "frames_seen s = 0 \<and> retries s = 0 \<longrightarrow> e = timeout_event (event_id e) (max_retries s)" by auto
  have a: "pending_requests t1 = rs" "max_retries t1 = max_retries s"
    "rs \<noteq> [] \<longrightarrow> state t1 = AWAITING \<and> frames_seen t1 = 0 \<and> retries t1 = 0"
    using t1(4) Cons.prems(3) by (auto simp: after_retiring_def split: if_splits)
  from Cons.IH [OF t1(3) Cons.prems(2) a(1)] a(3) obtain n2 t2 new2 where
    t2: "n2 \<le> length rs * (unat (max_retries t1) + 1)" "expire env n2 t1 = Some t2"
      "pending_requests t2 = []" "trace t2 = trace t1 @ new2" "map event_id (emitted new2) = map req_id rs"
      "frames_seen t1 = 0 \<and> retries t1 = 0 \<longrightarrow>
        emitted new2 = map (\<lambda>r. timeout_event (req_id r) (max_retries t1)) rs" by blast
  have "expire env (n1 + n2) s = Some t2" unfolding expire_add using t1(2) t2(2) by simp
  moreover have "n1 + n2 \<le> length (r # rs) * (unat (max_retries s) + 1)"
    using t1(1) t2(1) a(2) by simp
  moreover have "map event_id (emitted (new1 @ new2)) = map req_id (r # rs)"
    using t1(6, 7) t2(5) by simp
  moreover have "emitted (new1 @ new2) = map (\<lambda>r. timeout_event (req_id r) (max_retries s)) (r # rs)"
    if "frames_seen s = 0 \<and> retries s = 0"
  proof (cases "rs = []")
    case True
    then have "emitted new2 = []" using t2(5) by simp
    with True t1(6-8) that show ?thesis by simp
  next
    case False
    with t1(6-8) t2(6) a(2, 3) that show ?thesis by simp
  qed
  moreover have "trace t2 = trace s @ new1 @ new2" using t1(5) t2(4) by simp
  ultimately show ?case using t2(3) by blast
qed



end
