(* ===== verification/Steps.thy ===== *)
theory Steps
  imports Progress
begin

text \<open>
  Relations between the states of a session before and after some of its operations.  A relation
  that survives what the library does in the small, starting and finishing a request, sending it
  again and dispatching an event, survives whole frames, bytes and ticks; the case analysis over
  the code is made here once, for any such relation.
\<close>

section \<open>Relations a session keeps\<close>

locale step_relation =
  fixes rel :: "session \<Rightarrow> session \<Rightarrow> bool" and ok :: "environment \<Rightarrow> bool"
  assumes rel_refl: "rel s s"
    and rel_trans: "rel s t \<Longrightarrow> rel t u \<Longrightarrow> rel s u"
    and rel_hidden: "same_bus s t \<Longrightarrow> rel s t"
    and rel_pump: "queue_ok s \<Longrightarrow> pump s = Some t \<Longrightarrow> rel s t"
    and rel_complete: "in_step s \<Longrightarrow> complete s = Some t \<Longrightarrow> rel s t"
    and rel_again: "in_step s \<Longrightarrow> state s = AWAITING \<Longrightarrow> retries s < max_retries s \<Longrightarrow>
      transmit (s\<lparr>retries := retries s + 1\<rparr>) = Some t \<Longrightarrow> rel s t"
    and rel_emit: "in_step s \<Longrightarrow> ok env \<Longrightarrow> emit env e s = Some t \<Longrightarrow> rel s t"
begin

lemma emit_complete_rel:
  assumes "in_step s" and "ok env" and "emit env e s = Some t" and "complete t = Some s'"
  shows "rel s s'"
  using rel_trans [OF rel_emit [OF assms(1-3)] rel_complete [OF emit_silent(2) [OF assms(1, 3)] assms(4)]] .

lemma handle_single_rel:
  "in_step s \<Longrightarrow> ok env \<Longrightarrow> handle_single env i data s = Some s' \<Longrightarrow> rel s s'"
  unfolding handle_single_def Let_def
  by (auto simp: bind_eq_Some_conv split: if_splits option.splits intro: emit_complete_rel)

lemma finish_multi_rel:
  "in_step s \<Longrightarrow> ok env \<Longrightarrow> finish_multi env i s = Some s' \<Longrightarrow> rel s s'"
  unfolding finish_multi_def Let_def
  by (elim bind_eq_Some_conv [THEN iffD1, elim_format] exE conjE) (rule emit_complete_rel)

lemma handle_multi_rel:
  assumes "in_step s" and "ok env" and "handle_multi env i data s = Some s'"
  shows "rel s s'"
  using assms(3)
proof (cases rule: handle_multi_cases)
  case (reject e)
  with assms(1, 2) show ?thesis by (rule rel_emit)
next
  case (page t)
  from page(2) have "rel t s'"
  proof
    assume "finish_multi env i t = Some s'"
    with in_step_same_bus [OF assms(1) page(1)] assms(2) show ?thesis by (rule finish_multi_rel)
  qed (auto intro!: rel_hidden simp: same_bus_def)
  with rel_hidden [OF page(1)] show ?thesis by (rule rel_trans)
qed

lemma handle_stream_rel:
  assumes "in_step s" and "ok env" and "handle_stream env i data s = Some s'"
  shows "rel s s'"
  using assms(3)
proof (cases rule: handle_stream_cases)
  case stop
  with assms(1) show ?thesis by (rule rel_complete)
next
  case (next_frame t u n)
  have t: "in_step t" by (rule in_step_same_bus [OF assms(1) next_frame(1)])
  have u: "rel t u" "in_step u"
    using next_frame(2) rel_emit [OF t assms(2)] emit_silent(2) [OF t] t rel_refl by auto
  let ?v = "u\<lparr>record_len := n\<rparr>"
  have v: "in_step ?v" "rel u ?v"
    using in_step_update [OF u(2)] rel_hidden [of u ?v] by (simp_all add: same_bus_def)
  have "rel ?v s'"
  proof (cases "state u = AWAITING")
    case True
    with next_frame(3) show ?thesis by (auto intro!: rel_hidden simp: same_bus_def)
  next
    case False
    with next_frame(3) v(1) show ?thesis by (auto simp: in_step_def intro: rel_pump)
  qed
  with rel_hidden [OF next_frame(1)] u(1) v(2) show ?thesis by (blast intro: rel_trans)
qed

lemma on_frame_rel:
  assumes "in_step s" and "ok env" and "on_frame env frame s = Some s'"
  shows "rel s s'"
proof -
  let ?i = "frame ! MSG_DATA_ID_INDEX" and ?t = "note_counts (frame ! MSG_DATA_ID_INDEX) (data_of frame) s"
  have t: "same_bus s ?t" by (simp add: same_bus_def note_counts_def)
  note st = in_step_same_bus [OF assms(1) t]
  from assms(3) have "(\<exists>e. emit env e s = Some s') \<or>
      handle_single env ?i (data_of frame) ?t = Some s' \<or>
      handle_stream env ?i (data_of frame) ?t = Some s' \<or>
      handle_multi env ?i (data_of frame) ?t = Some s'"
    by (auto simp: on_frame_def Let_def bind_eq_Some_conv split: if_splits)
  then show ?thesis
    using rel_emit [OF assms(1, 2)] rel_trans [OF rel_hidden [OF t]] handle_single_rel [OF st assms(2)]
      handle_stream_rel [OF st assms(2)] handle_multi_rel [OF st assms(2)] by blast
qed

lemma on_frame_error_rel:
  assumes "in_step s" and "ok env" and "on_frame_error env fe s = Some s'"
  shows "rel s s'"
  using assms unfolding on_frame_error_def Let_def
  by (auto simp: bind_eq_Some_conv intro: rel_emit)

lemma tick_rel:
  assumes "in_step s" and "ok env" and "tick env now s = Some s'"
  shows "rel s s'"
proof -
  let ?t = "s\<lparr>now_ms := now\<rparr>"
  have t: "same_bus s ?t" by (simp add: same_bus_def)
  note st = in_step_same_bus [OF assms(1) t]
  from assms(3) have "s' = ?t \<or> (\<exists>i. finish_multi env i ?t = Some s') \<or>
      (\<exists>e v. emit env e ?t = Some v \<and> complete v = Some s') \<or>
      (state ?t = AWAITING \<and> retries ?t < max_retries ?t \<and> transmit (?t\<lparr>retries := retries ?t + 1\<rparr>) = Some s')"
    by (auto simp: tick_def Let_def bind_eq_Some_conv split: if_splits)
  then have "rel ?t s'"
    using rel_refl finish_multi_rel [OF st assms(2)] emit_complete_rel [OF st assms(2)] rel_again [OF st]
    by blast
  with rel_hidden [OF t] show ?thesis by (rule rel_trans)
qed

end

section \<open>Bytes\<close>

text \<open>The session as a client of the framer once more, now with where it has come from.\<close>

definition come_from :: "(session \<Rightarrow> session \<Rightarrow> bool) \<Rightarrow> bool \<Rightarrow> session \<Rightarrow> session \<Rightarrow> bool" where
  "come_from rel allowed s0 s \<longleftrightarrow> session_idle_ok s \<and> (allowed \<longrightarrow> rel s0 s)"

context step_relation begin

lemma come_from_step:
  assumes "come_from rel (ok env) s0 s" and "\<exists>s'. r = Some s' \<and> session_idle_ok s'"
    and "\<And>s'. in_step s \<Longrightarrow> ok env \<Longrightarrow> r = Some s' \<Longrightarrow> rel s s'"
  shows "\<exists>s'. r = Some s' \<and> come_from rel (ok env) s0 s'"
  using assms session_ok_in_step unfolding come_from_def session_idle_ok_def
  by (metis rel_trans)

sublocale come: framer_client parser put_parser "on_frame env" "on_frame_error env"
  "come_from rel (ok env) s0" for env s0
proof unfold_locales
  fix s p assume s: "come_from rel (ok env) s0 s"
  then have ok: "session_idle_ok s" by (simp add: come_from_def)
  show "parser_inv (parser s)" by (rule session_client.I_parser [OF ok])
  show "come_from rel (ok env) s0 (put_parser p s)" if "parser_inv p"
  proof -
    have "rel s (put_parser p s)" by (rule rel_hidden) (simp add: put_parser_def same_bus_def)
    with s session_client.I_put [OF ok that] show ?thesis
      by (auto simp: come_from_def intro: rel_trans)
  qed
  show "\<exists>s'. on_frame env f s = Some s' \<and> come_from rel (ok env) s0 s'" if "valid_frame f" for f
    by (rule come_from_step [OF s session_client.sink_ok [OF ok that]]) (rule on_frame_rel)
  show "\<exists>s'. on_frame_error env e s = Some s' \<and> come_from rel (ok env) s0 s'" for e
    by (rule come_from_step [OF s session_client.error_ok [OF ok]]) (rule on_frame_error_rel)
qed

lemma feed_rel:
  assumes "session_idle_ok s" and "ok env" and "feed env data s = Some s'"
  shows "rel s s'"
proof -
  have "come_from rel (ok env) s s" using assms(1) rel_refl by (simp add: come_from_def)
  from come.parser_feed_total [OF this, of data] assms(2, 3) show ?thesis
    by (auto simp: feed_def come_from_def)
qed

end

end
