(* ===== verification/Link.thy ===== *)
theory Link
  imports Steps
begin

text \<open>
  The session's contract as an abstract machine, and the proof that the session implements it.

  The machine \<open>link_step\<close> knows only the requests that wait, in order, and whether the bus is
  taken by the oldest of them.  It can accept another request, send the oldest, send it again,
  tell an event, call a handler, finish the request it sent, or drop everything; nothing else.
  Buffers, counters, deadlines, retries and the ring buffer of the session are not in it.  Each
  step is labelled with what becomes visible.
\<close>

section \<open>The abstract machine\<close>

record link =
  waiting :: "request list"
  on_bus :: bool

definition wire_of :: "u8 \<Rightarrow> request \<Rightarrow> message_bytes" where
  "wire_of host r = encode host (req_id r) (req_data r)"

text \<open>A request goes out as its frame, or nowhere when there is no TX handler any more.\<close>

definition sends :: "u8 \<Rightarrow> request \<Rightarrow> observable list \<Rightarrow> bool" where
  "sends host r out \<longleftrightarrow> out = [] \<or> (\<exists>f c. out = [TX f c (wire_of host r)])"

inductive link_step :: "u8 \<Rightarrow> request set \<Rightarrow> link \<Rightarrow> observable list \<Rightarrow> link \<Rightarrow> bool"
  for host :: u8 and R :: "request set" where
  ask: "r \<in> R \<Longrightarrow> link_step host R l [] (l\<lparr>waiting := waiting l @ [r]\<rparr>)"
| start: "\<not> on_bus l \<Longrightarrow> waiting l = r # rs \<Longrightarrow> sends host r out \<Longrightarrow>
    link_step host R l out (l\<lparr>on_bus := True\<rparr>)"
| again: "on_bus l \<Longrightarrow> waiting l = r # rs \<Longrightarrow> sends host r out \<Longrightarrow> link_step host R l out l"
| tell: "link_step host R l [EMIT e] l"
| hear: "link_step host R l [HANDLER f c e] l"
| finish: "on_bus l \<Longrightarrow> waiting l = r # rs \<Longrightarrow>
    link_step host R l [] \<lparr>waiting = rs, on_bus = False\<rparr>"
| abandon: "link_step host R l [] \<lparr>waiting = [], on_bus = False\<rparr>"

inductive link_run :: "u8 \<Rightarrow> request set \<Rightarrow> link \<Rightarrow> observable list \<Rightarrow> link \<Rightarrow> bool"
  for host :: u8 and R :: "request set" where
  stop: "link_run host R l [] l"
| more: "link_step host R l out l' \<Longrightarrow> link_run host R l' outs l'' \<Longrightarrow> link_run host R l (out @ outs) l''"

lemma link_run_step: "link_step host R l out l' \<Longrightarrow> link_run host R l out l'"
  using link_run.more [OF _ link_run.stop] by fastforce

lemma link_run_trans:
  "link_run host R l out l' \<Longrightarrow> link_run host R l' out' l'' \<Longrightarrow> link_run host R l (out @ out') l''"
proof (induction rule: link_run.induct)
  case (more l out l1 outs l2)
  then show ?case using link_run.more [of host R l out l1 "outs @ out'" l''] by simp
qed simp

section \<open>What the machine guarantees\<close>

text \<open>Only frames of requests that were waiting or asked for are ever sent.\<close>

lemma link_step_sends:
  assumes "link_step host R l out l'" and "set (waiting l) \<subseteq> R" and "TX f c m \<in> set out"
  shows "m \<in> wire_of host ` R"
  using assms by (induction rule: link_step.induct) (auto simp: sends_def)

lemma link_step_waiting:
  assumes "link_step host R l out l'" and "set (waiting l) \<subseteq> R"
  shows "set (waiting l') \<subseteq> R"
  using assms by (induction rule: link_step.induct) auto

lemma link_run_sends:
  assumes "link_run host R l out l'" and "set (waiting l) \<subseteq> R" and "TX f c m \<in> set out"
  shows "m \<in> wire_of host ` R"
  using assms by (induction rule: link_run.induct) (auto dest: link_step_sends link_step_waiting)

section \<open>Refinement\<close>

definition link_of :: "session \<Rightarrow> link" where
  "link_of s = \<lparr>waiting = pending_requests s, on_bus = busy s\<rparr>"

definition follows :: "request set \<Rightarrow> session \<Rightarrow> session \<Rightarrow> bool" where
  "follows R s s' \<longleftrightarrow> host_address s' = host_address s \<and>
    (\<exists>out. link_run (host_address s) R (link_of s) out (link_of s') \<and> trace s' = trace s @ out)"

lemma follows_step:
  assumes "link_step (host_address s) R (link_of s) out (link_of s')" and "trace s' = trace s @ out"
    and "host_address s' = host_address s"
  shows "follows R s s'"
  using assms link_run_step unfolding follows_def by blast

lemma follows_refl [simp, intro]: "follows R s s"
  unfolding follows_def using link_run.stop by fastforce

lemma follows_trans [trans]:
  assumes "follows R s t" and "follows R t u"
  shows "follows R s u"
proof -
  from assms obtain o1 o2 where
    "link_run (host_address s) R (link_of s) o1 (link_of t)" "trace t = trace s @ o1"
    "link_run (host_address s) R (link_of t) o2 (link_of u)" "trace u = trace t @ o2"
    "host_address u = host_address s"
    unfolding follows_def by auto
  with link_run_trans show ?thesis unfolding follows_def by fastforce
qed

text \<open>Changes the machine cannot see.\<close>

lemma follows_hidden:
  assumes "queue t = queue s" and "queue_head t = queue_head s" and "queue_count t = queue_count s"
    and "state t = state s" and "trace t = trace s" and "host_address t = host_address s"
  shows "follows R s t"
proof -
  have "link_of t = link_of s" using assms by (simp add: link_of_def pending_requests_def busy_def)
  with assms(5, 6) show ?thesis unfolding follows_def using link_run.stop by fastforce
qed

lemma pump_follows:
  assumes "queue_ok s" and "pump s = Some s'"
  shows "follows R s s'"
proof (cases "state s = IDLE \<and> queue_count s \<noteq> 0")
  case True
  let ?h = "hd (pending_requests s)"
  from True have "pending_requests s \<noteq> []" by simp
  then obtain rs where p: "pending_requests s = ?h # rs" by (metis list.collapse)
  have s': "s' = started ?h s" using pump_total [OF assms(1)] assms(2) True by auto
  have "sends (host_address s) ?h (tx_outputs s ?h)"
    by (simp add: sends_def tx_outputs_def request_frame_def wire_of_def split: option.split)
  moreover have "link_of s' = (link_of s)\<lparr>on_bus := True\<rparr>"
    unfolding s' by (simp add: link_of_def busy_def) (simp add: started_def)
  ultimately have "link_step (host_address s) R (link_of s) (tx_outputs s ?h) (link_of s')"
    using link_step.start [of "link_of s" ?h rs] True p by (simp add: link_of_def busy_def)
  then show ?thesis by (rule follows_step) (simp_all add: s' started_def)
next
  case False
  then have "s' = s" using assms(2) by (cases "state s") (auto simp: pump_def)
  then show ?thesis by simp
qed

lemma complete_follows:
  assumes "in_step s" and "complete s = Some s'"
  shows "follows R s s'"
proof -
  let ?t = "(if state s = AWAITING then pop_request s else s)\<lparr>state := IDLE\<rparr>"
  have ok: "queue_ok s" "state s = AWAITING \<Longrightarrow> queue_count s \<noteq> 0"
    using assms(1) by (simp_all add: in_step_def)
  have "queue_ok ?t"
    using pop_request_ok(1) [OF ok(1)] ok
    by (auto simp: queue_ok_def QUEUE_CAPACITY_def pending_requests_def)
  moreover have "pump ?t = Some s'" using assms(2) by (simp only: complete_def Let_def)
  ultimately have next': "follows R ?t s'" by (rule pump_follows)
  have "follows R s ?t"
  proof (cases "state s = AWAITING")
    case True
    with ok(2) obtain r rs where p: "pending_requests s = r # rs"
      by (metis pending_Nil_iff neq_Nil_conv)
    have "link_of ?t = \<lparr>waiting = rs, on_bus = False\<rparr>"
      using True pop_request_ok(2) [OF ok(1)] ok(2) p
      by (simp add: link_of_def busy_def pending_requests_def)
    moreover have "link_step (host_address s) R (link_of s) [] \<lparr>waiting = rs, on_bus = False\<rparr>"
      by (rule link_step.finish [where r = r]) (simp_all add: link_of_def busy_def True p)
    ultimately show ?thesis by (intro follows_step [of _ _ "[]"]) (simp_all add: pop_request_def True)
  next
    case False
    then have "state s = IDLE" by (cases "state s") simp_all
    then show ?thesis by (intro follows_hidden) (simp_all add: False)
  qed
  then show ?thesis using next' by (rule follows_trans)
qed

section \<open>Handlers\<close>

text \<open>The requests a handler may make.\<close>

primrec client_asks :: "request set \<Rightarrow> client \<Rightarrow> bool" where
  "client_asks R Done \<longleftrightarrow> True"
| "client_asks R (Call c k) \<longleftrightarrow> call_request c \<in> R \<and> (\<forall>st. client_asks R (k st))"
| "client_asks R (Act a k) \<longleftrightarrow> client_asks R k"
| "client_asks R (Observe k) \<longleftrightarrow> (\<forall>obs. client_asks R (k obs))"

definition env_asks :: "request set \<Rightarrow> environment \<Rightarrow> bool" where
  "env_asks R env \<longleftrightarrow> (\<forall>f c e t. client_asks R (env f c e t))"

lemma client_asks_all [simp]: "client_asks UNIV c"
  by (induction c) simp_all

lemma env_asks_all [simp]: "env_asks UNIV env"
  by (simp add: env_asks_def)

lemma ask_follows:
  assumes "r \<in> R" and "pending_requests t = pending_requests s @ [r]" and "busy t = busy s"
    and "trace t = trace s" and "host_address t = host_address s"
  shows "follows R s t"
proof -
  have "link_of t = (link_of s)\<lparr>waiting := waiting (link_of s) @ [r]\<rparr>"
    using assms(2, 3) by (simp add: link_of_def)
  with link_step.ask [OF assms(1), of "host_address s" "link_of s"] assms(4, 5) show ?thesis
    by (intro follows_step [of _ _ "[]"]) simp_all
qed

lemma do_call_follows:
  assumes "queue_ok s" and "call_request c \<in> R" and "do_call c s = Some (st, s')"
  shows "follows R s s'"
proof (cases "tx_fn s \<noteq> None \<and> is_known_data_id (req_id (call_request c)) \<and> queue_count s < QUEUE_CAPACITY s")
  case False
  with assms(3) show ?thesis by (auto simp: do_call_enqueue enqueue_def split: if_splits)
next
  case True
  let ?r = "call_request c"
  from True have "admissible_request ?r" using call_request_data [of c] by (simp add: admissible_request_def)
  with True enqueue_accepted [OF assms(1)] obtain q s1 where
    s1: "s1 = s\<lparr>queue := q, queue_count := queue_count s + 1\<rparr>" "queue_ok s1"
      "pending_requests s1 = pending_requests s @ [?r]"
      "enqueue ?r s = Some (QUEUED, if state s = IDLE \<and> \<not> dispatching s
        then started (hd (pending_requests s @ [?r])) s1 else s1)" by blast
  have ask: "follows R s s1" by (rule ask_follows [OF assms(2) s1(3)]) (simp_all add: s1(1) busy_def)
  have st: "queue_count s1 \<noteq> 0" "state s1 = state s" by (simp_all add: s1(1))
  have "follows R s1 s'"
  proof (cases "state s = IDLE \<and> \<not> dispatching s")
    case True
    then have "pump s1 = Some s'"
      using pump_total [OF s1(2)] st s1(3, 4) assms(3) by (auto simp: do_call_enqueue)
    with s1(2) show ?thesis by (rule pump_follows)
  next
    case False
    with s1(4) assms(3) show ?thesis by (auto simp: do_call_enqueue)
  qed
  with ask show ?thesis by (rule follows_trans)
qed

lemma do_action_follows: "follows R s (do_action a s)"
proof (cases a)
  case Reset
  have "link_of (reset s) = \<lparr>waiting = [], on_bus = False\<rparr>"
    by (simp add: link_of_def reset_def busy_def pending_requests_def)
  with link_step.abandon [of "host_address s" R "link_of s"] Reset show ?thesis
    by (intro follows_step [of _ _ "[]"]) (simp_all add: reset_def)
qed (auto intro!: follows_hidden simp: setter_defs)

lemma run_client_follows:
  assumes "queue_ok s" and "dispatching s" and "client_asks R c" and "run_client c s = Some s'"
  shows "follows R s s'"
  using assms
proof (induction c arbitrary: s)
  case (Call c k)
  from do_call_handled [OF Call.prems(1, 2)] obtain st s1 where
    s1: "do_call c s = Some (st, s1)" "queue_ok s1" "handled s s1" by blast
  then have "dispatching s1" using Call.prems(2) handled_untouched by (auto simp: untouched_def)
  with Call.IH [of "k st" s1] s1(1, 2) Call.prems(3, 4) have "follows R s1 s'" by auto
  with do_call_follows [OF Call.prems(1) _ s1(1)] Call.prems(3) show ?case
    by (auto intro: follows_trans)
next
  case (Act a c)
  have "dispatching (do_action a s)"
    using Act.prems(2) handled_untouched [OF do_action_handled] by (auto simp: untouched_def)
  with Act.IH [OF do_action_queue_ok [OF Act.prems(1)]] Act.prems(3, 4)
  have "follows R (do_action a s) s'" by simp
  then show ?case by (rule follows_trans [OF do_action_follows])
next
  case (Observe k)
  from Observe.IH [of "k (observe s)" s] Observe.prems show ?case by auto
qed simp

lemma call_handler_follows:
  assumes "queue_ok s" and "dispatching s" and "env_asks R env" and "call_handler env fn c e s = Some s'"
  shows "follows R s s'"
proof (cases fn)
  case None
  with assms(4) show ?thesis by (simp add: call_handler_def)
next
  case (Some f)
  let ?t = "s\<lparr>trace := trace s @ [HANDLER f c e]\<rparr>"
  have "follows R s ?t"
    using link_step.hear [of "host_address s" R "link_of s" f c e]
    by (intro follows_step [of _ _ "[HANDLER f c e]"]) (simp_all add: link_of_def busy_def)
  moreover have "follows R ?t s'"
    using assms Some
    by (intro run_client_follows [where c = "env f c e (trace s)"]) (simp_all add: call_handler_def env_asks_def)
  ultimately show ?thesis by (rule follows_trans)
qed

lemma emit_follows:
  assumes "queue_ok s" and "env_asks R env" and "emit env e s = Some s'"
  shows "follows R s s'"
proof -
  let ?s0 = "s\<lparr>dispatching := True, trace := trace s @ [EMIT e]\<rparr>"
  from assms(3) obtain fn c s1 s2 where
    s1: "call_handler env fn c e ?s0 = Some s1" and
    s2: "call_handler env (event_fn s1) (event_ctx s1) e s1 = Some s2" and
    s': "s' = (if dispatching s then s2 else s2\<lparr>dispatching := False\<rparr>)"
    unfolding emit_def Let_def by (auto simp: bind_eq_Some_conv)
  have ok: "queue_ok ?s0" "dispatching ?s0" using assms(1) by simp_all
  from call_handler_handled [OF ok, of env fn c e] s1 have ok1: "queue_ok s1" "dispatching s1"
    by (auto dest: handled_untouched simp: untouched_def)
  have "follows R s ?s0"
    using link_step.tell [of "host_address s" R "link_of s" e]
    by (intro follows_step [of _ _ "[EMIT e]"]) (simp_all add: link_of_def busy_def)
  also have "follows R ?s0 s1" by (rule call_handler_follows [OF ok assms(2) s1])
  also have "follows R s1 s2" by (rule call_handler_follows [OF ok1 assms(2) s2])
  also have "follows R s2 s'" unfolding s' by (auto intro: follows_hidden)
  finally show ?thesis .
qed

section \<open>Frames, bytes and time\<close>

lemma transmit_follows:
  assumes "in_step s" and "state s = AWAITING" and "transmit (s\<lparr>retries := n\<rparr>) = Some s'"
  shows "follows R s s'"
proof -
  let ?h = "hd (pending_requests s)" and ?r = "s\<lparr>retries := n\<rparr>"
  have q: "queue_ok s" "queue_count s \<noteq> 0" using assms(1, 2) by (simp_all add: in_step_def)
  then have "pending_requests s \<noteq> []" by simp
  then obtain rs where p: "pending_requests s = ?h # rs" by (metis list.collapse)
  have "head ?r = Some ?h" using head_pending [OF q] by (simp add: head_def)
  then have s': "s' = ?r\<lparr>trace := trace s @ tx_outputs s ?h, deadline_ms := now_ms s + response_timeout_ms s\<rparr>"
    using transmit_eq [of ?r ?h] assms(3)
    by (simp add: tx_outputs_def request_frame_def split: option.split)
  have "link_step (host_address s) R (link_of s) (tx_outputs s ?h) (link_of s)"
    by (rule link_step.again [where r = ?h and rs = rs])
      (simp_all add: link_of_def busy_def assms(2) p [symmetric] sends_def tx_outputs_def
        request_frame_def wire_of_def split: option.split)
  moreover have "link_of s' = link_of s" by (simp add: s' link_of_def pending_requests_def busy_def)
  ultimately show ?thesis
    by (intro follows_step [of _ _ "tx_outputs s ?h"]) (simp_all add: s')
qed

interpretation link: step_relation "follows R" "env_asks R" for R
proof unfold_locales
  fix s t u :: session and env :: environment and e :: event
  show "follows R s s" by (rule follows_refl)
  show "follows R s t \<Longrightarrow> follows R t u \<Longrightarrow> follows R s u" by (rule follows_trans)
  show "same_bus s t \<Longrightarrow> follows R s t" by (rule follows_hidden) (simp_all add: same_bus_def)
  show "queue_ok s \<Longrightarrow> pump s = Some t \<Longrightarrow> follows R s t" by (rule pump_follows)
  show "in_step s \<Longrightarrow> complete s = Some t \<Longrightarrow> follows R s t" by (rule complete_follows)
  show "in_step s \<Longrightarrow> state s = AWAITING \<Longrightarrow> transmit (s\<lparr>retries := retries s + 1\<rparr>) = Some t \<Longrightarrow>
    follows R s t" by (rule transmit_follows)
  show "in_step s \<Longrightarrow> env_asks R env \<Longrightarrow> emit env e s = Some t \<Longrightarrow> follows R s t"
    by (rule emit_follows) (simp_all add: in_step_def)
qed

section \<open>The session implements the machine\<close>

primrec api_asks :: "request set \<Rightarrow> api_call \<Rightarrow> bool" where
  "api_asks R (Api_call c) \<longleftrightarrow> call_request c \<in> R"
| "api_asks R (Api_action a) \<longleftrightarrow> True"
| "api_asks R (Api_feed env data) \<longleftrightarrow> env_asks R env"
| "api_asks R (Api_tick env now) \<longleftrightarrow> env_asks R env"

lemma api_asks_all [simp]: "api_asks UNIV c"
  by (cases c) simp_all

lemma api_follows:
  assumes "session_idle_ok s" and "api_asks R c" and "api c s = Some s'"
  shows "follows R s s'"
proof -
  have st: "in_step s" "queue_ok s"
    using assms(1) session_ok_in_step session_okD(1) by (auto simp: session_idle_ok_def)
  show ?thesis
  proof (cases c)
    case (Api_call x)
    with assms(2, 3) st(2) show ?thesis by (auto intro: do_call_follows)
  next
    case (Api_action a)
    with assms(3) do_action_follows [of R s a] show ?thesis by auto
  next
    case (Api_feed env data)
    with assms link.feed_rel show ?thesis by auto
  next
    case (Api_tick env now)
    with assms(2, 3) st(1) show ?thesis by (auto intro: link.tick_rel)
  qed
qed

lemma run_api_follows:
  assumes "session_idle_ok s" and "\<forall>c \<in> set cs. api_asks R c" and "run_api cs s = Some s'"
  shows "follows R s s'"
  using assms
proof (induction cs arbitrary: s)
  case (Cons c cs)
  from api_ok [OF Cons.prems(1), of c] obtain t where t: "api c s = Some t" "session_idle_ok t" by blast
  have "follows R t s'" using Cons.IH [OF t(2)] Cons.prems(2, 3) t(1) by simp
  with api_follows [OF Cons.prems(1) _ t(1)] Cons.prems(2) show ?case by (auto intro: follows_trans)
qed simp



text \<open>
  C4: nothing is sent that was not asked for.  If all the requests that are made, by the program
  and by its handlers, are in a set \<open>R\<close>, every frame ever handed to the TX handler is the encoding
  of a request of \<open>R\<close> with the session's own address; in particular a session of which no MOSFET
  write is requested never sends one.
\<close>

theorem only_requests_are_sent:
  assumes "0 < capacity" and "\<forall>c \<in> set cs. api_asks R c"
    and "run_api cs (init_session capacity host bms) = Some s" and "TX f ctx m \<in> set (trace s)"
  shows "\<exists>r \<in> R. m = encode host (req_id r) (req_data r)"
proof -
  let ?s0 = "init_session capacity host bms"
  have r: "reachable ?s0" using assms(1) by (rule reachable.construct)
  from run_api_follows [OF reachable_ok [OF r] assms(2, 3)] have "follows R ?s0 s" .
  moreover have "waiting (link_of ?s0) = []" "trace ?s0 = []" "host_address ?s0 = host"
    by (simp_all add: link_of_def init_session_def pending_requests_def)
  ultimately show ?thesis
    using link_run_sends [of host R "link_of ?s0" "trace s" "link_of s" f ctx m] assms(4)
    by (auto simp: follows_def wire_of_def)
qed

text \<open>A program that only reads, with handlers that only read: it never switches a MOSFET.\<close>

definition reads :: "request set" where
  "reads = {r. req_id r \<notin> set mos_ids \<and> length (req_data r) = DATA_LEN}"

theorem only_requests_are_sent_witness:
  "\<exists>s (r :: request). run_api [Api_action (Set_tx_handler (Some 1) 0), Api_action (Set_event_handler (Some 5) 0),
      Api_call (Poll_status_info None 0), Api_tick polling_env 250] (init_session 4 0x40 1) = Some s \<and>
    TX 1 0 (encode 0x40 STATUS_INFO (replicate 8 0)) \<in> set (trace s) \<and>
    encode 0x40 STATUS_INFO (replicate 8 0) = encode 0x40 (req_id r) (req_data r) \<and>
    req_id r \<notin> set mos_ids"
proof -
  let ?cs = "[Api_action (Set_tx_handler (Some 1) 0), Api_action (Set_event_handler (Some 5) 0),
      Api_call (Poll_status_info None 0), Api_tick polling_env 250]"
  have "reachable (init_session 4 0x40 1)" by (rule reachable.construct) simp
  from run_api_reachable [OF this, of ?cs] obtain s where
    s: "run_api ?cs (init_session 4 0x40 1) = Some s" by blast
  have "map_option trace (run_api ?cs (init_session 4 0x40 1)) =
      Some [TX 1 0 (encode 0x40 STATUS_INFO (replicate 8 0)), TX 1 0 (encode 0x40 STATUS_INFO (replicate 8 0))]"
    by code_simp
  then have tx: "TX 1 0 (encode 0x40 STATUS_INFO (replicate 8 0)) \<in> set (trace s)" unfolding s by simp
  have "call_request (Poll_status_info None 0) \<in> reads" "call_request (Poll_rtc None 0) \<in> reads"
    by (simp_all add: reads_def mos_ids_def request.make_def no_data_def)
  then have "\<forall>c \<in> set ?cs. api_asks reads c" by (simp add: env_asks_def polling_env_def)
  from only_requests_are_sent [OF _ this s tx] obtain r where "r \<in> reads"
    "encode 0x40 STATUS_INFO (replicate 8 0) = encode 0x40 (req_id r) (req_data r)" by auto
  moreover from this(1) have "req_id r \<notin> set mos_ids" by (simp add: reads_def)
  ultimately show ?thesis using s tx by (intro exI [of _ s] exI [of _ r] conjI)
qed

end
