(* ===== verification/Restart.thy ===== *)
theory Restart
  imports Link
begin

text \<open>
  \<open>reset()\<close> forgets.  A session after \<open>reset()\<close> still has the bytes of earlier requests in its ring
  buffer, of earlier frames in the framer, of earlier replies in its two reassembly buffers, and
  an old deadline.  None of it ever shows: the relation \<open>alike\<close> leaves all of it out, every
  operation of the interface preserves it, and a session after \<open>reset()\<close> is alike a newly
  constructed one that was given the same addresses, handlers, settings, time and counts.
\<close>

section \<open>Sessions that are alike\<close>

text \<open>What matters of a transaction while it is in flight.\<close>

definition same_transaction :: "session \<Rightarrow> session \<Rightarrow> bool" where
  "same_transaction s t \<longleftrightarrow>
    deadline_ms t = deadline_ms s \<and> retries t = retries s \<and> assembly t = assembly s \<and>
    seen_mask t = seen_mask s \<and> frames_seen t = frames_seen s \<and>
    expected_frames t = expected_frames s \<and> expected_items t = expected_items s \<and>
    record_len t = record_len s \<and>
    take (record_len s) (record_buf t) = take (record_len s) (record_buf s)"

definition same_settings :: "session \<Rightarrow> session \<Rightarrow> bool" where
  "same_settings s t \<longleftrightarrow>
    host_address t = host_address s \<and> bms_address t = bms_address s \<and>
    tx_fn t = tx_fn s \<and> tx_ctx t = tx_ctx s \<and> event_fn t = event_fn s \<and> event_ctx t = event_ctx s \<and>
    response_timeout_ms t = response_timeout_ms s \<and>
    interframe_timeout_ms t = interframe_timeout_ms s \<and> max_retries t = max_retries s"

text \<open>
  Two sessions that no caller can tell apart, when the first has the history \<open>pre\<close> behind it: the
  ring buffers hold the same requests, wherever in the array; the framers hold the same bytes;
  everything that belongs to a transaction agrees while one is in flight.
\<close>

definition alike :: "observable list \<Rightarrow> session \<Rightarrow> session \<Rightarrow> bool" where
  "alike pre s t \<longleftrightarrow>
    same_settings s t \<and> state t = state s \<and> now_ms t = now_ms s \<and> dispatching t = dispatching s \<and>
    cached_cell_count t = cached_cell_count s \<and> cached_temp_count t = cached_temp_count s \<and>
    pending_requests t = pending_requests s \<and> QUEUE_CAPACITY t = QUEUE_CAPACITY s \<and>
    content (parser t) = content (parser s) \<and> discarded (parser t) = discarded (parser s) \<and>
    trace s = pre @ trace t \<and>
    length (assembly t) = length (assembly s) \<and> length (record_buf t) = length (record_buf s) \<and>
    queue_ok s \<and> queue_ok t \<and> parser_inv (parser s) \<and> parser_inv (parser t) \<and>
    (state s = AWAITING \<longrightarrow> queue_count s \<noteq> 0 \<and> same_transaction s t)"

lemma alikeD:
  assumes "alike pre s t"
  shows "state t = state s" "now_ms t = now_ms s" "dispatching t = dispatching s" "tx_fn t = tx_fn s"
    "event_fn t = event_fn s" "event_ctx t = event_ctx s" "bms_address t = bms_address s"
    "max_retries t = max_retries s" "cached_cell_count t = cached_cell_count s"
    "cached_temp_count t = cached_temp_count s" "pending_requests t = pending_requests s"
    "QUEUE_CAPACITY t = QUEUE_CAPACITY s" "trace s = pre @ trace t" "queue_ok s" "queue_ok t"
    "queue_count t = queue_count s" "discarded (parser t) = discarded (parser s)"
  using assms length_pending [of s] length_pending [of t]
  by (simp_all add: alike_def same_settings_def del: length_pending)

lemma alike_transaction:
  assumes "alike pre s t" and "state s = AWAITING"
  shows "same_transaction s t" "queue_count s \<noteq> 0" "head s = Some (hd (pending_requests s))"
    "head t = Some (hd (pending_requests s))"
  using assms alikeD(11, 14-16) [OF assms(1)] head_pending [of s] head_pending [of t]
  by (simp_all add: alike_def)

text \<open>Operations on sessions that are alike: both fail, or both end in sessions that are alike.\<close>

abbreviation both :: "observable list \<Rightarrow> session option \<Rightarrow> session option \<Rightarrow> bool" where
  "both pre \<equiv> rel_option (alike pre)"

lemma rel_bind:
  assumes "rel_option R x y" and "\<And>a b. R a b \<Longrightarrow> rel_option S (f a) (g b)"
  shows "rel_option S (x \<bind> f) (y \<bind> g)"
  using assms by (cases x; cases y) auto

lemma rel_bind_same: "(\<And>a. x = Some a \<Longrightarrow> rel_option S (f a) (g a)) \<Longrightarrow> rel_option S (x \<bind> f) (x \<bind> g)"
  by (cases x) auto

lemmas alike_updates = alike_def same_settings_def same_transaction_def queue_ok_def
  QUEUE_CAPACITY_def pending_requests_def

section \<open>The queue and the life cycle of a transaction\<close>

lemma tx_outputs_alike: "alike pre s t \<Longrightarrow> tx_outputs t h = tx_outputs s h"
  by (simp add: alike_def same_settings_def tx_outputs_def request_frame_def split: option.split)

lemma started_alike:
  assumes "alike pre s t" and "queue_count s \<noteq> 0"
  shows "alike pre (started h s) (started h t)"
  using assms
  by (simp add: started_def tx_outputs_alike [OF assms(1)] request_frames_def request_items_def alike_updates)

lemma pump_alike:
  assumes "alike pre s t"
  shows "both pre (pump s) (pump t)"
proof (cases "state s = IDLE \<and> queue_count s \<noteq> 0")
  case True
  note d = alikeD [OF assms]
  from True have "pump s = Some (started (hd (pending_requests s)) s)"
    "pump t = Some (started (hd (pending_requests s)) t)"
    using pump_total [OF d(14)] pump_total [OF d(15)] d by auto
  with started_alike [OF assms] True show ?thesis by simp
next
  case False
  with assms show ?thesis by (cases "state s") (auto simp: pump_def alikeD)
qed

lemma alike_idle:
  assumes "alike pre s t"
  shows "alike pre (s\<lparr>state := IDLE\<rparr>) (t\<lparr>state := IDLE\<rparr>)"
  using assms by (simp add: alike_updates)

lemma pop_request_alike:
  assumes "alike pre s t" and "state s = AWAITING"
  shows "alike pre ((pop_request s)\<lparr>state := IDLE\<rparr>) ((pop_request t)\<lparr>state := IDLE\<rparr>)"
proof -
  note d = alikeD [OF assms(1)] and c = alike_transaction(2) [OF assms]
  have p: "queue_ok (pop_request s)" "queue_ok (pop_request t)"
    "pending_requests (pop_request t) = pending_requests (pop_request s)"
    using pop_request_ok [OF d(14) c] pop_request_ok [OF d(15)] c d(11, 16) by simp_all
  have m: "queue (pop_request x) = queue x" for x by (simp add: pop_request_def)
  have st: "queue_ok (x\<lparr>state := y\<rparr>) = queue_ok x" "pending_requests (x\<lparr>state := y\<rparr>) = pending_requests x"
    "QUEUE_CAPACITY (x\<lparr>state := y\<rparr>) = QUEUE_CAPACITY x" for x y
    by (simp_all add: queue_ok_def QUEUE_CAPACITY_def pending_requests_def)
  have cap: "QUEUE_CAPACITY (pop_request x) = QUEUE_CAPACITY x" for x
    by (simp add: QUEUE_CAPACITY_def m)
  show ?thesis unfolding alike_def same_settings_def st cap using p assms(1)
    by (simp add: pop_request_def alike_def same_settings_def)
qed

lemma complete_alike: "alike pre s t \<Longrightarrow> both pre (complete s) (complete t)"
  unfolding complete_def Let_def
  by (cases "state s = AWAITING")
    (simp_all add: alikeD(1) pump_alike pop_request_alike alike_idle)

lemma transmit_alike:
  assumes "alike pre s t" and "state s = AWAITING"
  shows "both pre (transmit s) (transmit t)"
  unfolding alike_transaction(3, 4) [OF assms, THEN transmit_eq] tx_outputs_alike [OF assms(1)]
  using assms by (simp add: alike_updates)

lemma enqueue_alike:
  assumes "alike pre s t" and "length (req_data r) = DATA_LEN"
  shows "rel_option (rel_prod (=) (alike pre)) (enqueue r s) (enqueue r t)"
proof (cases "tx_fn s \<noteq> None \<and> is_known_data_id (req_id r) \<and> queue_count s < QUEUE_CAPACITY s")
  case False
  note d = alikeD [OF assms(1)]
  show ?thesis using False assms(1) by (auto simp: enqueue_def d)
next
  case True
  note d = alikeD [OF assms(1)]
  from True assms(2) have adm: "admissible_request r" by (simp add: admissible_request_def)
  from push_request_ok [OF d(14) adm] push_request_ok [OF d(15) adm] True d obtain q q' where
    q: "push_request r s = Some (s\<lparr>queue := q, queue_count := queue_count s + 1\<rparr>)"
      "queue_ok (s\<lparr>queue := q, queue_count := queue_count s + 1\<rparr>)"
      "pending_requests (s\<lparr>queue := q, queue_count := queue_count s + 1\<rparr>) = pending_requests s @ [r]"
      "length q = length (queue s)" and
    q': "push_request r t = Some (t\<lparr>queue := q', queue_count := queue_count t + 1\<rparr>)"
      "queue_ok (t\<lparr>queue := q', queue_count := queue_count t + 1\<rparr>)"
      "pending_requests (t\<lparr>queue := q', queue_count := queue_count t + 1\<rparr>) = pending_requests t @ [r]"
      "length q' = length (queue t)" by auto
  let ?s = "s\<lparr>queue := q, queue_count := queue_count s + 1\<rparr>"
  let ?t = "t\<lparr>queue := q', queue_count := queue_count t + 1\<rparr>"
  have tr: "same_transaction ?s ?t = same_transaction s t" by (simp add: same_transaction_def)
  have "QUEUE_CAPACITY ?t = QUEUE_CAPACITY ?s" using q(4) q'(4) d(12) by (simp add: QUEUE_CAPACITY_def)
  then have a: "alike pre ?s ?t"
    unfolding alike_def tr using assms(1) q(2, 3) q'(2, 3) by (simp add: alike_def same_settings_def)
  show ?thesis
  proof (cases "dispatching s")
    case dispatching: True
    with True q(1) q'(1) a show ?thesis by (auto simp: enqueue_def d)
  next
    case False
    with True q(1) q'(1) pump_alike [OF a] show ?thesis
      by (cases "pump ?s"; cases "pump ?t") (auto simp: enqueue_def d)
  qed
qed

lemma do_call_alike: "alike pre s t \<Longrightarrow> rel_option (rel_prod (=) (alike pre)) (do_call c s) (do_call c t)"
  unfolding do_call_enqueue using call_request_data [of c] by (intro enqueue_alike) simp_all
section \<open>Handlers\<close>

text \<open>Handlers that remember a history from before the session was made.\<close>

definition recalling :: "observable list \<Rightarrow> environment \<Rightarrow> environment" where
  "recalling pre env = (\<lambda>f c e t. env f c e (pre @ t))"

lemma observe_alike:
  assumes "alike pre s t"
  shows "observe t = observe s"
proof -
  note d = alikeD [OF assms]
  have "state s = AWAITING \<Longrightarrow> head t = head s" using alike_transaction [OF assms] by simp
  then show ?thesis
    by (simp add: observe_def busy_def pending_def in_flight_def discarded_bytes_def
        discarded_count_def d)
qed

lemma do_action_alike:
  assumes "alike pre s t"
  shows "alike pre (do_action a s) (do_action a t)"
proof (cases a)
  case Reset
  have ok: "queue_ok (reset s)" "queue_ok (reset t)"
    using do_action_queue_ok [of _ Reset] assms by (simp_all add: alikeD(14, 15) [OF assms])
  have p: "pending_requests (reset x) = []" "QUEUE_CAPACITY (reset x) = QUEUE_CAPACITY x" for x
    by (simp_all add: reset_def QUEUE_CAPACITY_def)
  show ?thesis using assms Reset unfolding do_action.simps Reset alike_def p
    by (simp add: ok) (simp add: reset_def same_settings_def parser_reset_def content_def parser_inv_def)
qed (use assms in \<open>simp_all add: setter_defs alike_updates\<close>)

lemma run_client_alike: "alike pre s t \<Longrightarrow> both pre (run_client c s) (run_client c t)"
proof (induction c arbitrary: s t)
  case (Call c k)
  show ?case
    by (simp, rule rel_bind [OF do_call_alike [OF Call.prems, of c]]) (auto intro: Call.IH [OF rangeI])
next
  case (Act a c)
  then show ?case by (simp add: do_action_alike)
next
  case (Observe k)
  then show ?case by (simp add: observe_alike)
qed simp

lemma alike_trace: "alike pre s t \<Longrightarrow> alike pre (s\<lparr>trace := trace s @ x\<rparr>) (t\<lparr>trace := trace t @ x\<rparr>)"
  by (simp add: alike_updates)

lemma call_handler_alike:
  assumes "alike pre s t"
  shows "both pre (call_handler env fn c e s) (call_handler (recalling pre env) fn c e t)"
  using alike_trace [OF assms] alikeD(13) [OF assms] assms
  by (cases fn) (simp_all add: call_handler_def recalling_def run_client_alike)

lemma alike_dispatching: "alike pre s t \<Longrightarrow> alike pre (s\<lparr>dispatching := x\<rparr>) (t\<lparr>dispatching := x\<rparr>)"
  by (simp add: alike_updates)

lemma emit_alike:
  assumes "alike pre s t"
  shows "both pre (emit env e s) (emit (recalling pre env) e t)"
proof -
  let ?owner = "\<lambda>s. if state s = AWAITING \<and> queue_count s > 0
    then map_option (\<lambda>h. (on_event h, on_event_ctx h)) (head s) else Some (None, 0)"
  note d = alikeD [OF assms]
  have o: "?owner t = ?owner s" using alike_transaction [OF assms] by (auto simp: d)
  have start: "alike pre (s\<lparr>dispatching := True, trace := trace s @ [EMIT e]\<rparr>)
      (t\<lparr>dispatching := True, trace := trace t @ [EMIT e]\<rparr>)"
    using alike_trace [OF alike_dispatching [OF assms], of True "[EMIT e]"] by simp
  have last: "both pre
      (call_handler env (event_fn a) (event_ctx a) e a \<bind> (\<lambda>s. Some (if n then s else s\<lparr>dispatching := False\<rparr>)))
      (call_handler (recalling pre env) (event_fn b) (event_ctx b) e b \<bind>
        (\<lambda>s. Some (if n then s else s\<lparr>dispatching := False\<rparr>)))" if "alike pre a b" for a b n
    unfolding alikeD(5, 6) [OF that]
    by (rule rel_bind [OF call_handler_alike [OF that]]) (simp add: alike_dispatching)
  show ?thesis unfolding emit_def o d(3)
    by (rule rel_bind_same)
      (auto simp only: Let_def split: prod.split intro!: rel_bind [OF call_handler_alike [OF start]] last)
qed

lemma emit_complete_alike:
  "alike pre s t \<Longrightarrow> both pre (emit env e s \<bind> complete) (emit (recalling pre env) e t \<bind> complete)"
  by (rule rel_bind [OF emit_alike complete_alike])

section \<open>Receiving\<close>

lemma on_frame_error_alike:
  assumes "alike pre s t"
  shows "both pre (on_frame_error env fe s) (on_frame_error (recalling pre env) fe t)"
proof -
  have "(if state t = AWAITING then map_option req_id (head t) else Some CAPACITY_VOLTAGE) =
      (if state s = AWAITING then map_option req_id (head s) else Some CAPACITY_VOLTAGE)"
    using alike_transaction [OF assms] by (simp add: alikeD(1) [OF assms])
  then show ?thesis unfolding on_frame_error_def Let_def
    by (simp only:) (intro rel_bind_same emit_alike assms)
qed

lemma note_counts_alike: "alike pre s t \<Longrightarrow> alike pre (note_counts i d s) (note_counts i d t)"
  by (simp add: note_counts_def alike_updates)

lemma handle_single_alike:
  assumes "alike pre s t" and "state s = AWAITING"
  shows "both pre (handle_single env i data s) (handle_single (recalling pre env) i data t)"
  unfolding handle_single_def Let_def alike_transaction(3, 4) [OF assms]
  by (auto intro!: rel_bind_same emit_complete_alike assms(1) split: option.split)

lemma finish_multi_alike:
  assumes "alike pre s t" and "state s = AWAITING"
  shows "both pre (finish_multi env i s) (finish_multi (recalling pre env) i t)"
proof -
  from alike_transaction(1) [OF assms] have m: "assembly t = assembly s" "seen_mask t = seen_mask s"
    "frames_seen t = frames_seen s" "expected_items t = expected_items s"
    by (simp_all add: same_transaction_def)
  show ?thesis unfolding finish_multi_def Let_def m
    by (intro rel_bind_same emit_complete_alike assms(1))
qed

lemma alike_deadline: "alike pre s t \<Longrightarrow> alike pre (s\<lparr>deadline_ms := x\<rparr>) (t\<lparr>deadline_ms := x\<rparr>)"
  by (simp add: alike_updates)

lemma handle_multi_alike:
  assumes "alike pre s t" and "state s = AWAITING"
  shows "both pre (handle_multi env i data s) (handle_multi (recalling pre env) i data t)"
proof -
  from alike_transaction(1) [OF assms] have m: "assembly t = assembly s" "seen_mask t = seen_mask s"
    by (simp_all add: same_transaction_def)
  define put_page where "put_page m s = (if seen_mask s AND m = 0
    then let m' = seen_mask s OR m in s\<lparr>seen_mask := m', frames_seen := popcount32 m'\<rparr> else s)"
    for m and s :: session
  define arrived where "arrived e s = (if expected_frames s \<noteq> 0 \<and> frames_seen s \<ge> expected_frames s
    then finish_multi e i s else Some (s\<lparr>deadline_ms := now_ms s + interframe_timeout_ms s\<rparr>))" for e and s :: session
  have put_page: "alike pre (put_page b (s\<lparr>assembly := a\<rparr>)) (put_page b (t\<lparr>assembly := a\<rparr>))"
    "state (put_page b (s\<lparr>assembly := a\<rparr>)) = AWAITING" for b a
    using assms by (simp_all add: put_page_def Let_def alike_updates)
  have arrived: "both pre (arrived env u) (arrived (recalling pre env) v)"
    if "alike pre u v" "state u = AWAITING" for u v
  proof -
    have "expected_frames v = expected_frames u" "frames_seen v = frames_seen u"
      "now_ms v = now_ms u" "interframe_timeout_ms v = interframe_timeout_ms u"
      using that by (simp_all add: alike_def same_settings_def same_transaction_def)
    then show ?thesis using finish_multi_alike [OF that] alike_deadline [OF that(1)]
      by (simp add: arrived_def)
  qed
  show ?thesis
    unfolding handle_multi_def Let_def m
    by (auto simp only: put_page_def [symmetric, unfolded Let_def] arrived_def [symmetric] split: if_split
        intro!: rel_bind_same arrived put_page emit_alike assms(1))
qed

section \<open>The fault-record stream\<close>

lemma append_record_alike:
  assumes "alike pre s t" and "state s = AWAITING"
  shows "rel_option (\<lambda>u v. alike pre u v \<and> state u = AWAITING) (append_record data ks s) (append_record data ks t)"
  using assms
proof (induction ks arbitrary: s t)
  case (Cons k ks)
  from alike_transaction(1) [OF Cons.prems] have m: "record_len t = record_len s"
    "take (record_len s) (record_buf t) = take (record_len s) (record_buf s)"
    by (simp_all add: same_transaction_def)
  have l: "length (record_buf t) = length (record_buf s)" using Cons.prems(1) by (simp add: alike_def)
  have "alike pre (s\<lparr>record_buf := (record_buf s)[record_len s := c], record_len := Suc (record_len s)\<rparr>)
      (t\<lparr>record_buf := (record_buf t)[record_len s := c], record_len := Suc (record_len s)\<rparr>)"
    if "record_len s < length (record_buf s)" for c
  proof -
    have "take (Suc (record_len s)) ((record_buf t)[record_len s := c]) =
        take (Suc (record_len s)) ((record_buf s)[record_len s := c])"
      using m(2) l that by (simp add: take_Suc_conv_app_nth)
    with Cons.prems show ?thesis by (simp add: alike_updates)
  qed
  note step = this
  show ?case
  proof (cases "record_len s < FAULT_BUFFER_LEN \<and> record_len s < length (record_buf s)")
    case True
    then show ?thesis unfolding append_record.simps m(1)
      by (auto simp: l Cons.prems(2) intro!: rel_bind_same Cons.IH step)
  next
    case False
    with Cons.prems show ?thesis
      by (cases "rd data k") (auto simp: m(1) wr_def l)
  qed
qed simp

lemma handle_stream_alike:
  assumes "alike pre s t" and "state s = AWAITING"
  shows "both pre (handle_stream env i data s) (handle_stream (recalling pre env) i data t)"
proof -
  define count where "count s = s\<lparr>frames_seen := frames_seen s + 1\<rparr>" for s :: session
  define flush where "flush e s = (if record_len s \<ge> FAULT_BUFFER_LEN then do {
      let ev = default_event\<lparr>event_id := i, frames := of_nat FAULT_FRAMES_PER_RECORD\<rparr>;
      bytes \<leftarrow> slice (record_buf s) 0 (record_len s);
      s \<leftarrow> (case decode_fault_record (Some bytes) of
           None \<Rightarrow> Some s
         | Some r \<Rightarrow> emit e (ev\<lparr>payload := P_fault_record r\<rparr>) s);
      Some (s\<lparr>record_len := 0\<rparr>)
    } else Some s)" for e s
  define rearm where "rearm s = (if state s \<noteq> AWAITING then pump s
    else Some (s\<lparr>deadline_ms := now_ms s + interframe_timeout_ms s\<rparr>))" for s
  have count: "alike pre (count u) (count v)" if "alike pre u v" for u v
    using that by (simp add: count_def alike_updates)
  have count_state: "state (count u) = state u" for u by (simp add: count_def)
  have empty: "alike pre (u\<lparr>record_len := 0\<rparr>) (v\<lparr>record_len := 0\<rparr>)" if "alike pre u v" for u v
    using that by (simp add: alike_updates)
  have flush: "both pre (flush env u) (flush (recalling pre env) v)"
    if "alike pre u v" "state u = AWAITING" for u v
  proof -
    from alike_transaction(1) [OF that] have m: "record_len v = record_len u"
      "slice (record_buf v) 0 (record_len u) = slice (record_buf u) 0 (record_len u)"
      using that(1) by (simp_all add: same_transaction_def slice_def alike_def)
    have em: "both pre (case d of None \<Rightarrow> Some u | Some r \<Rightarrow> emit env (f r) u)
      (case d of None \<Rightarrow> Some v | Some r \<Rightarrow> emit (recalling pre env) (f r) v)" for d and f :: "fault_record \<Rightarrow> event"
      using that(1) by (cases d) (simp_all add: emit_alike)
    show ?thesis unfolding flush_def Let_def m
      using that(1) by (auto intro!: rel_bind_same rel_bind [OF em] empty)
  qed
  have rearm: "both pre (rearm u) (rearm v)" if "alike pre u v" for u v
  proof -
    have "now_ms v = now_ms u" "interframe_timeout_ms v = interframe_timeout_ms u" "state v = state u"
      using that by (simp_all add: alike_def same_settings_def)
    then show ?thesis using pump_alike [OF that] alike_deadline [OF that] by (simp add: rearm_def)
  qed
  have eq: "handle_stream e i data s = (if data ! 0 = FRAME_NO_END then complete s
     else append_record data [1..<DATA_LEN] s \<bind> (\<lambda>s. flush e (count s) \<bind> rearm))" for e s
    by (simp add: handle_stream_def count_def flush_def rearm_def [abs_def] Let_def)
  show ?thesis unfolding eq
    by (auto intro!: complete_alike assms rel_bind [OF append_record_alike [OF assms]]
        rel_bind [OF flush] count rearm simp: count_state)
qed
section \<open>Frames, bytes and time\<close>

lemma on_frame_alike:
  assumes "alike pre s t"
  shows "both pre (on_frame env frame s) (on_frame (recalling pre env) frame t)"
proof (cases "state s = AWAITING")
  case False
  then show ?thesis unfolding on_frame_def Let_def
    by (simp add: alikeD(1) [OF assms] emit_alike [OF assms])
next
  case True
  have n: "alike pre (note_counts i d s) (note_counts i d t)" "state (note_counts i d s) = AWAITING" for i d
    using note_counts_alike [OF assms] True by simp_all
  show ?thesis
    using True
    by (simp add: on_frame_def Let_def alikeD(1, 7) [OF assms] alike_transaction(3, 4) [OF assms True]
        emit_alike [OF assms] handle_single_alike [OF n] handle_stream_alike [OF n] handle_multi_alike [OF n])
qed

lemma feed_byte_alike:
  assumes "parser_inv p" and "parser_inv q" and "content q = content p" and "discarded q = discarded p"
  shows "rel_option (rel_prod (\<lambda>p q. parser_inv p \<and> parser_inv q \<and> content q = content p \<and>
    discarded q = discarded p) (=)) (feed_byte b p) (feed_byte b q)"
proof -
  obtain c n out where spec: "spec_byte b (content p) = (c, n, out)" by (metis prod_cases3)
  from feed_byte_refines [OF assms(1) spec] feed_byte_refines [OF assms(2), of b c n out] assms(3, 4) spec
  show ?thesis by auto
qed

lemma put_parser_alike:
  assumes "alike pre s t" and "parser_inv p" and "parser_inv q" and "content q = content p"
    and "discarded q = discarded p"
  shows "alike pre (put_parser p s) (put_parser q t)"
  using assms by (simp add: put_parser_def alike_def same_settings_def same_transaction_def
      queue_ok_def QUEUE_CAPACITY_def pending_requests_def)

lemma deliver_alike:
  "alike pre s t \<Longrightarrow> both pre (deliver (Some (on_frame env)) (Some (on_frame_error env)) out s)
    (deliver (Some (on_frame (recalling pre env))) (Some (on_frame_error (recalling pre env))) out t)"
  by (auto simp: deliver_def on_frame_alike on_frame_error_alike split: option.split parser_output.split)

lemma feed_with_alike:
  "alike pre s t \<Longrightarrow>
    both pre (feed_with parser put_parser (Some (on_frame env)) (Some (on_frame_error env)) bytes s)
     (feed_with parser put_parser (Some (on_frame (recalling pre env)))
       (Some (on_frame_error (recalling pre env))) bytes t)"
proof (induction bytes arbitrary: s t)
  case (Cons b bytes)
  note a = Cons.prems
  have "parser_inv (parser s)" "parser_inv (parser t)" "content (parser t) = content (parser s)"
    "discarded (parser t) = discarded (parser s)" using a by (simp_all add: alike_def)
  from rel_bind [OF feed_byte_alike [OF this]] show ?case unfolding feed_with.simps
    by (auto intro!: rel_bind [OF feed_byte_alike] rel_bind [OF deliver_alike] Cons.IH
        put_parser_alike [OF a] \<open>parser_inv (parser s)\<close> \<open>parser_inv (parser t)\<close>
        \<open>content (parser t) = content (parser s)\<close> \<open>discarded (parser t) = discarded (parser s)\<close>)
qed simp

lemma feed_alike: "alike pre s t \<Longrightarrow> both pre (feed env data s) (feed (recalling pre env) data t)"
  by (cases data) (simp_all add: feed_def parser_feed_def feed_with_alike)

lemma tick_alike:
  assumes "alike pre s t"
  shows "both pre (tick env now s) (tick (recalling pre env) now t)"
proof -
  let ?s = "s\<lparr>now_ms := now\<rparr>" and ?t = "t\<lparr>now_ms := now\<rparr>"
  have a: "alike pre ?s ?t" using assms by (simp add: alike_updates)
  show ?thesis
  proof (cases "state s = AWAITING")
    case False
    with a show ?thesis by (simp add: tick_def Let_def alikeD(1) [OF assms])
  next
    case True
    then have st: "state ?s = AWAITING" by simp
    note h = alike_transaction(3, 4) [OF assms True]
    from alike_transaction(1) [OF assms True] have m: "deadline_ms t = deadline_ms s"
      "retries t = retries s" "frames_seen t = frames_seen s" by (simp_all add: same_transaction_def)
    have r: "alike pre (?s\<lparr>retries := n\<rparr>) (?t\<lparr>retries := n\<rparr>)" for n
      using a by (simp add: alike_updates)
    have "alike pre (s\<lparr>now_ms := now, retries := n\<rparr>) (t\<lparr>now_ms := now, retries := n\<rparr>)" for n
      using r by simp
    note tr = transmit_alike [OF this]
    show ?thesis using True a
      by (simp add: tick_def Let_def alikeD(1, 8) [OF assms] h m tr finish_multi_alike [OF a st]
          emit_complete_alike [OF a])
  qed
qed

section \<open>Whole runs\<close>

primrec recall_call :: "observable list \<Rightarrow> api_call \<Rightarrow> api_call" where
  "recall_call pre (Api_call c) = Api_call c"
| "recall_call pre (Api_action a) = Api_action a"
| "recall_call pre (Api_feed env data) = Api_feed (recalling pre env) data"
| "recall_call pre (Api_tick env now) = Api_tick (recalling pre env) now"

lemma api_alike: "alike pre s t \<Longrightarrow> both pre (api c s) (api (recall_call pre c) t)"
proof (cases c)
  case (Api_call x)
  then show "alike pre s t \<Longrightarrow> ?thesis" using do_call_alike [of pre s t x]
    by (cases "do_call x s"; cases "do_call x t") auto
qed (simp_all add: do_action_alike feed_alike tick_alike)

lemma run_api_alike: "alike pre s t \<Longrightarrow> both pre (run_api cs s) (run_api (map (recall_call pre) cs) t)"
  by (induction cs arbitrary: s t) (auto intro: rel_bind [OF api_alike])

text \<open>
  A new session with the addresses, handlers, settings, time and counts of another one.  The last
  two are what earlier calls of \<open>tick\<close> and earlier replies have left behind; \<open>reset()\<close> keeps them.
\<close>

definition new_session_like :: "session \<Rightarrow> session" where
  "new_session_like s = (init_session (QUEUE_CAPACITY s) (host_address s) (bms_address s))
    \<lparr>tx_fn := tx_fn s, tx_ctx := tx_ctx s, event_fn := event_fn s, event_ctx := event_ctx s,
     response_timeout_ms := response_timeout_ms s, interframe_timeout_ms := interframe_timeout_ms s,
     max_retries := max_retries s, now_ms := now_ms s,
     cached_cell_count := cached_cell_count s, cached_temp_count := cached_temp_count s\<rparr>"

lemma reset_alike_new:
  assumes "session_idle_ok s"
  shows "alike (trace s) (reset s) (new_session_like s)"
proof -
  have ok: "queue_ok s" "session_inv s" "\<not> dispatching s"
    using assms session_okD(1, 2) by (auto simp: session_idle_ok_def)
  then have cap: "0 < QUEUE_CAPACITY s" by (simp add: queue_ok_def)
  have q: "queue_ok (reset s)" "queue_ok (new_session_like s)"
    using do_action_queue_ok [OF ok(1), of Reset] init_queue_ok [OF cap]
    by (simp_all add: new_session_like_def queue_ok_def QUEUE_CAPACITY_def pending_requests_def)
  have p: "pending_requests (reset s) = []" "pending_requests (new_session_like s) = []"
    "QUEUE_CAPACITY (reset s) = QUEUE_CAPACITY s" "QUEUE_CAPACITY (new_session_like s) = QUEUE_CAPACITY s"
    by (simp_all add: reset_def new_session_like_def init_session_def QUEUE_CAPACITY_def)
  have i: "parser_inv (parser (reset s))" "parser_inv (parser (new_session_like s))"
    using ok(2) by (simp_all add: session_inv_def reset_def new_session_like_def init_session_def)
  show ?thesis unfolding alike_def p
    using ok(2, 3) q i
    by (simp add: session_inv_def same_settings_def)
      (simp add: reset_def new_session_like_def init_session_def parser_reset_def content_def init_parser_def)
qed

text \<open>
  C8: \<open>reset()\<close> makes a session a new one.  After a reset, whatever sequence of calls follows, the
  session behaves exactly as a newly constructed session with the same addresses, handlers,
  settings, time and cell and sensor counts does: it sends, emits and calls the same things, reports
  the same about itself, holds the same requests, and answers every further call with the same
  status.  Nothing an earlier transaction left in the buffers ever shows.
\<close>

theorem reset_is_a_new_session:
  assumes "reachable s"
  shows "\<exists>u v. run_api cs (reset s) = Some u \<and>
    run_api (map (recall_call (trace s)) cs) (new_session_like s) = Some v \<and>
    trace u = trace s @ trace v \<and> observe u = observe v \<and> pending_requests u = pending_requests v \<and>
    (\<forall>c. map_option fst (do_call c u) = map_option fst (do_call c v))"
proof -
  have "reachable (reset s)" using reachable.use [OF assms, of "Api_action Reset"] by simp
  from run_api_reachable [OF this] obtain u where u: "run_api cs (reset s) = Some u" by blast
  from run_api_alike [OF reset_alike_new [OF reachable_ok [OF assms]], of cs] u obtain v where
    v: "run_api (map (recall_call (trace s)) cs) (new_session_like s) = Some v" "alike (trace s) u v"
    by (auto simp: option_rel_Some1)
  have "map_option fst (do_call c u) = map_option fst (do_call c v)" for c
    using do_call_alike [OF v(2), of c] by (cases "do_call c u"; cases "do_call c v") auto
  with u v observe_alike [OF v(2)] alikeD(11, 13) [OF v(2)] show ?thesis by auto
qed

text \<open>A reset in the middle of a paginated reply, and a shorter one after it.\<close>

theorem reset_is_a_new_session_witness:
  "\<exists>s u v. run_from_start [Api_call (Poll_manufacturer_name None 0),
      Api_feed quiet_env (Some (encode 1 MANUFACTURER_NAME [0, 65, 66, 67, 68, 69, 70, 71]))] = Some s \<and>
    run_api [Api_call (Poll_rtc None 0), Api_tick quiet_env 600] (reset s) = Some u \<and>
    run_api [Api_call (Poll_rtc None 0), Api_tick (recalling (trace s) quiet_env) 600] (new_session_like s) = Some v \<and>
    trace u = trace s @ trace v"
proof -
  let ?cs = "[Api_call (Poll_manufacturer_name None 0),
      Api_feed quiet_env (Some (encode 1 MANUFACTURER_NAME [0, 65, 66, 67, 68, 69, 70, 71]))]"
  obtain s where s: "run_from_start ?cs = Some s" "reachable s" using run_from_start_reachable by blast
  from reset_is_a_new_session [OF s(2), of "[Api_call (Poll_rtc None 0), Api_tick quiet_env 600]"] s(1)
  show ?thesis by auto
qed

end
