(* ===== verification/Budget.thy ===== *)
theory Budget
  imports Steps
begin

text \<open>
  How much a session transmits.  A request has a budget of one frame and the retries it is allowed;
  what is left of the budgets of the requests that wait is a potential that every transmission
  draws on and that only an accepted request adds to.
\<close>

section \<open>Counting\<close>

fun transmissions :: "observable list \<Rightarrow> nat" where
  "transmissions [] = 0"
| "transmissions (TX f c m # os) = Suc (transmissions os)"
| "transmissions (o1 # os) = transmissions os"

fun handler_calls :: "observable list \<Rightarrow> nat" where
  "handler_calls [] = 0"
| "handler_calls (HANDLER f c e # os) = Suc (handler_calls os)"
| "handler_calls (o1 # os) = handler_calls os"

lemma transmissions_append [simp]: "transmissions (xs @ ys) = transmissions xs + transmissions ys"
  by (induction xs rule: transmissions.induct) simp_all

lemma handler_calls_append [simp]: "handler_calls (xs @ ys) = handler_calls xs + handler_calls ys"
  by (induction xs rule: handler_calls.induct) simp_all

lemma tx_outputs_counts [simp]: "transmissions (tx_outputs s h) \<le> 1" "handler_calls (tx_outputs s h) = 0"
  by (simp_all add: tx_outputs_def split: option.split)

text \<open>Handlers that make at most \<open>k\<close> requests each time they run, and allow at most \<open>M\<close> retries.\<close>

primrec modest_client :: "nat \<Rightarrow> client \<Rightarrow> nat \<Rightarrow> bool" where
  "modest_client M Done = (\<lambda>k. True)"
| "modest_client M (Call c f) = (\<lambda>k. 0 < k \<and> (\<forall>st. modest_client M (f st) (k - 1)))"
| "modest_client M (Act a c) = (\<lambda>k. (\<forall>n. a = Set_max_retries n \<longrightarrow> unat n \<le> M) \<and> modest_client M c k)"
| "modest_client M (Observe f) = (\<lambda>k. \<forall>obs. modest_client M (f obs) k)"

definition modest :: "nat \<Rightarrow> nat \<Rightarrow> environment \<Rightarrow> bool" where
  "modest M k env \<longleftrightarrow> (\<forall>f c e t. modest_client M (env f c e t) k)"

section \<open>The potential\<close>

text \<open>The frames that may still be sent for the requests that wait.\<close>

definition credit :: "nat \<Rightarrow> session \<Rightarrow> nat" where
  "credit M s = (M + 1) * length (pending_requests s) - (if busy s then 1 + min M (unat (retries s)) else 0)"

text \<open>From \<open>s\<close> to \<open>t\<close> the frames are paid for; a handler call pays for its requests.\<close>

definition pays :: "nat \<Rightarrow> nat \<Rightarrow> session \<Rightarrow> session \<Rightarrow> bool" where
  "pays M k s t \<longleftrightarrow> (unat (max_retries s) \<le> M \<longrightarrow> unat (max_retries t) \<le> M \<and>
    (\<exists>new. trace t = trace s @ new \<and>
      transmissions new + credit M t \<le> credit M s + (M + 1) * (k * handler_calls new)))"

lemma paysI:
  assumes "max_retries t = max_retries s" and "trace t = trace s @ new"
    and "unat (max_retries s) \<le> M \<Longrightarrow> transmissions new + credit M t \<le> credit M s"
  shows "pays M k s t"
  using assms unfolding pays_def by (auto intro!: exI [of _ new] trans_le_add1)

lemma pays_refl: "pays M k s s"
  by (rule paysI [where new = "[]"]) simp_all

lemma pays_trans [trans]:
  assumes "pays M k s t" and "pays M k t u"
  shows "pays M k s u"
  unfolding pays_def
proof
  assume "unat (max_retries s) \<le> M"
  with assms obtain o1 o2 where
    "unat (max_retries u) \<le> M" "trace t = trace s @ o1" "trace u = trace t @ o2"
    "transmissions o1 + credit M t \<le> credit M s + (M + 1) * (k * handler_calls o1)"
    "transmissions o2 + credit M u \<le> credit M t + (M + 1) * (k * handler_calls o2)"
    unfolding pays_def by blast
  then show "unat (max_retries u) \<le> M \<and> (\<exists>new. trace u = trace s @ new \<and>
      transmissions new + credit M u \<le> credit M s + (M + 1) * (k * handler_calls new))"
    by (intro conjI exI [of _ "o1 @ o2"]) (simp_all add: distrib_left)
qed

lemma credit_same_bus: "same_bus s t \<Longrightarrow> credit M t = credit M s"
  by (simp add: same_bus_def credit_def pending_requests_def busy_def)

lemma pays_same_bus: "same_bus s t \<Longrightarrow> pays M k s t"
  by (rule paysI [where new = "[]"]) (simp_all add: credit_same_bus, simp_all add: same_bus_def)

lemma credit_started:
  assumes "pending_requests s = r # rs" and "state s = IDLE"
  shows "transmissions (tx_outputs s h) + credit M (started h s) \<le> credit M s"
proof -
  have "pending_requests (started h s) = r # rs" "busy (started h s)" "retries (started h s) = 0"
    using assms(1) by (simp_all add: started_def pending_requests_def busy_def)
  with assms tx_outputs_counts(1) [of s h] show ?thesis by (simp add: credit_def busy_def)
qed

lemma pump_pays:
  assumes "queue_ok s" and "pump s = Some t"
  shows "pays M k s t"
proof (cases "state s = IDLE \<and> queue_count s \<noteq> 0")
  case True
  then obtain r rs where p: "pending_requests s = r # rs" by (metis pending_Nil_iff neq_Nil_conv)
  have t: "t = started r s" using pump_total [OF assms(1)] assms(2) True p by auto
  show ?thesis
    by (rule paysI [where new = "tx_outputs s r"])
      (use True in \<open>simp_all add: t credit_started [OF p]\<close>, simp_all add: started_def)
next
  case False
  then have "t = s" using assms(2) by (cases "state s") (auto simp: pump_def)
  then show ?thesis by (simp add: pays_refl)
qed

lemma complete_pays:
  assumes "in_step s" and "complete s = Some t"
  shows "pays M k s t"
proof -
  let ?u = "(if state s = AWAITING then pop_request s else s)\<lparr>state := IDLE\<rparr>"
  have q: "queue_ok s" "state s = AWAITING \<Longrightarrow> queue_count s \<noteq> 0"
    using assms(1) by (simp_all add: in_step_def)
  have u: "queue_ok ?u" "trace ?u = trace s" "max_retries ?u = max_retries s" "\<not> busy ?u"
    using pop_request_ok(1) [OF q(1)] q
    by (auto simp: queue_ok_def QUEUE_CAPACITY_def pending_requests_def busy_def pop_request_def)
  have "credit M ?u \<le> credit M s"
  proof (cases "state s = AWAITING")
    case True
    then obtain r rs where p: "pending_requests s = r # rs"
      using q(2) by (metis pending_Nil_iff neq_Nil_conv)
    have "pending_requests ?u = rs"
      using pop_request_ok(2) [OF q(1)] q(2) p True by (simp add: pending_requests_def)
    moreover have "x \<le> M + x - min M (unat (retries s))" for x by linarith
    ultimately show ?thesis using p u(4) unfolding credit_def by (simp del: length_pending)
  next
    case False
    then show ?thesis by (cases "state s") (simp_all add: credit_def busy_def pending_requests_def)
  qed
  with u(2, 3) have "pays M k s ?u" by (intro paysI [where new = "[]"]) simp_all
  also have "pump ?u = Some t" using assms(2) by (simp only: complete_def Let_def)
  with u(1) have "pays M k ?u t" by (rule pump_pays)
  finally show ?thesis .
qed

lemma again_pays:
  assumes "in_step s" and "state s = AWAITING" and "retries s < max_retries s"
    and "transmit (s\<lparr>retries := retries s + 1\<rparr>) = Some t"
  shows "pays M k s t"
proof -
  let ?r = "s\<lparr>retries := retries s + 1\<rparr>" and ?h = "hd (pending_requests s)"
  have q: "queue_ok s" "queue_count s \<noteq> 0" using assms(1, 2) by (simp_all add: in_step_def)
  have "head ?r = Some ?h" using head_pending [OF q] by (simp add: head_def)
  then have t: "t = ?r\<lparr>trace := trace s @ tx_outputs ?r ?h, deadline_ms := now_ms s + response_timeout_ms s\<rparr>"
    using transmit_eq [of ?r ?h] assms(4) by simp
  obtain r rs where p: "pending_requests s = r # rs" using q(2) by (metis pending_Nil_iff neq_Nil_conv)
  have "unat (max_retries s) < 256" using unsigned_less [of "max_retries s"] by simp
  with assms(3) have max: "unat (retries s) < 255" unfolding word_less_nat_alt by linarith
  have "unat (retries s + 1) = unat (retries s) + 1"
    using max unat_add_lem [of "retries s" 1] by simp
  with assms(3) have "1 + credit M t \<le> credit M s" if "unat (max_retries s) \<le> M"
    using that p assms(2) by (simp add: t credit_def busy_def pending_requests_def word_less_nat_alt)
  with tx_outputs_counts(1) [of ?r ?h] show ?thesis
    by (intro paysI [where new = "tx_outputs ?r ?h"]) (fastforce simp: t)+
qed

section \<open>Handlers and requests\<close>

lemma do_call_credit:
  assumes "queue_ok s" and "do_call c s = Some (st, t)"
  shows "max_retries t = max_retries s \<and> (\<exists>new. trace t = trace s @ new \<and> handler_calls new = 0 \<and>
    transmissions new + credit M t \<le> credit M s + (if st = QUEUED then M + 1 else 0))"
proof (cases "tx_fn s \<noteq> None \<and> is_known_data_id (req_id (call_request c)) \<and> queue_count s < QUEUE_CAPACITY s")
  case False
  with assms(2) have "t = s" by (auto simp: do_call_enqueue enqueue_def split: if_splits)
  then show ?thesis by (simp add: exI [of _ "[]"])
next
  case True
  let ?r = "call_request c"
  from True have "admissible_request ?r" using call_request_data [of c] by (simp add: admissible_request_def)
  with True enqueue_accepted [OF assms(1)] obtain q s1 where
    s1: "s1 = s\<lparr>queue := q, queue_count := queue_count s + 1\<rparr>" "queue_ok s1"
      "pending_requests s1 = pending_requests s @ [?r]"
      "enqueue ?r s = Some (QUEUED, if state s = IDLE \<and> \<not> dispatching s
        then started (hd (pending_requests s @ [?r])) s1 else s1)" by blast
  let ?h = "hd (pending_requests s @ [?r])"
  have st: "st = QUEUED" "t = (if state s = IDLE \<and> \<not> dispatching s then started ?h s1 else s1)"
    using assms(2) s1(4) by (simp_all add: do_call_enqueue)
  have more: "M + y - m \<le> Suc (y - Suc m + M)" for y m by linarith
  have c1: "credit M s1 \<le> credit M s + (M + 1)" "state s1 = state s" "trace s1 = trace s"
    "max_retries s1 = max_retries s"
    using s1(3) more by (simp_all add: credit_def busy_def s1(1))
  show ?thesis
  proof (cases "state s = IDLE \<and> \<not> dispatching s")
    case True
    obtain r rs where "pending_requests s1 = r # rs" using s1(3) by (metis append_is_Nil_conv list.distinct(1) neq_Nil_conv)
    with credit_started [where s = s1 and M = M and h = ?h] c1 True show ?thesis
      unfolding st by (intro conjI exI [of _ "tx_outputs s1 ?h"]) (simp_all add: started_def)
  next
    case False
    with c1 show ?thesis unfolding st by (intro conjI exI [of _ "[]"]) auto
  qed
qed

lemma do_action_credit: "credit M (do_action a s) \<le> credit M s"
  by (cases a) (simp_all add: setter_defs credit_def pending_requests_def busy_def)

lemma do_action_limit:
  "\<forall>n. a = Set_max_retries n \<longrightarrow> unat n \<le> M \<Longrightarrow> unat (max_retries s) \<le> M \<Longrightarrow>
    unat (max_retries (do_action a s)) \<le> M"
  by (cases a) (simp_all add: setter_defs)

lemma run_client_credit:
  assumes "queue_ok s" and "dispatching s" and "modest_client M c k" and "run_client c s = Some t"
    and "unat (max_retries s) \<le> M"
  shows "unat (max_retries t) \<le> M \<and> credit M t \<le> credit M s + (M + 1) * k"
  using assms
proof (induction c arbitrary: s k)
  case (Call c f)
  from do_call_handled [OF Call.prems(1, 2)] obtain st s1 where
    s1: "do_call c s = Some (st, s1)" "queue_ok s1" "handled s s1" by blast
  then have "dispatching s1" using Call.prems(2) handled_untouched by (auto simp: untouched_def)
  moreover from do_call_credit [OF Call.prems(1) s1(1), of M] have
    c1: "max_retries s1 = max_retries s" "credit M s1 \<le> credit M s + (M + 1)" by (auto split: if_splits)
  moreover obtain j where "k = Suc j" "modest_client M (f st) j"
    using Call.prems(3) by (cases k) auto
  ultimately show ?case using Call.IH [of "f st" s1 j] s1(1, 2) Call.prems(4, 5) by auto
next
  case (Act a c)
  have "dispatching (do_action a s)"
    using Act.prems(2) handled_untouched [OF do_action_handled] by (auto simp: untouched_def)
  with Act.IH [OF do_action_queue_ok [OF Act.prems(1)]] Act.prems(3-5) do_action_limit [of a M s]
    do_action_credit [of M a s] show ?case by fastforce
next
  case (Observe f)
  from Observe.IH [of "f (observe s)" s k] Observe.prems show ?case by auto
qed simp

lemma call_handler_pays:
  assumes "queue_ok s" and "dispatching s" and "modest M k env" and "call_handler env fn c e s = Some t"
  shows "pays M k s t"
proof (cases fn)
  case None
  with assms(4) show ?thesis by (simp add: call_handler_def pays_refl)
next
  case (Some f)
  let ?u = "s\<lparr>trace := trace s @ [HANDLER f c e]\<rparr>"
  have u: "queue_ok ?u" "dispatching ?u" "credit M ?u = credit M s"
    using assms(1, 2) by (simp_all add: credit_def busy_def)
  from Some assms(4) have run: "run_client (env f c e (trace s)) ?u = Some t" by (simp add: call_handler_def)
  with run_client_handled [OF u(1, 2), of "env f c e (trace s)"] have "trace t = trace s @ [HANDLER f c e]"
    by (auto dest: handled_trace)
  moreover have "unat (max_retries s) \<le> M \<Longrightarrow> unat (max_retries t) \<le> M \<and> credit M t \<le> credit M s + (M + 1) * k"
    using run_client_credit [OF u(1, 2) _ run, of M k] assms(3) u(3) by (simp add: modest_def)
  ultimately show ?thesis unfolding pays_def by (auto intro!: exI [of _ "[HANDLER f c e]"])
qed

lemma emit_pays:
  assumes "queue_ok s" and "modest M k env" and "emit env e s = Some t"
  shows "pays M k s t"
proof -
  let ?s0 = "s\<lparr>dispatching := True, trace := trace s @ [EMIT e]\<rparr>"
  from assms(3) obtain fn c s1 s2 where
    s1: "call_handler env fn c e ?s0 = Some s1" and
    s2: "call_handler env (event_fn s1) (event_ctx s1) e s1 = Some s2" and
    t: "t = (if dispatching s then s2 else s2\<lparr>dispatching := False\<rparr>)"
    unfolding emit_def Let_def by (auto simp: bind_eq_Some_conv)
  have ok: "queue_ok ?s0" "dispatching ?s0" using assms(1) by simp_all
  from call_handler_handled [OF ok, of env fn c e] s1 have ok1: "queue_ok s1" "dispatching s1"
    by (auto dest: handled_untouched simp: untouched_def)
  have "pays M k s ?s0"
    by (rule paysI [where new = "[EMIT e]"]) (simp_all add: credit_def busy_def)
  also have "pays M k ?s0 s1" by (rule call_handler_pays [OF ok assms(2) s1])
  also have "pays M k s1 s2" by (rule call_handler_pays [OF ok1 assms(2) s2])
  also have "pays M k s2 t" unfolding t by (auto intro!: pays_same_bus simp: same_bus_def)
  finally show ?thesis .
qed

interpretation budget: step_relation "pays M k" "modest M k" for M k
proof unfold_locales
  fix s t u :: session and env :: environment and e :: event
  show "pays M k s s" by (rule pays_refl)
  show "pays M k s t \<Longrightarrow> pays M k t u \<Longrightarrow> pays M k s u" by (rule pays_trans)
  show "same_bus s t \<Longrightarrow> pays M k s t" by (rule pays_same_bus)
  show "queue_ok s \<Longrightarrow> pump s = Some t \<Longrightarrow> pays M k s t" by (rule pump_pays)
  show "in_step s \<Longrightarrow> complete s = Some t \<Longrightarrow> pays M k s t" by (rule complete_pays)
  show "in_step s \<Longrightarrow> state s = AWAITING \<Longrightarrow> retries s < max_retries s \<Longrightarrow>
    transmit (s\<lparr>retries := retries s + 1\<rparr>) = Some t \<Longrightarrow> pays M k s t" by (rule again_pays)
  show "in_step s \<Longrightarrow> modest M k env \<Longrightarrow> emit env e s = Some t \<Longrightarrow> pays M k s t"
    by (rule emit_pays) (simp_all add: in_step_def)
qed

section \<open>The bound\<close>

text \<open>How many of the calls the program makes are answered with \<open>QUEUED\<close>.\<close>

primrec accepted :: "api_call list \<Rightarrow> session \<Rightarrow> nat" where
  "accepted [] s = 0"
| "accepted (c # cs) s =
    (case c of
       Api_call x \<Rightarrow> (case do_call x s of Some (st, t) \<Rightarrow> if st = QUEUED then 1 else 0 | None \<Rightarrow> 0)
     | _ \<Rightarrow> 0) +
    (case api c s of Some t \<Rightarrow> accepted cs t | None \<Rightarrow> 0)"

text \<open>The handlers passed in make at most \<open>k\<close> requests each time, and nobody allows more than \<open>M\<close> retries.\<close>

primrec modest_call :: "nat \<Rightarrow> nat \<Rightarrow> api_call \<Rightarrow> bool" where
  "modest_call M k (Api_call x) \<longleftrightarrow> True"
| "modest_call M k (Api_action a) \<longleftrightarrow> (\<forall>n. a = Set_max_retries n \<longrightarrow> unat n \<le> M)"
| "modest_call M k (Api_feed env data) \<longleftrightarrow> modest M k env"
| "modest_call M k (Api_tick env now) \<longleftrightarrow> modest M k env"

lemma do_action_pays:
  assumes "\<forall>n. a = Set_max_retries n \<longrightarrow> unat n \<le> M"
  shows "pays M k s (do_action a s)"
proof -
  have "trace (do_action a s) = trace s"
    using handled_untouched [OF do_action_handled] by (simp add: untouched_def)
  with do_action_limit [OF assms] do_action_credit [of M a s] show ?thesis
    unfolding pays_def by (auto intro!: exI [of _ "[]"])
qed

lemma run_api_pays:
  assumes "session_idle_ok s" and "unat (max_retries s) \<le> M" and "\<forall>c \<in> set cs. modest_call M k c"
    and "run_api cs s = Some t"
  shows "\<exists>new. trace t = trace s @ new \<and>
    transmissions new + credit M t \<le> credit M s + (M + 1) * (accepted cs s + k * handler_calls new)"
  using assms
proof (induction cs arbitrary: s)
  case (Cons c cs)
  from api_ok [OF Cons.prems(1), of c] obtain u where u: "api c s = Some u" "session_idle_ok u" by blast
  have st: "in_step s" "queue_ok s"
    using Cons.prems(1) session_ok_in_step session_okD(1) by (auto simp: session_idle_ok_def)
  define a where "a = accepted (c # cs) s - accepted cs u"
  have acc: "accepted (c # cs) s = a + accepted cs u" by (simp add: a_def u(1))
  have "unat (max_retries u) \<le> M \<and> (\<exists>new. trace u = trace s @ new \<and>
      transmissions new + credit M u \<le> credit M s + (M + 1) * (a + k * handler_calls new))"
  proof (cases c)
    case (Api_call x)
    with u(1) obtain q where r: "do_call x s = Some (q, u)" by auto
    then have "a = (if q = QUEUED then 1 else 0)" using Api_call by (simp add: a_def)
    with do_call_credit [OF st(2) r, of M] Cons.prems(2) show ?thesis by fastforce
  next
    case (Api_action x)
    with u(1) Cons.prems(2, 3) do_action_pays [of x M k s] show ?thesis by (auto simp: pays_def a_def)
  next
    case (Api_feed env data)
    with u(1) Cons.prems(2, 3) budget.feed_rel [OF Cons.prems(1), of M k env data u] show ?thesis
      by (auto simp: pays_def a_def)
  next
    case (Api_tick env now)
    with u(1) Cons.prems(2, 3) budget.tick_rel [OF st(1), of M k env now u] show ?thesis
      by (auto simp: pays_def a_def)
  qed
  then obtain o1 where o1: "unat (max_retries u) \<le> M" "trace u = trace s @ o1"
    "transmissions o1 + credit M u \<le> credit M s + (M + 1) * (a + k * handler_calls o1)" by blast
  from Cons.IH [OF u(2) o1(1)] Cons.prems(3, 4) u(1) obtain o2 where
    "trace t = trace u @ o2"
    "transmissions o2 + credit M t \<le> credit M u + (M + 1) * (accepted cs u + k * handler_calls o2)" by auto
  with o1(2, 3) show ?case
    unfolding acc by (intro exI [of _ "o1 @ o2"]) (simp add: distrib_left)
qed simp

text \<open>
  C10: a session never floods the bus.  Over any sequence of calls, whatever bytes arrive and
  however the clock moves, the number of frames transmitted is at most the retry limit plus one for
  each request accepted, where a handler call counts for the requests it may make; with handlers
  that make none it is \<open>M + 1\<close> frames for each accepted call of the program.
\<close>

theorem transmissions_bounded:
  assumes "0 < capacity" and "unat DEFAULT_MAX_RETRIES \<le> M" and "\<forall>c \<in> set cs. modest_call M k c"
    and "run_api cs (init_session capacity host bms) = Some s"
  shows "transmissions (trace s) \<le>
    (M + 1) * (accepted cs (init_session capacity host bms) + k * handler_calls (trace s))"
proof -
  let ?s0 = "init_session capacity host bms"
  have "unat (max_retries ?s0) \<le> M" "trace ?s0 = []" "credit M ?s0 = 0"
    using assms(2) by (simp_all add: init_session_def credit_def)
  with run_api_pays [OF init_ok [OF assms(1)] _ assms(3, 4)] show ?thesis by fastforce
qed

text \<open>The bound is met by two requests and a silent device.\<close>

definition silent_calls :: "api_call list" where
  "silent_calls = [Api_action (Set_tx_handler (Some 1) 0), Api_action (Set_max_retries 2),
     Api_call (Poll_rtc None 0), Api_call (Poll_status_info None 0), Api_tick quiet_env 250,
     Api_tick quiet_env 500, Api_tick quiet_env 750, Api_tick quiet_env 1000, Api_tick quiet_env 1250,
     Api_tick quiet_env 1500]"

theorem transmissions_bounded_witness:
  "\<exists>s. run_api silent_calls (init_session 2 0x40 1) = Some s \<and> transmissions (trace s) = 6 \<and>
    transmissions (trace s) \<le> (2 + 1) * (accepted silent_calls (init_session 2 0x40 1) + 0 * handler_calls (trace s))"
proof -
  have "map_option (transmissions \<circ> trace) (run_api silent_calls (init_session 2 0x40 1)) = Some 6"
    by code_simp
  then obtain s where s: "run_api silent_calls (init_session 2 0x40 1) = Some s" "transmissions (trace s) = 6"
    by auto
  have "modest 2 0 quiet_env" by (simp add: modest_def quiet_env_def)
  then have "\<forall>c \<in> set silent_calls. modest_call 2 0 c" by (simp add: silent_calls_def)
  with s transmissions_bounded [of 2 2 silent_calls 0 "0x40" 1 s] show ?thesis by simp
qed

end
