(* ===== verification/Batches.thy ===== *)
theory Batches
  imports Progress
begin

text \<open>
  A batch of requests and its replies: the queue, the framer, the decoders and the dispatch
  together.  The handlers only watch.
\<close>

section \<open>One answer\<close>

text \<open>What an event for a request shows: itself, the request's handler, the session-wide one.\<close>

definition event_outputs :: "session \<Rightarrow> request \<Rightarrow> event \<Rightarrow> observable list" where
  "event_outputs s r e =
    EMIT e # handler_entry (on_event r) (on_event_ctx r) e @ handler_entry (event_fn s) (event_ctx s) e"

definition answer_outputs :: "session \<Rightarrow> request \<Rightarrow> data_bytes \<Rightarrow> observable list" where
  "answer_outputs s r data = event_outputs s r (single_reply_event r data)"

text \<open>The frame of the next request, if there is one.\<close>

definition next_output :: "session \<Rightarrow> request list \<Rightarrow> observable list" where
  "next_output s rs = (case rs of [] \<Rightarrow> [] | r # _ \<Rightarrow> tx_outputs s r)"

fun conversation :: "session \<Rightarrow> request list \<Rightarrow> data_bytes list \<Rightarrow> observable list" where
  "conversation s (r # rs) (data # datas) =
    answer_outputs s r data @ next_output s rs @ conversation s rs datas"
| "conversation s rs datas = []"

text \<open>What a conversation depends on of the session.\<close>

definition same_wiring :: "session \<Rightarrow> session \<Rightarrow> bool" where
  "same_wiring s t \<longleftrightarrow> host_address t = host_address s \<and> bms_address t = bms_address s \<and>
    tx_fn t = tx_fn s \<and> tx_ctx t = tx_ctx s \<and> event_fn t = event_fn s \<and> event_ctx t = event_ctx s"

lemma conversation_wiring:
  assumes "same_wiring s t"
  shows "conversation t rs datas = conversation s rs datas"
proof -
  have "tx_outputs t r = tx_outputs s r" for r
    using assms by (simp add: same_wiring_def tx_outputs_def request_frame_def split: option.split)
  then have "next_output t rs = next_output s rs" for rs by (simp add: next_output_def split: list.split)
  moreover have "answer_outputs t r d = answer_outputs s r d" for r d
    using assms by (simp add: same_wiring_def answer_outputs_def event_outputs_def)
  ultimately show ?thesis by (induction s rs datas rule: conversation.induct) simp_all
qed

lemma setup_wiring: "same_setup s t \<Longrightarrow> same_wiring s t"
  by (simp add: same_wiring_def)

text \<open>A request just sent: nothing of its reply has come, and what is expected is what it asks for.\<close>

definition just_asked :: "session \<Rightarrow> bool" where
  "just_asked s \<longleftrightarrow> busy s \<and> seen_mask s = 0 \<and> frames_seen s = 0 \<and> record_len s = 0 \<and>
    expected_frames s = request_frames s (hd (pending_requests s)) \<and>
    expected_items s = request_items s (hd (pending_requests s))"

lemma complete_sends_next:
  assumes "queue_ok s" and "state s = AWAITING" and "pending_requests s = r # rs"
  shows "\<exists>t. complete s = Some t \<and> pending_requests t = rs \<and> parser t = parser s \<and> same_setup s t \<and>
    trace t = trace s @ next_output s rs \<and> (if rs = [] then \<not> busy t else just_asked t)"
proof -
  let ?u = "(pop_request s)\<lparr>state := IDLE\<rparr>"
  have "queue_count s \<noteq> 0" using assms(3) by (metis list.discI pending_Nil_iff)
  from pop_request_ok [OF assms(1) this] assms(3)
  have u: "queue_ok ?u" "pending_requests ?u = rs"
    by (simp_all add: queue_ok_def QUEUE_CAPACITY_def pending_requests_def)
  have c: "complete s = pump ?u" by (simp add: complete_def assms(2))
  have tx: "tx_outputs ?u x = tx_outputs s x" for x
    by (simp add: tx_outputs_def request_frame_def pop_request_def split: option.split)
  have p: "same_setup s ?u" "parser ?u = parser s" "trace ?u = trace s" "\<not> busy ?u"
    by (simp_all add: pop_request_def busy_def)
  show ?thesis
  proof (cases rs)
    case Nil
    then have "queue_count ?u = 0" using u(2) by simp
    then show ?thesis
      unfolding c using Nil u(2) p by (simp add: pump_empty next_output_def)
  next
    case (Cons x xs)
    let ?t = "started x ?u"
    have "pump ?u = Some ?t" by (rule pump_starts [OF u(1) _ u(2) [unfolded Cons]]) simp
    moreover have q: "pending_requests ?t = rs"
      using u(2) by (simp add: started_def pending_requests_def)
    moreover have "same_setup ?u ?t" "parser ?t = parser ?u" "trace ?t = trace ?u @ tx_outputs ?u x"
      by (simp_all add: started_def)
    moreover have "just_asked ?t"
    proof -
      have "request_items ?t h = request_items ?u h" for h by (simp add: request_items_def started_def)
      then have "request_frames ?t h = request_frames ?u h" for h by (simp add: request_frames_def)
      with \<open>\<And>h. request_items ?t h = request_items ?u h\<close> q Cons show ?thesis
        by (simp add: just_asked_def busy_def) (simp add: started_def)
    qed
    ultimately show ?thesis
      unfolding c using Cons tx p by (simp add: next_output_def)
  qed
qed

text \<open>An event of a request, the request's end and the next one.\<close>

lemma emit_shows:
  assumes "queue_ok u" and "state u = AWAITING" and "pending_requests u = r # rs" and "watching env"
  shows "emit env e u = Some (u\<lparr>trace := trace u @ event_outputs u r e\<rparr>)"
proof -
  have "queue_count u \<noteq> 0" using assms(3) by (metis list.discI pending_Nil_iff)
  with assms(2, 3) have "EMIT e # calls_of u e = event_outputs u r e"
    by (simp add: calls_of_def owner_entry_def event_outputs_def Let_def)
  with emit_watching [OF assms(4, 1), of e] show ?thesis by simp
qed

lemma answer_then_next:
  assumes "queue_ok u" and "state u = AWAITING" and "pending_requests u = r # rs" and "watching env"
  shows "\<exists>t. emit env e u \<bind> complete = Some t \<and> pending_requests t = rs \<and> parser t = parser u \<and>
    same_setup u t \<and> trace t = trace u @ event_outputs u r e @ next_output u rs \<and>
    (if rs = [] then \<not> busy t else just_asked t)"
proof -
  let ?v = "u\<lparr>trace := trace u @ event_outputs u r e\<rparr>"
  have v: "queue_ok ?v" "state ?v = AWAITING" "pending_requests ?v = r # rs" using assms by simp_all
  have "next_output ?v rs = next_output u rs"
    by (simp add: next_output_def tx_outputs_def request_frame_def split: list.split option.split)
  with complete_sends_next [OF v] show ?thesis by (simp add: emit_shows [OF assms])
qed

lemma one_answer:
  assumes "session_idle_ok s" and "content (parser s) = []" and "watching env" and "busy s"
    and "pending_requests s = r # rs" and "length data = DATA_LEN" and "\<not> multi (multiframe_info (req_id r))"
  shows "\<exists>t. session_idle_ok t \<and> content (parser t) = [] \<and> pending_requests t = rs \<and>
    same_setup (note_counts (req_id r) data s) t \<and>
    trace t = trace s @ answer_outputs s r data @ next_output s rs \<and>
    (if rs = [] then \<not> busy t else just_asked t) \<and>
    (\<forall>rest. feed env (Some (reply_frame s (req_id r) data @ rest)) s = feed env (Some rest) t)"
proof -
  have st: "state s = AWAITING" using assms(4) by (cases "state s") (simp_all add: busy_def)
  from feed_single_reply_then [OF assms(1, 4, 2, 6), of env] assms(5, 7) obtain p where
    p: "parser_inv p" "content p = []" and run:
    "\<And>rest. feed env (Some (reply_frame s (req_id r) data @ rest)) s =
      emit env (single_reply_event r data) (note_counts (req_id r) data (put_parser p s)) \<bind> complete \<bind>
      feed env (Some rest)" by auto
  define u where "u = note_counts (req_id r) data (put_parser p s)"
  have u: "queue_ok u" "state u = AWAITING" "pending_requests u = r # rs" "parser u = p"
    "same_setup (note_counts (req_id r) data s) u" "same_wiring s u" "trace u = trace s"
    using assms(1, 5) st session_okD(1) note_counts_ok [OF put_parser_ok [OF _ p(1)], of s]
    by (simp_all add: u_def session_idle_ok_def)
      (simp_all add: put_parser_def note_counts_def same_wiring_def pending_requests_def)
  from answer_then_next [OF u(1-3) assms(3), of "single_reply_event r data"] obtain t where
    t: "emit env (single_reply_event r data) u \<bind> complete = Some t" "pending_requests t = rs"
      "parser t = parser u" "same_setup u t"
      "trace t = trace u @ event_outputs u r (single_reply_event r data) @ next_output u rs"
      "if rs = [] then \<not> busy t else just_asked t" by blast
  have "event_outputs u r (single_reply_event r data) = answer_outputs s r data" "next_output u rs = next_output s rs"
    using u(6) by (simp_all add: answer_outputs_def event_outputs_def same_wiring_def next_output_def
        tx_outputs_def request_frame_def split: list.split option.split)
  moreover have feed: "feed env (Some (reply_frame s (req_id r) data @ rest)) s = feed env (Some rest) t" for rest
    using run [of rest] t(1) by (simp add: u_def [symmetric])
  moreover from feed_ok [OF assms(1), of env "Some (reply_frame s (req_id r) data)"] feed [of "[]"]
  have "session_idle_ok t" by simp
  moreover have "same_setup (note_counts (req_id r) data s) t" using u(5) t(4) by simp
  ultimately show ?thesis
    using t u(4, 7) p(2) by (intro exI [of _ t] conjI allI) simp_all
qed

section \<open>A batch\<close>

text \<open>The bytes of the replies, one after the other.\<close>

definition reply_bytes_of :: "session \<Rightarrow> request list \<Rightarrow> data_bytes list \<Rightarrow> u8 list" where
  "reply_bytes_of s rs datas = concat (map2 (\<lambda>r. reply_frame s (req_id r)) rs datas)"

lemma batch_answered:
  assumes "session_idle_ok s" and "content (parser s) = []" and "watching env"
    and "busy s \<longleftrightarrow> pending_requests s \<noteq> []" and "length datas = length (pending_requests s)"
    and "\<forall>d \<in> set datas. length d = DATA_LEN"
    and "\<forall>r \<in> set (pending_requests s). \<not> multi (multiframe_info (req_id r))"
  shows "\<exists>t. feed env (Some (reply_bytes_of s (pending_requests s) datas)) s = Some t \<and>
    trace t = trace s @ conversation s (pending_requests s) datas \<and> \<not> busy t \<and> pending_requests t = []"
  using assms
proof (induction "pending_requests s" arbitrary: s datas)
  case Nil
  then have "pending_requests s = []" "datas = []" by (metis, metis length_0_conv list.size(3))
  with Nil.prems(4) show ?case by (simp add: reply_bytes_of_def)
next
  case (Cons r rs)
  from Cons.prems(5) Cons.hyps(2) obtain d ds where ds: "datas = d # ds" "length ds = length rs"
    by (metis length_Suc_conv)
  from one_answer [OF Cons.prems(1-3) _ Cons.hyps(2) [symmetric], of d] Cons.prems(4, 6, 7) ds(1)
  obtain t where t: "session_idle_ok t" "content (parser t) = []" "pending_requests t = rs"
    "same_setup (note_counts (req_id r) d s) t" "trace t = trace s @ answer_outputs s r d @ next_output s rs"
    "if rs = [] then \<not> busy t else just_asked t"
    and run: "\<And>rest. feed env (Some (reply_frame s (req_id r) d @ rest)) s = feed env (Some rest) t"
    unfolding Cons.hyps(2) [symmetric] by auto
  have wire: "same_wiring s t" using t(4) by (simp add: same_wiring_def note_counts_def)
  have t6: "busy t \<longleftrightarrow> rs \<noteq> []" using t(6) by (auto simp: just_asked_def split: if_splits)
  have "\<exists>u. feed env (Some (reply_bytes_of t (pending_requests t) ds)) t = Some u \<and>
    trace u = trace t @ conversation t (pending_requests t) ds \<and> \<not> busy u \<and> pending_requests u = []"
    using Cons.hyps(1) [OF t(3) [symmetric] t(1, 2) Cons.prems(3)] t(3) t6 Cons.prems(6, 7) ds
    unfolding Cons.hyps(2) [symmetric] by auto
  moreover have "reply_bytes_of t rs ds = reply_bytes_of s rs ds"
    using wire by (simp add: reply_bytes_of_def reply_frame_def same_wiring_def)
  moreover have "reply_bytes_of s (r # rs) datas = reply_frame s (req_id r) d @ reply_bytes_of s rs ds"
    by (simp add: reply_bytes_of_def ds(1))
  ultimately show ?case
    unfolding Cons.hyps(2) [symmetric] using t(3, 5) run conversation_wiring [OF wire] ds(1) by simp
qed

lemma feed_append: "feed env (Some (xs @ ys)) s = feed env (Some xs) s \<bind> feed env (Some ys)"
  by (cases "feed_with parser put_parser (Some (on_frame env)) (Some (on_frame_error env)) xs s")
    (simp_all add: feed_def parser_feed_def feed_with_append)

text \<open>
  A batch of single-frame requests is answered in order.  With any number of single-frame requests pending, the first of
  them in flight, the bytes of their replies back to back, in one read or cut up in any way, end
  all of them: for each in turn the event with its decoded data or acknowledgement, its own
  handler, the session-wide handler and the frame of the next request, and nothing else; then the
  bus is free.
\<close>

lemma batch_answered_in_order:
  assumes "reachable s" and "busy s" and "content (parser s) = []" and "watching env"
    and "length datas = pending s" and "\<forall>d \<in> set datas. length d = DATA_LEN"
    and "\<forall>r \<in> set (pending_requests s). \<not> multi (multiframe_info (req_id r))"
    and "xs @ ys = reply_bytes_of s (pending_requests s) datas"
  shows "\<exists>t u. feed env (Some xs) s = Some t \<and> feed env (Some ys) t = Some u \<and>
    trace u = trace s @ conversation s (pending_requests s) datas \<and> \<not> busy u \<and> pending u = 0"
proof -
  have ok: "session_idle_ok s" by (rule reachable_ok [OF assms(1)])
  have "state s = AWAITING" using assms(2) by (cases "state s") (simp_all add: busy_def)
  with ok have "pending_requests s \<noteq> []" using session_okD(3) by (auto simp: session_idle_ok_def)
  with batch_answered [OF ok assms(3, 4) _ _ assms(6, 7)] assms(2, 5) obtain u where
    u: "feed env (Some (reply_bytes_of s (pending_requests s) datas)) s = Some u"
    "trace u = trace s @ conversation s (pending_requests s) datas" "\<not> busy u" "pending_requests u = []"
    by (auto simp: pending_def)
  from u(1) assms(8) have "feed env (Some xs) s \<bind> feed env (Some ys) = Some u"
    by (simp add: feed_append [symmetric])
  then obtain t where "feed env (Some xs) s = Some t" "feed env (Some ys) t = Some u"
    by (auto simp: bind_eq_Some_conv)
  moreover have "pending u = 0" using u(4) by (metis length_pending list.size(3) pending_def)
  ultimately show ?thesis using u by blast
qed

text \<open>The first requests of the monitoring program, with a session-wide handler.\<close>

definition batch_run :: "session option" where
  "batch_run = run_from_start [Api_action (Set_event_handler (Some 5) 0),
     Api_call (Poll_capacity_voltage (Some 3) 1), Api_call (Poll_status_info (Some 3) 1),
     Api_call (Poll_fault_status None 0)]"

lemma batch_run_state:
  "map_option (\<lambda>s. (map (\<lambda>r. (req_id r, on_event r)) (pending_requests s), busy s, content (parser s),
     length (trace s), tx_fn s, event_fn s)) batch_run =
   Some ([(CAPACITY_VOLTAGE, Some 3), (STATUS_INFO, Some 3)], True, [], 1, Some 1, Some 5)"
  by code_simp

lemma batch_answered_in_order_witness:
  "\<exists>s t u. batch_run = Some s \<and> feed quiet_env (Some (take 9 (reply_bytes_of s (pending_requests s)
      [[0, 0, 195, 80, 0, 0, 14, 16], [16, 4, 0, 0, 0, 0, 0, 0]]))) s = Some t \<and>
    feed quiet_env (Some (drop 9 (reply_bytes_of s (pending_requests s)
      [[0, 0, 195, 80, 0, 0, 14, 16], [16, 4, 0, 0, 0, 0, 0, 0]]))) t = Some u \<and>
    length (trace u) = 8 \<and> \<not> busy u \<and> pending u = 0"
proof -
  let ?ds = "[[0, 0, 195, 80, 0, 0, 14, 16], [16, 4, 0, 0, 0, 0, 0, 0]] :: data_bytes list"
  obtain s where s: "batch_run = Some s" "reachable s"
    using run_from_start_reachable unfolding batch_run_def by blast
  from batch_run_state have st: "busy s" "content (parser s) = []" "length (trace s) = 1"
    "tx_fn s = Some 1" "event_fn s = Some 5"
    "map (\<lambda>r. (req_id r, on_event r)) (pending_requests s) = [(CAPACITY_VOLTAGE, Some 3), (STATUS_INFO, Some 3)]"
    unfolding s(1) by simp_all
  then obtain r1 r2 where r: "pending_requests s = [r1, r2]" "req_id r1 = CAPACITY_VOLTAGE"
    "req_id r2 = STATUS_INFO" "on_event r1 = Some 3" "on_event r2 = Some 3" by (auto simp: map_eq_Cons_conv)
  have multi: "\<forall>r \<in> set (pending_requests s). \<not> multi (multiframe_info (req_id r))"
    by (simp add: r multi_iff paginated_ids_def)
  have "pending s = 2" using r(1) by (metis length_Cons list.size(3) length_pending pending_def numeral_2_eq_2)
  with batch_answered_in_order [OF s(2) st(1, 2) quiet_watching _ _ multi, of ?ds "take 9 (reply_bytes_of s (pending_requests s) ?ds)"
      "drop 9 (reply_bytes_of s (pending_requests s) ?ds)"]
  obtain t u where
    "feed quiet_env (Some (take 9 (reply_bytes_of s (pending_requests s) ?ds))) s = Some t"
    "feed quiet_env (Some (drop 9 (reply_bytes_of s (pending_requests s) ?ds))) t = Some u"
    "trace u = trace s @ conversation s (pending_requests s) ?ds" "\<not> busy u" "pending u = 0" by auto
  moreover have "length (conversation s (pending_requests s) ?ds) = 7"
    using st(4, 5) by (simp add: r answer_outputs_def event_outputs_def next_output_def tx_outputs_def)
  ultimately show ?thesis using s(1) st(3) by auto
qed

end
