(* ===== verification/Dialogues.thy ===== *)
theory Dialogues
  imports Batches
begin

text \<open>
  A queue of requests of every kind and the replies of a device that keeps to the protocol: one
  frame, the pages of a reply in any order, or a stream of fault records with its end marker.  What
  a status reply tells sizes the paginated replies behind it.
\<close>

section \<open>Replies\<close>

datatype reply =
    Single data_bytes
  | Pages nat "nat list" "nat \<Rightarrow> u8 list"
  | Records "data_bytes list list" data_bytes

text \<open>
  \<open>Pages b ks chunk\<close> is the reply whose counters start at \<open>b\<close>, sent in the order \<open>ks\<close>, where
  \<open>chunk k\<close> is what follows the counter \<open>k\<close> in its frame; \<open>Records dss d\<close> sends one record for
  each element of \<open>dss\<close> and ends with the frame of data \<open>d\<close>.
\<close>

primrec conforms :: "session \<Rightarrow> request \<Rightarrow> reply \<Rightarrow> bool" where
  "conforms s r (Single d) \<longleftrightarrow> \<not> multi (multiframe_info (req_id r)) \<and> length d = DATA_LEN"
| "conforms s r (Pages b ks chunk) \<longleftrightarrow> req_id r \<in> set paginated_ids \<and>
    0 < unat (request_frames s r) \<and> b + unat (request_frames s r) \<le> 17 \<and>
    set ks = {b..<b + unat (request_frames s r)} \<and> last ks \<notin> set (butlast ks) \<and>
    (\<forall>k \<in> set ks. length (chunk k) = 7)"
| "conforms s r (Records dss d) \<longleftrightarrow> req_id r = FAULT_RECORDS \<and>
    (\<forall>ds \<in> set dss. length ds = FAULT_FRAMES_PER_RECORD \<and> (\<forall>d \<in> set ds. record_frame d)) \<and>
    length d = DATA_LEN \<and> d ! 0 = FRAME_NO_END"

text \<open>The bytes of a reply, its events, and what the session learns from it.\<close>

primrec wire_bytes :: "session \<Rightarrow> request \<Rightarrow> reply \<Rightarrow> u8 list" where
  "wire_bytes s r (Single d) = reply_frame s (req_id r) d"
| "wire_bytes s r (Pages b ks chunk) = concat (map (page_frame s (req_id r) chunk) ks)"
| "wire_bytes s r (Records dss d) = concat (map (fault_frame s) (concat dss)) @ fault_frame s d"

definition pages_payload :: "session \<Rightarrow> request \<Rightarrow> nat \<Rightarrow> (nat \<Rightarrow> u8 list) \<Rightarrow> event_payload" where
  "pages_payload s r b chunk =
    (let i = req_id r; c = concat (map (carried i chunk) [b..<b + unat (request_frames s r)])
     in the (the (decode_multi i (Some (take (trimmed i (request_items s r) (length c)) c)))))"

primrec reply_events :: "session \<Rightarrow> request \<Rightarrow> reply \<Rightarrow> event list" where
  "reply_events s r (Single d) = [single_reply_event r d]"
| "reply_events s r (Pages b ks chunk) =
    [page_event (req_id r) {b..<b + unat (request_frames s r)} (pages_payload s r b chunk)]"
| "reply_events s r (Records dss d) = map (\<lambda>ds. record_event (record_of ds)) dss"

primrec learned :: "request \<Rightarrow> reply \<Rightarrow> session \<Rightarrow> session" where
  "learned r (Single d) s = note_counts (req_id r) d s"
| "learned r (Pages b ks chunk) s = s"
| "learned r (Records dss d) s = s"

definition reply_outputs :: "session \<Rightarrow> request \<Rightarrow> reply \<Rightarrow> observable list" where
  "reply_outputs s r p = concat (map (event_outputs s r) (reply_events s r p))"

section \<open>One reply\<close>

text \<open>The session after a reply, and that nothing else of the input has been touched.\<close>

definition answered_to :: "environment \<Rightarrow> session \<Rightarrow> u8 list \<Rightarrow> observable list \<Rightarrow> session \<Rightarrow> request list \<Rightarrow> bool" where
  "answered_to env s bytes outs setup rs \<longleftrightarrow> (\<exists>t. session_idle_ok t \<and> content (parser t) = [] \<and>
    pending_requests t = rs \<and> same_setup setup t \<and> trace t = trace s @ outs @ next_output s rs \<and>
    (if rs = [] then \<not> busy t else just_asked t) \<and>
    (\<forall>rest. feed env (Some (bytes @ rest)) s = feed env (Some rest) t))"

lemma same_outputs:
  assumes "same_setup s t"
  shows "event_outputs t r e = event_outputs s r e" and "next_output t rs = next_output s rs"
  using assms by (simp_all add: event_outputs_def next_output_def tx_outputs_def request_frame_def
      split: list.split option.split)

lemma answered_toI:
  assumes "session_idle_ok s" and "\<And>rest. feed env (Some (bytes @ rest)) s = feed env (Some rest) t"
    and "content (parser t) = []" and "pending_requests t = rs" and "same_setup setup t"
    and "trace t = trace s @ outs @ next_output s rs" and "if rs = [] then \<not> busy t else just_asked t"
  shows "answered_to env s bytes outs setup rs"
proof -
  from feed_ok [OF assms(1), of env "Some bytes"] assms(2) [of "[]"] have "session_idle_ok t" by simp
  with assms(2-) show ?thesis unfolding answered_to_def by blast
qed

lemma just_asked_pages:
  assumes "session_idle_ok s" and "content (parser s) = []" and "just_asked s"
  shows "collecting i chunk {} s s" and "recording [] 0 s s"
  using assms by (cases "state s"; simp add: collecting_def recording_def session_idle_ok_def just_asked_def busy_def)+

lemma pages_answer:
  assumes "session_idle_ok s" and "content (parser s) = []" and "watching env" and "just_asked s"
    and "pending_requests s = r # rs" and "conforms s r (Pages b ks chunk)"
  shows "answered_to env s (wire_bytes s r (Pages b ks chunk)) (reply_outputs s r (Pages b ks chunk)) s rs"
proof -
  let ?i = "req_id r" and ?n = "unat (request_frames s r)"
  have ex: "expected_frames s = request_frames s r" "expected_items s = request_items s r" "?i = req_id (hd (pending_requests s))"
    using assms(4, 5) by (simp_all add: just_asked_def)
  from feed_all_pages [OF just_asked_pages(1) [OF assms(1, 2, 4)] ex(3), of ?n b ks chunk env] assms(6)
  obtain u p where u: "collecting ?i chunk {b..<b + ?n} s u" and
    p: "decode_multi ?i (Some (let c = concat (map (carried ?i chunk) [b..<b + ?n])
      in take (trimmed ?i (expected_items s) (length c)) c)) = Some (Some p)" and
    run: "\<And>rest. feed env (Some (concat (map (page_frame s ?i chunk) ks) @ rest)) s =
      emit env (page_event ?i {b..<b + ?n} p) u \<bind> complete \<bind> feed env (Some rest)"
    by (auto simp: ex(1))
  have pp: "pages_payload s r b chunk = p" using p by (simp add: pages_payload_def ex(2) Let_def)
  let ?e = "page_event ?i {b..<b + ?n} p"
  have uu: "queue_ok u" "state u = AWAITING" "pending_requests u = r # rs" "same_setup s u" "trace u = trace s"
    "content (parser u) = []"
    using u assms(5) session_okD(1) by (auto simp: collecting_def)
  from answer_then_next [OF uu(1-3) assms(3), of ?e] obtain t where
    t: "emit env ?e u \<bind> complete = Some t" "pending_requests t = rs" "parser t = parser u" "same_setup u t"
      "trace t = trace u @ event_outputs u r ?e @ next_output u rs" "if rs = [] then \<not> busy t else just_asked t"
    by blast
  show ?thesis
    by (rule answered_toI [OF assms(1), where t = t])
      (use t uu run same_outputs [OF uu(4)] in \<open>simp_all add: reply_outputs_def pp\<close>)
qed

lemma event_outputs_good: "good_event e \<Longrightarrow> list_all good_entry (event_outputs s r e)"
  by (simp add: event_outputs_def handler_entry_def split: option.split)

lemma stream_answer:
  assumes "session_idle_ok s" and "content (parser s) = []" and "watching env" and "just_asked s"
    and "pending_requests s = r # rs" and "conforms s r (Records dss d)"
  shows "answered_to env s (wire_bytes s r (Records dss d)) (reply_outputs s r (Records dss d)) s rs"
proof -
  let ?outs = "event_outputs s r"
  have id: "FAULT_RECORDS = req_id (hd (pending_requests s))" and d: "length d = DATA_LEN" "d ! 0 = FRAME_NO_END"
    using assms(5, 6) by simp_all
  have "only_told env ?outs s"
    unfolding only_told_def
  proof (intro conjI allI impI)
    fix e u
    assume u: "session_ok u \<and> state u = AWAITING \<and> dispatching u = dispatching s \<and>
      pending_requests u = pending_requests s \<and> same_setup s u"
    then have "queue_ok u" "state u = AWAITING" "pending_requests u = r # rs" "same_setup s u"
      using session_okD(1) assms(5) by auto
    with emit_shows [of u r rs env e] same_outputs(1) [of s u r e] assms(3)
    show "emit env e u = Some (u\<lparr>trace := trace u @ ?outs e\<rparr>)" by simp
  qed (rule event_outputs_good)
  from feed_records [OF just_asked_pages(2) [OF assms(1, 2, 4)] assms(1) id this, of dss] assms(6) obtain t1 where
    t1: "recording [] (4 * length dss) (s\<lparr>trace := trace s @ told ?outs dss\<rparr>) t1"
    and run1: "\<And>rest. feed env (Some (concat (map (fault_frame s) (concat dss)) @ rest)) s = feed env (Some rest) t1"
    by auto
  from feed_fault_frame [OF t1 _ d(1), of env] id obtain p where
    p: "recording [] (4 * length dss) (s\<lparr>trace := trace s @ told ?outs dss\<rparr>) (put_parser p t1)"
    and run2: "\<And>rest. feed env (Some (fault_frame s d @ rest)) t1 =
      handle_stream env FAULT_RECORDS d (put_parser p t1) \<bind> feed env (Some rest)"
    by (auto simp: fault_frame_def reply_frame_def)
  define u where "u = put_parser p t1"
  have u: "queue_ok u" "state u = AWAITING" "pending_requests u = r # rs" "same_setup s u"
    "trace u = trace s @ told ?outs dss" "content (parser u) = []"
    using p assms(5) session_okD(1) by (auto simp: recording_def u_def)
  from complete_sends_next [OF u(1-3)] obtain t where
    t: "complete u = Some t" "pending_requests t = rs" "parser t = parser u" "same_setup u t"
      "trace t = trace u @ next_output u rs" "if rs = [] then \<not> busy t else just_asked t" by blast
  have "handle_stream env FAULT_RECORDS d u = Some t" using d(2) t(1) by (simp add: handle_stream_def)
  with run2 have run: "feed env (Some (fault_frame s d @ rest)) t1 = feed env (Some rest) t" for rest
    by (simp add: u_def)
  have outs: "reply_outputs s r (Records dss d) = told ?outs dss"
    by (simp add: reply_outputs_def told_def comp_def)
  show ?thesis
    by (rule answered_toI [OF assms(1), where t = t])
      (use t u run run1 same_outputs(2) [OF u(4)] in \<open>simp_all add: outs\<close>)
qed

lemma one_reply:
  assumes "session_idle_ok s" and "content (parser s) = []" and "watching env" and "just_asked s"
    and "pending_requests s = r # rs" and "conforms s r p"
  shows "answered_to env s (wire_bytes s r p) (reply_outputs s r p) (learned r p s) rs"
proof (cases p)
  case (Single d)
  with one_answer [OF assms(1-3) _ assms(5), of d] assms(4, 6) show ?thesis
    by (simp add: answered_to_def just_asked_def reply_outputs_def answer_outputs_def)
next
  case (Pages b ks chunk)
  with pages_answer [OF assms(1-5)] assms(6) show ?thesis by simp
next
  case (Records dss d)
  with stream_answer [OF assms(1-5)] assms(6) show ?thesis by simp
qed

section \<open>A queue of requests\<close>

fun dialogue :: "session \<Rightarrow> request list \<Rightarrow> reply list \<Rightarrow> observable list" where
  "dialogue s (r # rs) (p # ps) = reply_outputs s r p @ next_output s rs @ dialogue (learned r p s) rs ps"
| "dialogue s rs ps = []"

fun device_bytes :: "session \<Rightarrow> request list \<Rightarrow> reply list \<Rightarrow> u8 list" where
  "device_bytes s (r # rs) (p # ps) = wire_bytes s r p @ device_bytes s rs ps"
| "device_bytes s rs ps = []"

text \<open>A reply to each request, as the counts known by then demand.\<close>

fun device_conforms :: "session \<Rightarrow> request list \<Rightarrow> reply list \<Rightarrow> bool" where
  "device_conforms s (r # rs) (p # ps) \<longleftrightarrow> conforms s r p \<and> device_conforms (learned r p s) rs ps"
| "device_conforms s rs ps \<longleftrightarrow> rs = [] \<and> ps = []"

text \<open>All of this depends only on the setup.\<close>

lemma request_setup:
  assumes "same_setup s t"
  shows "request_items t r = request_items s r" and "request_frames t r = request_frames s r"
proof -
  show i: "request_items t r = request_items s r" using assms by (simp add: request_items_def)
  show "request_frames t r = request_frames s r" by (simp add: request_frames_def i)
qed

lemma conforms_setup: "same_setup s t \<Longrightarrow> conforms t r p \<longleftrightarrow> conforms s r p"
  by (cases p) (simp_all add: request_setup del: same_setup_def)

lemma reply_outputs_setup:
  assumes "same_setup s t"
  shows "reply_outputs t r p = reply_outputs s r p"
proof -
  have "event_outputs t r = event_outputs s r" using same_outputs(1) [OF assms] by (simp add: fun_eq_iff)
  moreover have "reply_events t r p = reply_events s r p"
    by (cases p) (simp_all add: pages_payload_def request_setup [OF assms])
  ultimately show ?thesis by (simp add: reply_outputs_def)
qed

lemma learned_setup: "same_setup s t \<Longrightarrow> same_setup (learned r p s) (learned r p t)"
  by (cases p) (simp_all add: note_counts_def)

lemma dialogue_setup: "same_setup s t \<Longrightarrow> dialogue t rs ps = dialogue s rs ps"
proof (induction s rs ps arbitrary: t rule: dialogue.induct)
  case (1 s r rs p ps)
  from "1.IH" [OF learned_setup [OF "1.prems"]] reply_outputs_setup [OF "1.prems"] same_outputs(2) [OF "1.prems"]
  show ?case by simp
qed simp_all

lemma device_conforms_setup: "same_setup s t \<Longrightarrow> device_conforms t rs ps \<longleftrightarrow> device_conforms s rs ps"
proof (induction s rs ps arbitrary: t rule: device_conforms.induct)
  case (1 s r rs p ps)
  from "1.IH" [OF learned_setup [OF "1.prems"]] conforms_setup [OF "1.prems"] show ?case by simp
qed simp_all

lemma device_bytes_address: "bms_address t = bms_address s \<Longrightarrow> device_bytes t rs ps = device_bytes s rs ps"
proof (induction s rs ps rule: device_bytes.induct)
  case (1 s r rs p ps)
  have "reply_frame t = reply_frame s" using "1.prems" by (simp add: fun_eq_iff reply_frame_def)
  then have "page_frame t = page_frame s" "fault_frame t = fault_frame s"
    by (simp_all add: fun_eq_iff page_frame_def fault_frame_def)
  with \<open>reply_frame t = reply_frame s\<close> have "wire_bytes t r p = wire_bytes s r p" by (cases p) simp_all
  with 1 show ?case by simp
qed simp_all

lemma learned_address: "bms_address (learned r p s) = bms_address s"
  by (cases p) (simp_all add: note_counts_def)

lemma dialogue_held:
  assumes "session_idle_ok s" and "content (parser s) = []" and "watching env"
    and "if pending_requests s = [] then \<not> busy s else just_asked s"
    and "device_conforms s (pending_requests s) ps"
  shows "\<exists>t. feed env (Some (device_bytes s (pending_requests s) ps)) s = Some t \<and>
    trace t = trace s @ dialogue s (pending_requests s) ps \<and> \<not> busy t \<and> pending_requests t = []"
  using assms
proof (induction "pending_requests s" arbitrary: s ps)
  case Nil
  note empty = Nil.hyps [symmetric]
  then have "queue_count s = 0" by simp
  with Nil.prems(4) show ?case unfolding empty by simp
next
  case (Cons r rs)
  note pend = Cons.hyps(2) [symmetric]
  from Cons.prems(5) obtain p qs where ps: "ps = p # qs" "conforms s r p" "device_conforms (learned r p s) rs qs"
    unfolding pend by (cases ps) auto
  have "just_asked s" using Cons.prems(4) pend by simp
  from one_reply [OF Cons.prems(1-3) this pend ps(2)] obtain t where
    t: "session_idle_ok t" "content (parser t) = []" "pending_requests t = rs" "same_setup (learned r p s) t"
      "trace t = trace s @ reply_outputs s r p @ next_output s rs" "if rs = [] then \<not> busy t else just_asked t"
    and run: "\<And>rest. feed env (Some (wire_bytes s r p @ rest)) s = feed env (Some rest) t"
    unfolding answered_to_def by blast
  have "device_conforms t rs qs" using ps(3) device_conforms_setup [OF t(4)] by simp
  with Cons.hyps(1) [OF t(3) [symmetric] t(1, 2) Cons.prems(3)] t(3, 6)
  obtain u where u: "feed env (Some (device_bytes t rs qs)) t = Some u"
    "trace u = trace t @ dialogue t rs qs" "\<not> busy u" "pending_requests u = []" by auto
  moreover have "device_bytes t rs qs = device_bytes s rs qs"
    using t(4) learned_address [of r p s] by (intro device_bytes_address) simp
  moreover have "dialogue t rs qs = dialogue (learned r p s) rs qs" by (rule dialogue_setup [OF t(4)])
  ultimately show ?case unfolding pend ps(1) using t(5) run by simp
qed

text \<open>
  Requests made while the bus is free, and any number of them behind one that was just sent, leave
  the session in such a state.
\<close>

lemma asking_just_asked:
  assumes "session_idle_ok s" and "do_call c s = Some (QUEUED, t)"
    and "if pending_requests s = [] then \<not> busy s else just_asked s"
  shows "just_asked t" and "pending_requests t = pending_requests s @ [call_request c]"
proof -
  let ?r = "call_request c"
  have ok: "queue_ok s" "\<not> dispatching s"
    using assms(1) session_okD(1) by (auto simp: session_idle_ok_def)
  have r: "enqueue ?r s = Some (QUEUED, t)" using assms(2) by (simp add: do_call_enqueue)
  then have q: "tx_fn s \<noteq> None" "is_known_data_id (req_id ?r)" "queue_count s < QUEUE_CAPACITY s"
    by (auto simp: enqueue_def split: if_splits)
  from q(2) have "admissible_request ?r" using call_request_data [of c] by (simp add: admissible_request_def)
  from enqueue_accepted [OF ok(1) this q(1, 3)] r ok(2) obtain qs s1 where
    s1: "s1 = s\<lparr>queue := qs, queue_count := queue_count s + 1\<rparr>"
      "pending_requests s1 = pending_requests s @ [?r]"
      "t = (if state s = IDLE then started (hd (pending_requests s @ [?r])) s1 else s1)" by auto
  have st: "pending_requests (started h s1) = pending_requests s1" for h
    by (simp add: started_def pending_requests_def)
  show "pending_requests t = pending_requests s @ [?r]" unfolding s1(3) using s1(2) st by simp
  show "just_asked t"
  proof (cases "pending_requests s = []")
    case True
    with assms(3) have "state s = IDLE" by (cases "state s") (simp_all add: busy_def)
    with True s1(3) have t: "t = started ?r s1" by simp
    have "request_items (started h s1) x = request_items s1 x" for h x
      by (simp add: request_items_def started_def)
    moreover from this have "request_frames (started h s1) x = request_frames s1 x" for h x
      by (simp add: request_frames_def)
    ultimately show ?thesis
      using st s1(2) True by (simp add: t just_asked_def busy_def) (simp add: started_def)
  next
    case False
    then have js: "just_asked s" using assms(3) by simp
    then have t: "t = s1" using s1(3) by (cases "state s") (simp_all add: just_asked_def busy_def)
    have "same_setup s s1" by (simp add: s1(1))
    note sizes = request_setup [OF this]
    have "hd (pending_requests s1) = hd (pending_requests s)" using False s1(2) by simp
    with js sizes show ?thesis by (simp add: t just_asked_def busy_def) (simp add: s1(1))
  qed
qed

text \<open>
  C20: a device that keeps to the protocol is understood.  With any requests pending, of any kind,
  the first of them just sent, and a reply to each as the protocol has it, in one frame, in pages of
  any order and numbering, or as a stream of fault records, the bytes of the replies back to back,
  in one read or cut up in any way, end all the requests in order: for each in turn the event or
  events of its reply, each with its own handler and the session-wide one, then the frame of the
  next request, and nothing else; the counts of a status reply size the pages of the replies behind
  it.  Then the bus is free.
\<close>

theorem device_understood:
  assumes "reachable s" and "just_asked s" and "content (parser s) = []" and "watching env"
    and "device_conforms s (pending_requests s) ps" and "xs @ ys = device_bytes s (pending_requests s) ps"
  shows "\<exists>t u. feed env (Some xs) s = Some t \<and> feed env (Some ys) t = Some u \<and>
    trace u = trace s @ dialogue s (pending_requests s) ps \<and> \<not> busy u \<and> pending u = 0"
proof -
  have ok: "session_idle_ok s" by (rule reachable_ok [OF assms(1)])
  have "state s = AWAITING" using assms(2) by (cases "state s") (simp_all add: just_asked_def busy_def)
  with ok have "pending_requests s \<noteq> []" using session_okD(3) by (auto simp: session_idle_ok_def)
  with dialogue_held [OF ok assms(3, 4) _ assms(5)] assms(2) obtain u where
    u: "feed env (Some (device_bytes s (pending_requests s) ps)) s = Some u"
    "trace u = trace s @ dialogue s (pending_requests s) ps" "\<not> busy u" "pending_requests u = []"
    by auto
  from u(1) assms(6) have "feed env (Some xs) s \<bind> feed env (Some ys) = Some u"
    by (simp add: feed_append [symmetric])
  then obtain t where "feed env (Some xs) s = Some t" "feed env (Some ys) t = Some u"
    by (auto simp: bind_eq_Some_conv)
  moreover have "pending u = 0" using u(4) by (metis length_pending list.size(3) pending_def)
  ultimately show ?thesis using u by blast
qed

text \<open>A status, the voltages of the four cells it tells of, in two pages the wrong way round, and a record.\<close>

definition mixed_run :: "session option" where
  "mixed_run = run_api [Api_action (Set_tx_handler (Some 1) 0), Api_call (Poll_status_info None 0),
     Api_call (Poll_cell_voltages 0 None 0), Api_call (Poll_fault_records None 0)] (init_session 4 0x40 1)"

definition mixed_replies :: "reply list" where
  "mixed_replies = [Single [4, 1, 0, 0, 0, 0, 0, 0], Pages 1 [2, 2, 1] sample_chunk,
     Records [sample_record] (replicate 8 0xFF)]"

lemma mixed_run_state:
  "map_option (\<lambda>s. (just_asked s, content (parser s), map (\<lambda>r. (req_id r, hint r)) (pending_requests s),
     emitted (trace s))) mixed_run =
   Some (True, [], [(STATUS_INFO, 0), (CELL_VOLTAGES, 0), (FAULT_RECORDS, 0)], [])"
  by code_simp

lemma emitted_event_outputs [simp]: "emitted (event_outputs s r e) = [e]"
proof -
  have "emitted (handler_entry f c e) = []" for f c by (rule emitted_none(1) [where e = e]) simp
  then show ?thesis by (simp add: event_outputs_def)
qed

lemma emitted_next_output [simp]: "emitted (next_output s rs) = []"
  by (simp add: next_output_def split: list.split)

lemma emitted_reply_outputs [simp]: "emitted (reply_outputs s r p) = reply_events s r p"
proof -
  have "emitted (concat (map (event_outputs s r) es)) = es" for es by (induction es) simp_all
  then show ?thesis by (simp add: reply_outputs_def)
qed

theorem device_understood_witness:
  "\<exists>s t u. mixed_run = Some s \<and>
    feed quiet_env (Some (take 20 (device_bytes s (pending_requests s) mixed_replies))) s = Some t \<and>
    feed quiet_env (Some (drop 20 (device_bytes s (pending_requests s) mixed_replies))) t = Some u \<and>
    map event_id (emitted (trace u)) = [STATUS_INFO, CELL_VOLTAGES, FAULT_RECORDS] \<and> \<not> busy u \<and> pending u = 0"
proof -
  have "reachable (init_session 4 0x40 1)" by (rule reachable.construct) simp
  from run_api_reachable [OF this] obtain s where s: "mixed_run = Some s" "reachable s"
    unfolding mixed_run_def by blast
  from mixed_run_state have st: "just_asked s" "content (parser s) = []" "emitted (trace s) = []"
    "map (\<lambda>r. (req_id r, hint r)) (pending_requests s) = [(STATUS_INFO, 0), (CELL_VOLTAGES, 0), (FAULT_RECORDS, 0)]"
    unfolding s(1) by simp_all
  then obtain r1 r2 r3 where r: "pending_requests s = [r1, r2, r3]" "req_id r1 = STATUS_INFO"
    "req_id r2 = CELL_VOLTAGES" "hint r2 = 0" "req_id r3 = FAULT_RECORDS"
    by (auto simp: map_eq_Cons_conv)
  have "cell_voltage_frames 4 = 2" by code_simp
  define s1 where "s1 = learned r1 (Single [4, 1, 0, 0, 0, 0, 0, 0]) s"
  have "cached_cell_count s1 = 4" by (simp add: s1_def r(2) note_counts_def)
  then have "request_items s1 r2 = 4" unfolding request_items_def r(3, 4) by simp
  with \<open>cell_voltage_frames 4 = 2\<close> have two: "request_frames s1 r2 = 2"
    unfolding request_frames_def r(3) by simp
  have "\<not> multi (multiframe_info (req_id r1))" "req_id r2 \<in> set paginated_ids"
    unfolding r by (simp_all add: multi_iff paginated_ids_def)
  then have "conforms s r1 (Single [4, 1, 0, 0, 0, 0, 0, 0])" "conforms s1 r2 (Pages 1 [2, 2, 1] sample_chunk)"
    by (auto simp: two length_sample_chunk)
  moreover have "conforms s1 r3 (Records [sample_record] (replicate 8 0xFF))"
    using sample_record_frames by (simp add: r(5))
  ultimately have conf: "device_conforms s (pending_requests s) mixed_replies"
    by (simp add: r(1) mixed_replies_def s1_def [symmetric] del: learned.simps(1) conforms.simps)
  from device_understood [OF s(2) st(1, 2) quiet_watching conf append_take_drop_id [of 20]] obtain t u where
    tu: "feed quiet_env (Some (take 20 (device_bytes s (pending_requests s) mixed_replies))) s = Some t"
    "feed quiet_env (Some (drop 20 (device_bytes s (pending_requests s) mixed_replies))) t = Some u"
    "trace u = trace s @ dialogue s (pending_requests s) mixed_replies" "\<not> busy u" "pending u = 0" by blast
  have "event_id (single_reply_event r1 [4, 1, 0, 0, 0, 0, 0, 0]) = STATUS_INFO"
    by (simp add: single_reply_event_def Let_def r(2) mos_ids_def)
  then have "map event_id (emitted (dialogue s (pending_requests s) mixed_replies)) =
      [STATUS_INFO, CELL_VOLTAGES, FAULT_RECORDS]"
    by (simp add: r mixed_replies_def page_event_def record_event_def)
  with tu s(1) st(3) show ?thesis by auto
qed

end
