(* ===== verification/Readings.thy ===== *)
theory Readings
  imports Pagination
begin

text \<open>
  The cell voltages from the pack to the accessor: a device that sends the voltages as its protocol
  says, three to a page, and what \<open>as_cell_voltages\<close> hands out in the end.
\<close>

section \<open>The device's side\<close>

text \<open>A 16-bit reading on the wire, high byte first; all readings; the page with the \<open>k\<close>-th three.\<close>

definition be_bytes :: "u16 \<Rightarrow> u8 list" where
  "be_bytes v = [ucast (drop_bit 8 v), ucast v]"

definition voltage_bytes :: "u16 list \<Rightarrow> u8 list" where
  "voltage_bytes vs = concat (map be_bytes vs)"

definition voltage_page :: "u16 list \<Rightarrow> u8 \<Rightarrow> nat \<Rightarrow> u8 list" where
  "voltage_page vs filler k = take 6 (drop (k * 6) (voltage_bytes vs) @ replicate 6 filler) @ [filler]"

definition voltage_pages :: "nat \<Rightarrow> nat" where
  "voltage_pages cells = (cells + 2) div 3"

lemma length_voltage_bytes [simp]: "length (voltage_bytes vs) = 2 * length vs"
  by (induction vs) (simp_all add: voltage_bytes_def be_bytes_def)

lemma length_voltage_page [simp]: "length (voltage_page vs filler k) = 7"
  by (simp add: voltage_page_def)

lemma be_bytes_read: "push_bit 8 (ucast (ucast (drop_bit 8 v) :: u8)) OR ucast (ucast v :: u8) = (v :: u16)"
  by (rule bit_word_eqI) (auto simp: bit_simps)

lemma voltage_read: "k < length vs \<Longrightarrow> rec16 (voltage_bytes vs) (k * 2) = vs ! k"
proof (induction vs arbitrary: k)
  case (Cons v vs)
  then show ?case
    by (cases k) (simp_all add: voltage_bytes_def be_bytes_def rec16_def be_bytes_read)
qed simp

lemma voltage_pages_carry:
  "concat (map (carried CELL_VOLTAGES (\<lambda>k. voltage_page vs filler (k - b))) [b..<b + voltage_pages (length vs)]) =
    take (voltage_pages (length vs) * 6) (voltage_bytes vs @ replicate 6 filler)"
proof -
  let ?n = "voltage_pages (length vs)" and ?xs = "voltage_bytes vs @ replicate 6 filler"
  have bpf: "unat (bytes_per_frame (multiframe_info CELL_VOLTAGES)) = 6"
    by (simp add: multiframe_info_def multi_frame_info.make_def)
  have seg: "take 6 (drop (k * 6) ?xs) = take 6 (voltage_page vs filler k)" if "k < ?n" for k
  proof -
    from that have "k * 6 \<le> 2 * length vs" unfolding voltage_pages_def by linarith
    then show ?thesis by (simp add: voltage_page_def)
  qed
  have "?n * 6 \<le> 2 * length vs + 6" unfolding voltage_pages_def by linarith
  then have "take (?n * 6) (drop (0 * 6) ?xs) = concat (map (\<lambda>k. take 6 (voltage_page vs filler k)) [0..<0 + ?n])"
    using seg by (intro segments_concat) simp_all
  moreover have "carried CELL_VOLTAGES f = (\<lambda>k. take 6 (f k))" for f
    unfolding carried_def bpf ..
  moreover have "map (\<lambda>k. take 6 (voltage_page vs filler (k - b))) [b..<b + ?n] =
      map (\<lambda>k. take 6 (voltage_page vs filler k)) [0..<?n]"
    by (rule nth_equalityI) simp_all
  ultimately show ?thesis by simp
qed

lemma voltages_decoded_back:
  assumes "vs \<noteq> []" and "length vs \<le> MAX_CELLS" and "c = take (voltage_pages (length vs) * 6) (voltage_bytes vs @ replicate 6 filler)"
  shows "decode_multi CELL_VOLTAGES (Some (take (trimmed CELL_VOLTAGES (of_nat (length vs)) (length c)) c)) =
    Some (Some (P_cell_voltages (cell_voltages.make (of_nat (length vs)) (vs @ replicate (48 - length vs) 0))))"
proof -
  have len: "unat (of_nat (length vs) :: u8) = length vs"
    using assms(2) by (simp add: unsigned_of_nat take_bit_nat_eq_self)
  with assms(1) have "(of_nat (length vs) :: u8) \<noteq> 0" by (metis length_0_conv unsigned_0)
  moreover have "2 * length vs \<le> voltage_pages (length vs) * 6" unfolding voltage_pages_def by linarith
  moreover have "total_bytes (multiframe_info CELL_VOLTAGES) = 0"
    by (simp add: multiframe_info_def multi_frame_info.make_def)
  ultimately have "take (trimmed CELL_VOLTAGES (of_nat (length vs)) (length c)) c = voltage_bytes vs"
    using assms(2) len by (simp add: trimmed_def assms(3) min_def)
  moreover have "map (\<lambda>k. rec16 (voltage_bytes vs) (k * 2)) [0..<length vs] = vs"
    by (rule nth_equalityI) (simp_all add: voltage_read)
  ultimately show ?thesis
    using assms(2) decode_multi_voltages [of "voltage_bytes vs"] by (simp add: min_def)
qed

section \<open>From the pack to the accessor\<close>

lemma collected_voltages:
  assumes "reachable s" and "busy s" and "seen_mask s = 0" and "content (parser s) = []"
    and "req_id (hd (pending_requests s)) = CELL_VOLTAGES"
    and "expected_items s = of_nat (length vs)" and "expected_frames s = cell_voltage_frames (expected_items s)"
    and "vs \<noteq> []" and "length vs \<le> MAX_CELLS" and "b \<le> 1"
    and "set ks = {b..<b + voltage_pages (length vs)}" and "last ks \<notin> set (butlast ks)"
  shows "\<exists>s' e p. feed env (Some (concat (map (page_frame s CELL_VOLTAGES (\<lambda>k. voltage_page vs filler (k - b))) ks))) s
      = Some s' \<and> reports e s s' \<and> kind e = RESPONSE \<and> event_id e = CELL_VOLTAGES \<and>
    as_cell_voltages e = Ptr p \<and> unat (cell_voltages.count p) = length vs \<and>
    take (length vs) (mv p) = vs"
proof -
  let ?n = "voltage_pages (length vs)" and ?i = "CELL_VOLTAGES"
  let ?chunk = "\<lambda>k. voltage_page vs filler (k - b)"
  have len: "unat (of_nat (length vs) :: u8) = length vs"
    using assms(9) by (simp add: unsigned_of_nat take_bit_nat_eq_self)
  have n: "unat (expected_frames s) = ?n"
    using assms(9) unfolding assms(7) cell_voltage_frames_nat assms(6) len voltage_pages_def by simp
  have pos: "0 < ?n" using assms(8) by (cases vs) (simp_all add: voltage_pages_def)
  have fit: "b + ?n \<le> 17" using assms(9, 10) unfolding voltage_pages_def by simp
  have "?i \<in> set paginated_ids" by (simp add: paginated_ids_def)
  from pages_reassembled [OF assms(1-4) assms(5) [symmetric] this n pos fit assms(11, 12), of ?chunk env]
  obtain s' p where s': "feed env (Some (concat (map (page_frame s ?i ?chunk) ks))) s = Some s'"
    "reports (page_event ?i {b..<b + ?n} p) s s'" and
    d: "decode_multi ?i (Some (let c = concat (map (carried ?i ?chunk) [b..<b + ?n])
      in take (trimmed ?i (expected_items s) (length c)) c)) = Some (Some p)" by auto
  from d voltages_decoded_back [OF assms(8, 9) voltage_pages_carry [where b = b]]
  have p: "p = P_cell_voltages (cell_voltages.make (of_nat (length vs)) (vs @ replicate (48 - length vs) 0))"
    by (simp add: Let_def assms(6))
  let ?e = "page_event ?i {b..<b + ?n} p"
  have "as_cell_voltages ?e = Ptr (cell_voltages.make (of_nat (length vs)) (vs @ replicate (48 - length vs) 0))"
    "kind ?e = RESPONSE" "event_id ?e = ?i"
    by (simp_all add: page_event_def default_event_def as_cell_voltages_def point_to_def responds_to_def
        is_response_def p)
  with s' len show ?thesis by (intro exI [of _ s'] exI [of _ ?e]) (auto simp: cell_voltages.make_def)
qed

text \<open>A cell-voltage request made while the session has nothing to do.\<close>

lemma voltages_requested:
  assumes "reachable s" and "\<not> busy s" and "pending s = 0"
    and "do_call (Poll_cell_voltages h fn c) s = Some (QUEUED, t)"
    and "n = (if h \<noteq> 0 then h else cached_cell_count s)"
  shows "reachable t" and "busy t" and "seen_mask t = 0" and "parser t = parser s"
    and "req_id (hd (pending_requests t)) = CELL_VOLTAGES" and "expected_items t = n"
    and "expected_frames t = cell_voltage_frames n"
    and "trace t = trace s @ tx_outputs s (call_request (Poll_cell_voltages h fn c))"
proof -
  let ?r = "call_request (Poll_cell_voltages h fn c)"
  show "reachable t" using reachable.use [OF assms(1), of "Api_call (Poll_cell_voltages h fn c)"] assms(4) by simp
  have ok: "queue_ok s" "\<not> dispatching s" "state s = IDLE" "pending_requests s = []"
    using reachable_ok [OF assms(1)] session_okD(1) assms(2, 3)
    by (auto simp: session_idle_ok_def busy_def pending_def intro: session_state.exhaust [of "state s"])
  have r: "enqueue ?r s = Some (QUEUED, t)" using assms(4) by (simp add: do_call_enqueue)
  then have q: "tx_fn s \<noteq> None" "is_known_data_id (req_id ?r)" "queue_count s < QUEUE_CAPACITY s"
    by (auto simp: enqueue_def split: if_splits)
  have id: "req_id ?r = CELL_VOLTAGES" "hint ?r = h" by (simp_all add: request.make_def)
  from q(2) have "admissible_request ?r" using call_request_data [of "Poll_cell_voltages h fn c"]
    by (simp add: admissible_request_def)
  from enqueue_accepted [OF ok(1) this q(1, 3)] r ok obtain qs s1 where
    s1: "s1 = s\<lparr>queue := qs, queue_count := queue_count s + 1\<rparr>" "pending_requests s1 = [?r]" "t = started ?r s1"
    by auto
  have "pending_requests t = [?r]" using s1(2, 3) by (simp add: started_def pending_requests_def)
  then show "req_id (hd (pending_requests t)) = CELL_VOLTAGES" using id(1) by simp
  have m: "cached_cell_count s1 = cached_cell_count s" by (simp add: s1(1))
  have "tx_outputs s1 ?r = tx_outputs s ?r"
    by (simp add: s1(1) tx_outputs_def request_frame_def split: option.split)
  moreover have "request_items s1 ?r = n" by (simp only: request_items_def id m assms(5) if_True refl)
  moreover have "request_frames s1 ?r = cell_voltage_frames n"
    unfolding request_frames_def id calculation(2) by simp
  ultimately show "busy t" "seen_mask t = 0" "parser t = parser s" "expected_items t = n"
    "expected_frames t = cell_voltage_frames n" "trace t = trace s @ tx_outputs s ?r"
    by (simp_all add: s1(3) started_def busy_def del: call_request.simps) (simp_all add: s1(1))
qed

text \<open>
  C22: the voltages of the cells arrive as they were sent.  Ask an idle session for the cell
  voltages, with the number of cells, at most 48, as the argument or known from an earlier reply.
  Let the device send the voltages three to a page, numbered from 0 or from 1, padded with any
  bytes, the pages in any order and repeated at will.  The last of them ends the request with one
  response, from which \<open>as_cell_voltages\<close> hands out exactly the voltages sent, in the order of the
  cells.
\<close>

theorem voltages_arrive_as_sent:
  assumes "reachable s" and "\<not> busy s" and "pending s = 0" and "content (parser s) = []"
    and "do_call (Poll_cell_voltages h fn c) s = Some (QUEUED, t)"
    and "(if h \<noteq> 0 then h else cached_cell_count s) = of_nat (length vs)"
    and "vs \<noteq> []" and "length vs \<le> MAX_CELLS" and "b \<le> 1"
    and "set ks = {b..<b + voltage_pages (length vs)}" and "last ks \<notin> set (butlast ks)"
  shows "\<exists>u e p. feed env (Some (concat (map (page_frame t CELL_VOLTAGES (\<lambda>k. voltage_page vs filler (k - b))) ks))) t
      = Some u \<and> reports e t u \<and> kind e = RESPONSE \<and> event_id e = CELL_VOLTAGES \<and>
    as_cell_voltages e = Ptr p \<and> unat (cell_voltages.count p) = length vs \<and>
    take (length vs) (mv p) = vs"
proof -
  note r = voltages_requested [OF assms(1-3, 5) assms(6) [symmetric]]
  show ?thesis
    by (rule collected_voltages [OF r(1-3) _ r(5, 6) _ assms(7-11)]) (simp_all add: r assms(4))
qed

text \<open>Four cells, numbered from 1, the second page first and twice.\<close>

lemma start_run_state:
  "map_option (\<lambda>s. (busy s, pending s, content (parser s), map_option fst (do_call (Poll_cell_voltages 4 None 0) s)))
     (run_from_start []) = Some (False, 0, [], Some QUEUED)"
  by code_simp

theorem voltages_arrive_as_sent_witness:
  "\<exists>s t u e p. run_from_start [] = Some s \<and> do_call (Poll_cell_voltages 4 None 0) s = Some (QUEUED, t) \<and>
    feed quiet_env (Some (concat (map (page_frame t CELL_VOLTAGES
      (\<lambda>k. voltage_page [3301, 3302, 3303, 3304] 255 (k - 1))) [2, 2, 1]))) t = Some u \<and>
    reports e t u \<and> as_cell_voltages e = Ptr p \<and> take 4 (mv p) = [3301, 3302, 3303, 3304]"
proof -
  from run_from_start_reachable obtain s where s: "run_from_start [] = Some s" "reachable s" by blast
  have st: "\<not> busy s" "pending s = 0" "content (parser s) = []"
    "map_option fst (do_call (Poll_cell_voltages 4 None 0) s) = Some QUEUED"
    using start_run_state unfolding s(1) by simp_all
  then obtain t where t: "do_call (Poll_cell_voltages 4 None 0) s = Some (QUEUED, t)" by auto
  let ?vs = "[3301, 3302, 3303, 3304] :: u16 list"
  have four: "length ?vs = 4" by simp
  have h: "(if 4 \<noteq> (0 :: u8) then 4 else cached_cell_count s) = of_nat (length ?vs)"
    "?vs \<noteq> []" "length ?vs \<le> MAX_CELLS" "1 \<le> (1 :: nat)"
    "set [2, 2, 1] = {1..<1 + voltage_pages (length ?vs)}" "last [2, 2, 1 :: nat] \<notin> set (butlast [2, 2, 1])"
    by (auto simp: voltage_pages_def)
  from voltages_arrive_as_sent [OF s(2) st(1-3) t h, of quiet_env 255]
  obtain u e p where "feed quiet_env (Some (concat (map (page_frame t CELL_VOLTAGES
      (\<lambda>k. voltage_page ?vs 255 (k - 1))) [2, 2, 1]))) t = Some u"
    "reports e t u" "as_cell_voltages e = Ptr p" "take (length ?vs) (mv p) = ?vs" by blast
  then show ?thesis using s(1) t unfolding four by blast
qed

end
