(* ===== verification/Format.thy ===== *)
theory Format
  imports Prelude
begin

text \<open>
  The conversions of \<open>printf\<close> that the example programs use: decimal and hexadecimal integers,
  field widths, and fixed-point output of a double.  The integer conversions are exact by
  construction; \<open>%.Nf\<close> is modelled down to the two roundings the machine makes, the division in
  IEEE 754 double precision and the correctly rounded decimal output, both to nearest, ties to
  even, so that what is printed for a tie or a quotient without exact representation is computed
  and not assumed.
\<close>

section \<open>Strings and integers\<close>

definition nl :: string where
  "nl = [CHR 0x0A]"

definition pad_left :: "nat \<Rightarrow> char \<Rightarrow> string \<Rightarrow> string" where
  "pad_left w c t = replicate (w - length t) c @ t"

definition pad_right :: "nat \<Rightarrow> string \<Rightarrow> string" where
  "pad_right w t = t @ replicate (w - length t) CHR '' ''"

definition digit :: "int \<Rightarrow> char" where
  "digit n = char_of (48 + n)"

function show_nonneg :: "int \<Rightarrow> string" where
  "show_nonneg n = (if n < 10 then [digit n] else show_nonneg (n div 10) @ [digit (n mod 10)])"
  by pat_completeness auto
termination by (relation "measure nat") auto

declare show_nonneg.simps [simp del]

definition show_int :: "int \<Rightarrow> string" where
  "show_int i = (if i < 0 then CHR ''-'' # show_nonneg (- i) else show_nonneg i)"

definition show_u :: "'a::len word \<Rightarrow> string" where
  "show_u w = show_nonneg (uint w)"

definition show_d :: "'a::len word \<Rightarrow> string" where
  "show_d w = show_int (sint w)"

text \<open>\<open>%zu\<close>\<close>

definition show_size :: "nat \<Rightarrow> string" where
  "show_size n = show_nonneg (int n)"

text \<open>\<open>%0Nu\<close>\<close>

definition show_u0 :: "nat \<Rightarrow> 'a::len word \<Rightarrow> string" where
  "show_u0 n w = pad_left n CHR ''0'' (show_u w)"

definition hex_digit :: "int \<Rightarrow> char" where
  "hex_digit n = (if n < 10 then char_of (48 + n) else char_of (55 + n))"

text \<open>\<open>%02X\<close> of a byte\<close>

definition show_hex :: "u8 \<Rightarrow> string" where
  "show_hex b = [hex_digit (uint b div 16), hex_digit (uint b mod 16)]"

text \<open>\<open>%0NX\<close> of an \<open>unsigned\<close>\<close>

function hex_nonneg :: "int \<Rightarrow> string" where
  "hex_nonneg n =
    (if n < 16 then [hex_digit n] else hex_nonneg (n div 16) @ [hex_digit (n mod 16)])"
  by pat_completeness auto
termination by (relation "measure nat") auto

declare hex_nonneg.simps [simp del]

definition show_hex0 :: "nat \<Rightarrow> u32 \<Rightarrow> string" where
  "show_hex0 n w = pad_left n CHR ''0'' (hex_nonneg (uint w))"

section \<open>Doubles\<close>

text \<open>The integer nearest to \<open>a / b\<close>, ties to the even one.\<close>

definition round_even :: "int \<Rightarrow> int \<Rightarrow> int" where
  "round_even a b =
    (let q = a div b; r = a mod b in if 2 * r < b \<or> 2 * r = b \<and> even q then q else q + 1)"

text \<open>
  The double nearest to \<open>n / d\<close> as \<open>m / 2 ^ k\<close> with \<open>m\<close> of 53 bits.  The exponents tried are
  enough for \<open>0 < n < 2 ^ 32\<close> and \<open>1 \<le> d \<le> 1000\<close>.
\<close>

definition double_scale :: "int \<Rightarrow> int \<Rightarrow> nat" where
  "double_scale n d = (case find (\<lambda>k. d * 2 ^ 52 \<le> n * 2 ^ k) [20..<64] of None \<Rightarrow> 64 | Some k \<Rightarrow> k)"

definition double_quotient :: "int \<Rightarrow> int \<Rightarrow> int \<times> nat" where
  "double_quotient n d =
    (if n = 0 then (0, 0) else (round_even (n * 2 ^ double_scale n d) d, double_scale n d))"

text \<open>The decimal units printed by \<open>%.pf\<close> for \<open>n / d\<close>, and the text.\<close>

definition decimal_units :: "nat \<Rightarrow> int \<Rightarrow> int \<Rightarrow> int" where
  "decimal_units p n d = (let (m, k) = double_quotient n d in round_even (m * 10 ^ p) (2 ^ k))"

definition show_fixed :: "nat \<Rightarrow> int \<Rightarrow> int \<Rightarrow> string" where
  "show_fixed p i d =
    (let t = decimal_units p \<bar>i\<bar> d
     in (if i < 0 then ''-'' else []) @ show_nonneg (t div 10 ^ p) @ CHR ''.'' #
       pad_left p CHR ''0'' (show_nonneg (t mod 10 ^ p)))"

lemma round_even_near:
  assumes "0 < b"
  shows "2 * \<bar>round_even a b * b - a\<bar> \<le> b"
proof -
  have "a = a div b * b + a mod b" "0 \<le> a mod b" "a mod b < b" using assms by simp_all
  moreover have "round_even a b = a div b \<and> 2 * (a mod b) \<le> b \<or>
      round_even a b = a div b + 1 \<and> b \<le> 2 * (a mod b)"
    by (auto simp: round_even_def Let_def)
  moreover have "2 * \<bar>q * b - x\<bar> \<le> b"
    if "x = q' * b + r" "0 \<le> r" "r < b" "q = q' \<and> 2 * r \<le> b \<or> q = q' + 1 \<and> b \<le> 2 * r" for q q' r x :: int
    using that by (auto simp: algebra_simps)
  ultimately show ?thesis by blast
qed

lemma round_even_unique:
  assumes "2 * \<bar>q * b - a\<bar> < b"
  shows "round_even a b = q"
proof -
  have b: "0 < b" using assms by (auto simp: abs_if split: if_splits)
  have near: "2 * \<bar>x - a\<bar> \<le> b \<Longrightarrow> 2 * \<bar>y - a\<bar> < b \<Longrightarrow> \<bar>x - y\<bar> < b" for x y a b :: int
    by (auto simp: abs_if split: if_splits)
  from near [OF round_even_near [OF b] assms]
  have "\<bar>(round_even a b - q) * b\<bar> < b" by (simp only: left_diff_distrib)
  then have "\<bar>round_even a b - q\<bar> * b < 1 * b" using b by (simp add: abs_mult)
  then have "\<bar>round_even a b - q\<bar> < 1" using b by (simp only: mult_less_cancel_right)
  then show ?thesis by simp
qed

lemma double_scale_ge: "20 \<le> double_scale n d"
proof (cases "find (\<lambda>k. d * 2 ^ 52 \<le> n * 2 ^ k) [20..<64]")
  case None
  then show ?thesis by (simp add: double_scale_def del: upt_rec_numeral)
next
  case (Some k)
  then have "k \<in> set [20..<64]" unfolding find_Some_iff by (metis nth_mem)
  then have "20 \<le> k" by (simp del: upt_rec_numeral)
  with Some show ?thesis by (simp add: double_scale_def del: upt_rec_numeral)
qed

lemma double_near:
  assumes "0 < d"
  shows "\<exists>m k. double_quotient n d = (m, k) \<and> 2 * \<bar>m * d - n * 2 ^ k\<bar> \<le> d \<and> (n = 0 \<or> 20 \<le> k)"
proof (cases "n = 0")
  case False
  then show ?thesis
    using round_even_near [OF assms, of "n * 2 ^ double_scale n d"] double_scale_ge [of n d]
    by (auto simp: double_quotient_def)
qed (use assms in \<open>simp add: double_quotient_def\<close>)

text \<open>A value in tenths, hundredths or thousandths is printed exactly with that many decimals.\<close>

lemma decimal_units_exact:
  assumes "p \<le> 3"
  shows "decimal_units p n (10 ^ p) = n"
proof -
  have d: "0 < (10 :: int) ^ p" "(10 :: int) ^ p \<le> 1000"
    using power_increasing [OF assms, of "10 :: int"] by simp_all
  from double_near [OF d(1), of n] obtain m k where mk: "double_quotient n (10 ^ p) = (m, k)"
    "2 * \<bar>m * 10 ^ p - n * 2 ^ k\<bar> \<le> 10 ^ p" "n = 0 \<or> 20 \<le> k" by blast
  show ?thesis
  proof (cases "n = 0")
    case True
    then show ?thesis by (simp add: decimal_units_def double_quotient_def round_even_def)
  next
    case False
    with mk(3) have "(2 :: int) ^ 20 \<le> 2 ^ k" by (intro power_increasing) simp_all
    then have "2 * \<bar>n * 2 ^ k - m * 10 ^ p\<bar> < 2 ^ k"
      using mk(2) d(2) by (simp add: abs_minus_commute)
    from round_even_unique [OF this] show ?thesis by (simp add: decimal_units_def mk(1))
  qed
qed

text \<open>With fewer decimals the result is rounded: at most half a unit off.\<close>

lemma decimal_units_near:
  "2 * \<bar>decimal_units 1 n 1000 * 100 - n\<bar> \<le> 100"
proof -
  from double_near [of 1000 n] obtain m k where mk: "double_quotient n 1000 = (m, k)"
    "2 * \<bar>m * 1000 - n * 2 ^ k\<bar> \<le> 1000" "n = 0 \<or> 20 \<le> k" by auto
  let ?t = "round_even (m * 10) (2 ^ k)"
  have t: "2 * \<bar>?t * 2 ^ k - m * 10\<bar> \<le> 2 ^ k" by (rule round_even_near) simp
  show ?thesis
  proof (cases "n = 0")
    case True
    then show ?thesis by (simp add: decimal_units_def double_quotient_def round_even_def)
  next
    case False
    with mk(3) have "(2 :: int) ^ 20 \<le> 2 ^ k" by (intro power_increasing) simp_all
    then have big: "1048576 \<le> (2 :: int) ^ k" by simp
    define K where "K = (2 :: int) ^ k"
    have "\<bar>a - c\<bar> \<le> x + y" if "\<bar>a - b\<bar> \<le> x" "\<bar>b - c\<bar> \<le> y" for a b c x y :: int
      using that by (auto simp: abs_if split: if_splits)
    moreover have "\<bar>2 * (?t * K) * 100 - 2 * (m * 10) * 100\<bar> \<le> K * 100"
      using t unfolding K_def by (auto simp: abs_if split: if_splits)
    moreover have "\<bar>2 * (m * 10) * 100 - 2 * (n * K)\<bar> \<le> 1000"
      using mk(2) unfolding K_def by (auto simp: abs_if split: if_splits)
    ultimately have "\<bar>2 * (?t * K) * 100 - 2 * (n * K)\<bar> \<le> K * 100 + 1000" by blast
    then have "\<bar>(2 * (?t * 100 - n)) * K\<bar> < 101 * K"
      using big unfolding K_def [symmetric] by (simp add: algebra_simps)
    then have "\<bar>2 * (?t * 100 - n)\<bar> * K < 101 * K" using big by (simp add: abs_mult K_def)
    then have "\<bar>2 * (?t * 100 - n)\<bar> < 101" using big by (simp only: mult_less_cancel_right K_def)
    then show ?thesis by (simp add: decimal_units_def mk(1))
  qed
qed

section \<open>What the digits say\<close>

definition digits_value :: "string \<Rightarrow> int" where
  "digits_value t = foldl (\<lambda>v c. 10 * v + (of_char c - 48)) 0 t"

lemma foldl_digits:
  "foldl (\<lambda>v c. 10 * v + (of_char c - 48)) v t = v * 10 ^ length t + digits_value t" for v :: int
proof (induction t rule: rev_induct)
  case (snoc c t)
  then show ?case by (simp add: digits_value_def algebra_simps)
qed (simp add: digits_value_def)

lemma digits_value_append:
  "digits_value (a @ b) = digits_value a * 10 ^ length b + digits_value b"
  using foldl_digits [of "digits_value a" b] by (simp add: digits_value_def)

lemma digits_value_digit: "0 \<le> n \<Longrightarrow> n < 10 \<Longrightarrow> digits_value [digit n] = n"
  by (simp add: digits_value_def digit_def)

lemma digits_value_zeros: "digits_value (replicate k CHR ''0'') = 0"
  by (induction k) (simp_all add: digits_value_def)

lemma digits_value_show: "0 \<le> n \<Longrightarrow> digits_value (show_nonneg n) = n"
proof (induction n rule: show_nonneg.induct)
  case (1 n)
  then show ?case
    by (subst show_nonneg.simps) (auto simp: digits_value_append digits_value_digit)
qed

lemma length_show_nonneg: "0 \<le> n \<Longrightarrow> n < 10 ^ k \<Longrightarrow> 0 < k \<Longrightarrow> length (show_nonneg n) \<le> k"
proof (induction n arbitrary: k rule: show_nonneg.induct)
  case (1 n)
  show ?case
  proof (cases "n < 10")
    case True
    with 1 show ?thesis by (subst show_nonneg.simps) simp
  next
    case False
    with 1 obtain j where j: "k = Suc j" "0 < j" by (cases k; cases "k - 1") auto
    then have "n div 10 < 10 ^ j" using 1 by (simp add: div_less_iff_less_mult)
    with 1(1) [of j] False 1(2) j show ?thesis by (subst show_nonneg.simps) simp
  qed
qed

lemma digits_pad_left: "digits_value (pad_left w CHR ''0'' t) = digits_value t"
  by (simp add: pad_left_def digits_value_append digits_value_zeros)

lemma length_pad_left: "length t \<le> w \<Longrightarrow> length (pad_left w c t) = w"
  by (simp add: pad_left_def)

text \<open>The number a fixed-point text denotes, in units of its last decimal.\<close>

definition fixed_value :: "string \<Rightarrow> int" where
  "fixed_value t =
    (if t \<noteq> [] \<and> hd t = CHR ''-'' then - digits_value (filter (\<lambda>c. c \<noteq> CHR ''.'') (tl t))
     else digits_value (filter (\<lambda>c. c \<noteq> CHR ''.'') t))"

lemma show_nonneg_chars: "0 \<le> n \<Longrightarrow> c \<in> set (show_nonneg n) \<Longrightarrow> \<exists>k. 0 \<le> k \<and> k < 10 \<and> c = digit k"
proof (induction n rule: show_nonneg.induct)
  case (1 n)
  then show ?case
    by (subst (asm) (2) show_nonneg.simps)
      (auto split: if_splits intro: exI [of _ n] exI [of _ "n mod 10"])
qed

lemma digit_no_punctuation: "0 \<le> k \<Longrightarrow> k < 10 \<Longrightarrow> digit k \<noteq> CHR ''.'' \<and> digit k \<noteq> CHR ''-''"
proof -
  assume k: "0 \<le> k" "k < 10"
  then have "of_char (digit k) = 48 + k" by (simp add: digit_def)
  with k show ?thesis by auto
qed

lemma show_nonneg_plain:
  assumes "0 \<le> n"
  shows "CHR ''.'' \<notin> set (show_nonneg n)" and "CHR ''-'' \<notin> set (show_nonneg n)"
  using show_nonneg_chars [OF assms] digit_no_punctuation by metis+

lemma show_nonneg_not_Nil: "show_nonneg n \<noteq> []"
  by (subst show_nonneg.simps) simp

lemma fixed_value_show_fixed:
  assumes "p \<le> 3" and "0 < p"
  shows "fixed_value (show_fixed p i (10 ^ p)) = i"
proof -
  define a where "a = \<bar>i\<bar>"
  have a: "0 \<le> a" by (simp add: a_def)
  let ?w = "show_nonneg (a div 10 ^ p)" and ?f = "pad_left p CHR ''0'' (show_nonneg (a mod 10 ^ p))"
  have plain: "CHR ''.'' \<notin> set ?w" "CHR ''-'' \<notin> set ?w" "CHR ''.'' \<notin> set ?f"
    using a show_nonneg_plain [of "a div 10 ^ p"] show_nonneg_plain [of "a mod 10 ^ p"]
    by (simp_all add: pos_imp_zdiv_nonneg_iff pad_left_def)
  have "length (show_nonneg (a mod 10 ^ p)) \<le> p"
    by (rule length_show_nonneg) (use assms in simp_all)
  then have "digits_value (?w @ ?f) = a div 10 ^ p * 10 ^ p + a mod 10 ^ p"
    using a by (simp add: digits_value_append digits_pad_left digits_value_show length_pad_left
        pos_imp_zdiv_nonneg_iff)
  then have v: "digits_value (?w @ ?f) = a" by (simp only: div_mult_mod_eq)
  have fl: "filter (\<lambda>c. c \<noteq> CHR ''.'') (?w @ CHR ''.'' # ?f) = ?w @ ?f"
  proof -
    have "filter (\<lambda>c. c \<noteq> CHR ''.'') t = t" if "CHR ''.'' \<notin> set t" for t
      using that by (auto simp: filter_id_conv)
    with plain show ?thesis by simp
  qed
  have hd: "hd (?w @ CHR ''.'' # ?f) \<noteq> CHR ''-''"
    using plain(2) show_nonneg_not_Nil [of "a div 10 ^ p"] by (metis hd_append2 list.set_sel(1))
  have s: "show_fixed p i (10 ^ p) = (if i < 0 then ''-'' else []) @ ?w @ CHR ''.'' # ?f"
    by (simp add: show_fixed_def decimal_units_exact [OF assms(1)] a_def Let_def)
  show ?thesis
  proof (cases "i < 0")
    case True
    then show ?thesis using v fl by (simp add: s fixed_value_def a_def)
  next
    case False
    then show ?thesis using v fl hd by (simp add: s fixed_value_def a_def)
  qed
qed

end
