(* ===== verification/Serial.thy ===== *)
theory Serial
  imports Format
begin

text \<open>
  The serial ports of the two examples: \<open>baud_constant\<close> and \<open>open_serial\<close> of
  \<open>examples/dump_all.cpp\<close>, \<open>open_serial\<close> of \<open>examples/poll_loop.cpp\<close>.

  The terminal interface and the kernel are parameters.  \<open>termios_api\<close> holds the constants of
  \<open>termios.h\<close> and the functions that edit a \<open>termios\<close>; \<open>kernel\<close> says what each system call
  answers.  An operation yields the system calls it makes, in order, messages to \<open>stderr\<close> among
  them, and its result.  What is relied on is what \<open>termios(3)\<close> documents (\<open>termios_ok\<close>,
  \<open>kernel_ok\<close>): the line speeds used are not the hang-up speed 0, the flags that are set and the
  flags that are cleared are different bits, \<open>VMIN\<close> and \<open>VTIME\<close> index the array of control
  characters, and setting the speed sets the speed and nothing else.
\<close>

section \<open>The terminal interface\<close>

record termios =
  c_iflag :: u32
  c_oflag :: u32
  c_cflag :: u32
  c_lflag :: u32
  c_cc :: "u8 list"
  c_ispeed :: u32
  c_ospeed :: u32

record termios_api =
  line_speed :: "nat \<Rightarrow> u32" \<comment> \<open>\<open>B1200\<close> is \<open>line_speed 1200\<close>\<close>
  PARENB :: u32
  CSTOPB :: u32
  CRTSCTS :: u32
  CS8 :: u32
  CREAD :: u32
  CLOCAL :: u32
  VMIN :: nat
  VTIME :: nat
  cfmakeraw :: "termios \<Rightarrow> termios"
  cfsetispeed :: "u32 \<Rightarrow> termios \<Rightarrow> termios"
  cfsetospeed :: "u32 \<Rightarrow> termios \<Rightarrow> termios"

datatype sys_call =
    Open string
  | Getattr int
  | Setattr int termios
  | Flush int
  | Close int
  | Message string

record kernel =
  open_result :: "string \<Rightarrow> int"
  getattr_result :: "int \<Rightarrow> int \<times> termios"
  setattr_result :: "int \<Rightarrow> termios \<Rightarrow> int"
  error_text :: "sys_call \<Rightarrow> string" \<comment> \<open>\<open>strerror(errno)\<close> after a call\<close>

definition supported_bauds :: "nat list" where
  "supported_bauds = [1200, 2400, 4800, 9600, 19200, 38400, 57600, 115200]"

definition NCCS :: nat where [simp]: "NCCS = 32"

definition termios_ok :: "termios_api \<Rightarrow> bool" where
  "termios_ok tio \<longleftrightarrow>
    (\<forall>n \<in> set supported_bauds. line_speed tio n \<noteq> 0) \<and>
    (CS8 tio OR CREAD tio OR CLOCAL tio) AND (PARENB tio OR CSTOPB tio OR CRTSCTS tio) = 0 \<and>
    VMIN tio < NCCS \<and> VTIME tio < NCCS \<and>
    (\<forall>tty. length (c_cc (cfmakeraw tio tty)) = length (c_cc tty)) \<and>
    (\<forall>speed tty. cfsetispeed tio speed tty = tty\<lparr>c_ispeed := speed\<rparr>) \<and>
    (\<forall>speed tty. cfsetospeed tio speed tty = tty\<lparr>c_ospeed := speed\<rparr>)"

definition kernel_ok :: "kernel \<Rightarrow> bool" where
  "kernel_ok k \<longleftrightarrow> (\<forall>fd. length (c_cc (snd (getattr_result k fd))) = NCCS)"

section \<open>Opening a port\<close>

text \<open>0 is the hang-up speed, here "unsupported".\<close>

definition baud_constant :: "termios_api \<Rightarrow> u32 \<Rightarrow> u32" where
  "baud_constant tio baud =
    (if baud = 1200 then line_speed tio 1200
     else if baud = 2400 then line_speed tio 2400
     else if baud = 4800 then line_speed tio 4800
     else if baud = 9600 then line_speed tio 9600
     else if baud = 19200 then line_speed tio 19200
     else if baud = 38400 then line_speed tio 38400
     else if baud = 57600 then line_speed tio 57600
     else if baud = 115200 then line_speed tio 115200
     else 0)"

text \<open>Raw mode, eight data bits, no parity, one stop bit, no flow control, reads that never wait.\<close>

definition configure_8n1 :: "termios_api \<Rightarrow> u32 \<Rightarrow> termios \<Rightarrow> termios option" where
  "configure_8n1 tio speed tty = do {
     let tty = cfmakeraw tio tty;
     let tty = cfsetispeed tio speed tty;
     let tty = cfsetospeed tio speed tty;
     let tty = tty\<lparr>c_cflag := c_cflag tty AND NOT (PARENB tio OR CSTOPB tio OR CRTSCTS tio)\<rparr>;
     let tty = tty\<lparr>c_cflag := c_cflag tty OR (CS8 tio OR CREAD tio OR CLOCAL tio)\<rparr>;
     cc \<leftarrow> wr (c_cc tty) (VMIN tio) 0;
     cc \<leftarrow> wr cc (VTIME tio) 0;
     Some (tty\<lparr>c_cc := cc\<rparr>)
   }"

definition open_serial :: "termios_api \<Rightarrow> kernel \<Rightarrow> string \<Rightarrow> u32 \<Rightarrow> (sys_call list \<times> int) option" where
  "open_serial tio k dev bauds =
    (let speed = baud_constant tio bauds
     in if speed = 0 then Some ([Message (''unsupported baud rate '' @ show_u bauds @ nl)], -1)
     else
       let fd = open_result k dev; calls = [Open dev]
       in if fd < 0 then
         Some (calls @ [Message (''open('' @ dev @ ''): '' @ error_text k (Open dev) @ nl)], -1)
       else
         let (failed, tty) = getattr_result k fd; calls = calls @ [Getattr fd]
         in if failed \<noteq> 0 then
           Some (calls @ [Message (''tcgetattr('' @ dev @ ''): '' @ error_text k (Getattr fd) @ nl), Close fd], -1)
         else do {
           tty \<leftarrow> configure_8n1 tio speed tty;
           let calls = calls @ [Setattr fd tty];
           if setattr_result k fd tty \<noteq> 0 then
             Some (calls @ [Message (''tcsetattr('' @ dev @ ''): '' @ error_text k (Setattr fd tty) @ nl), Close fd], -1)
           else Some (calls @ [Flush fd], fd)
         })"

text \<open>The one of the monitoring example: 9600 baud, shorter messages, no flush.\<close>

definition poll_open_serial :: "termios_api \<Rightarrow> kernel \<Rightarrow> string \<Rightarrow> (sys_call list \<times> int) option" where
  "poll_open_serial tio k dev =
    (let fd = open_result k dev; calls = [Open dev]
     in if fd < 0 then
       Some (calls @ [Message (''open('' @ dev @ ''): '' @ error_text k (Open dev) @ nl)], -1)
     else
       let (failed, tty) = getattr_result k fd; calls = calls @ [Getattr fd]
       in if failed \<noteq> 0 then
         Some (calls @ [Message (''tcgetattr: '' @ error_text k (Getattr fd) @ nl), Close fd], -1)
       else do {
         tty \<leftarrow> configure_8n1 tio (line_speed tio 9600) tty;
         let calls = calls @ [Setattr fd tty];
         if setattr_result k fd tty \<noteq> 0 then
           Some (calls @ [Message (''tcsetattr: '' @ error_text k (Setattr fd tty) @ nl), Close fd], -1)
         else Some (calls, fd)
       })"

section \<open>Settings and descriptors\<close>

text \<open>What a port has to be set to.\<close>

definition set_8n1 :: "termios_api \<Rightarrow> u32 \<Rightarrow> termios \<Rightarrow> bool" where
  "set_8n1 tio speed tty \<longleftrightarrow>
    c_ispeed tty = speed \<and> c_ospeed tty = speed \<and>
    c_cflag tty AND (PARENB tio OR CSTOPB tio OR CRTSCTS tio) = 0 \<and>
    c_cflag tty AND (CS8 tio OR CREAD tio OR CLOCAL tio) = CS8 tio OR CREAD tio OR CLOCAL tio \<and>
    c_cc tty ! VMIN tio = 0 \<and> c_cc tty ! VTIME tio = 0"

lemma cleared_and_set:
  fixes x :: "'a::len word"
  assumes "s AND c = 0"
  shows "(x AND NOT c OR s) AND c = 0" and "(x AND NOT c OR s) AND s = s"
proof -
  have "bit s i \<longrightarrow> \<not> bit c i" for i using assms by (metis bit_0_eq bit_and_iff bot_apply bot_bool_def)
  then show "(x AND NOT c OR s) AND c = 0" "(x AND NOT c OR s) AND s = s"
    by (auto intro!: bit_word_eqI simp: bit_and_iff bit_or_iff bit_not_iff)
qed

lemma configure_8n1_sets:
  assumes "termios_ok tio" and "length (c_cc tty) = NCCS"
  shows "\<exists>t. configure_8n1 tio speed tty = Some t \<and> set_8n1 tio speed t"
proof -
  from assms(1) have "(CS8 tio OR CREAD tio OR CLOCAL tio) AND (PARENB tio OR CSTOPB tio OR CRTSCTS tio) = 0"
    by (simp add: termios_ok_def)
  from cleared_and_set [OF this, of "c_cflag (cfmakeraw tio tty)"] assms show ?thesis
    by (simp add: configure_8n1_def set_8n1_def termios_ok_def nth_list_update Let_def)
qed

lemma baud_constant_supported:
  assumes "termios_ok tio"
  shows "baud_constant tio b \<noteq> 0 \<longleftrightarrow> unat b \<in> set supported_bauds"
    and "baud_constant tio b \<noteq> 0 \<Longrightarrow> baud_constant tio b = line_speed tio (unat b)"
proof -
  have "b = 1200 \<longleftrightarrow> unat b = 1200" "b = 2400 \<longleftrightarrow> unat b = 2400" "b = 4800 \<longleftrightarrow> unat b = 4800"
    "b = 9600 \<longleftrightarrow> unat b = 9600" "b = 19200 \<longleftrightarrow> unat b = 19200" "b = 38400 \<longleftrightarrow> unat b = 38400"
    "b = 57600 \<longleftrightarrow> unat b = 57600" "b = 115200 \<longleftrightarrow> unat b = 115200"
    by (simp_all add: word_unat_eq_iff)
  then show "baud_constant tio b \<noteq> 0 \<longleftrightarrow> unat b \<in> set supported_bauds"
    and "baud_constant tio b \<noteq> 0 \<Longrightarrow> baud_constant tio b = line_speed tio (unat b)"
    using assms by (auto simp: baud_constant_def supported_bauds_def termios_ok_def)
qed

text \<open>The descriptors that calls leave open, given what \<open>open\<close> answers.\<close>

fun held :: "kernel \<Rightarrow> sys_call list \<Rightarrow> int list \<Rightarrow> int list" where
  "held k [] fds = fds"
| "held k (Open dev # cs) fds =
    held k cs (if open_result k dev < 0 then fds else open_result k dev # fds)"
| "held k (Close fd # cs) fds = held k cs (remove1 fd fds)"
| "held k (c # cs) fds = held k cs fds"

lemma held_append: "held k (cs @ ds) fds = held k ds (held k cs fds)"
  by (induction k cs fds rule: held.induct) simp_all

section \<open>Every way of opening a port\<close>

lemma open_serial_outcome:
  assumes "termios_ok tio" and "kernel_ok k"
  shows "\<exists>calls fd. open_serial tio k dev bauds = Some (calls, fd) \<and> calls \<noteq> [] \<and>
    held k calls [] = (if fd < 0 then [] else [fd]) \<and>
    (0 \<le> fd \<longrightarrow> (\<forall>text. Message text \<notin> set calls)) \<and>
    (0 \<le> fd \<longrightarrow> unat bauds \<in> set supported_bauds \<and> fd = open_result k dev \<and>
      (\<exists>before tty. calls = before @ [Setattr fd tty, Flush fd] \<and>
        set_8n1 tio (line_speed tio (unat bauds)) tty)) \<and>
    (fd < 0 \<longrightarrow> fd = -1 \<and> (\<exists>!text. Message text \<in> set calls))"
proof (cases "baud_constant tio bauds = 0")
  case True
  then show ?thesis by (simp add: open_serial_def)
next
  case False
  note speed = baud_constant_supported [OF assms(1), of bauds]
  let ?fd = "open_result k dev"
  obtain failed tty0 where attr: "getattr_result k ?fd = (failed, tty0)" by (cases "getattr_result k ?fd")
  with assms(2) have "length (c_cc tty0) = NCCS" unfolding kernel_ok_def by (metis snd_conv)
  from configure_8n1_sets [OF assms(1) this] obtain t where
    t: "configure_8n1 tio (baud_constant tio bauds) tty0 = Some t" "set_8n1 tio (baud_constant tio bauds) t"
    by blast
  show ?thesis using False speed t attr
    by (auto simp: open_serial_def Let_def)
qed


text \<open>The values of \<open>termios.h\<close> on Linux, and a kernel that hands out descriptor 3.\<close>

definition linux_speed :: "nat \<Rightarrow> u32" where
  "linux_speed n =
    (if n = 1200 then 9 else if n = 2400 then 11 else if n = 4800 then 12 else if n = 9600 then 13
     else if n = 19200 then 14 else if n = 38400 then 15 else if n = 57600 then 4097
     else if n = 115200 then 4098 else 0)"

definition linux_makeraw :: "termios \<Rightarrow> termios" where
  "linux_makeraw tty = tty\<lparr>c_iflag := c_iflag tty AND NOT 0x5EB, c_oflag := c_oflag tty AND NOT 1,
     c_lflag := c_lflag tty AND NOT 0x804B, c_cflag := c_cflag tty AND NOT 0x130 OR 0x30\<rparr>"

definition linux_termios :: termios_api where
  "linux_termios = \<lparr>line_speed = linux_speed, PARENB = 0x100, CSTOPB = 0x40, CRTSCTS = 0x80000000,
     CS8 = 0x30, CREAD = 0x80, CLOCAL = 0x800, VMIN = 6, VTIME = 5, cfmakeraw = linux_makeraw,
     cfsetispeed = (\<lambda>v tty. tty\<lparr>c_ispeed := v\<rparr>), cfsetospeed = (\<lambda>v tty. tty\<lparr>c_ospeed := v\<rparr>)\<rparr>"

definition sample_tty :: termios where
  "sample_tty = \<lparr>c_iflag = 0x500, c_oflag = 5, c_cflag = 0x800004BF, c_lflag = 0x8A3B,
     c_cc = replicate NCCS 1, c_ispeed = 15, c_ospeed = 15\<rparr>"

definition sample_kernel :: "int \<Rightarrow> kernel" where
  "sample_kernel refuse = \<lparr>open_result = (\<lambda>dev. 3), getattr_result = (\<lambda>fd. (0, sample_tty)),
     setattr_result = (\<lambda>fd tty. refuse), error_text = (\<lambda>c. ''Input/output error'')\<rparr>"

lemma linux_termios_ok: "termios_ok linux_termios"
  by (simp add: termios_ok_def linux_termios_def supported_bauds_def linux_speed_def linux_makeraw_def)

lemma sample_kernel_ok: "kernel_ok (sample_kernel refuse)"
  by (simp add: kernel_ok_def sample_kernel_def sample_tty_def)


text \<open>The same for the port of the monitoring example, which has one rate and does not flush.\<close>

lemma poll_open_serial_cleans_up:
  assumes "termios_ok tio" and "kernel_ok k"
  shows "\<exists>calls fd. poll_open_serial tio k dev = Some (calls, fd) \<and>
    (fd \<ge> 0 \<longrightarrow> fd = open_result k dev \<and> held k calls [] = [fd] \<and>
      (\<forall>text. Message text \<notin> set calls) \<and>
      (\<exists>before tty. calls = before @ [Setattr fd tty] \<and> set_8n1 tio (line_speed tio 9600) tty)) \<and>
    (fd < 0 \<longrightarrow> fd = -1 \<and> held k calls [] = [] \<and> (\<exists>!text. Message text \<in> set calls))"
proof -
  let ?fd = "open_result k dev"
  obtain failed tty0 where attr: "getattr_result k ?fd = (failed, tty0)" by (cases "getattr_result k ?fd")
  with assms(2) have "length (c_cc tty0) = NCCS" unfolding kernel_ok_def by (metis snd_conv)
  from configure_8n1_sets [OF assms(1) this] obtain t where
    "configure_8n1 tio (line_speed tio 9600) tty0 = Some t" "set_8n1 tio (line_speed tio 9600) t" by blast
  then show ?thesis using attr by (auto simp: poll_open_serial_def Let_def)
qed

end
