(* ===== verification/Printers.thy ===== *)
theory Printers
  imports Event Format
begin

text \<open>
  The payload printers of \<open>examples/dump_all.cpp\<close>: the enumerations of
  \<open>include/haidi_payloads.hpp\<close> and their names, the helpers that write text, bytes and continuation
  lines, one printer per payload, and \<open>print_payload\<close>, the chain over the checked accessors.

  A printer yields the text it writes, \<open>None\<close> where it would read outside an array; the formats
  are those of theory Format.  \<open>print_payload\<close> tells an event it printed from one it has no printer
  for and from undefined behaviour, a read out of bounds or of an inactive union member.
\<close>

section \<open>Enumerations\<close>

definition BATTERY_LFP :: u8 where [simp]: "BATTERY_LFP = 0"
definition BATTERY_TERNARY :: u8 where [simp]: "BATTERY_TERNARY = 1"
definition BATTERY_LTO :: u8 where [simp]: "BATTERY_LTO = 2"

definition RECORD_START_CHARGING :: u8 where [simp]: "RECORD_START_CHARGING = 1"
definition RECORD_END_CHARGING :: u8 where [simp]: "RECORD_END_CHARGING = 2"
definition RECORD_CELL_OVERVOLTAGE :: u8 where [simp]: "RECORD_CELL_OVERVOLTAGE = 3"
definition RECORD_CELL_UNDERVOLTAGE :: u8 where [simp]: "RECORD_CELL_UNDERVOLTAGE = 4"
definition RECORD_TOTAL_OVERVOLTAGE :: u8 where [simp]: "RECORD_TOTAL_OVERVOLTAGE = 5"
definition RECORD_TOTAL_UNDERVOLTAGE :: u8 where [simp]: "RECORD_TOTAL_UNDERVOLTAGE = 6"
definition RECORD_OVERTEMPERATURE :: u8 where [simp]: "RECORD_OVERTEMPERATURE = 7"
definition RECORD_UNDERTEMPERATURE :: u8 where [simp]: "RECORD_UNDERTEMPERATURE = 8"
definition RECORD_OVERCURRENT :: u8 where [simp]: "RECORD_OVERCURRENT = 9"

definition KEY_NONE :: u8 where [simp]: "KEY_NONE = 0x55"
definition KEY_DISCHARGE_AND_SLEEP :: u8 where [simp]: "KEY_DISCHARGE_AND_SLEEP = 0xA5"
definition KEY_DISCHARGE_NOT_SLEEP :: u8 where [simp]: "KEY_DISCHARGE_NOT_SLEEP = 0x5A"

definition INVERTER_NONE :: u8 where [simp]: "INVERTER_NONE = 0"
definition INVERTER_PYLON :: u8 where [simp]: "INVERTER_PYLON = 1"
definition INVERTER_GROWAT :: u8 where [simp]: "INVERTER_GROWAT = 2"
definition INVERTER_SOFAR :: u8 where [simp]: "INVERTER_SOFAR = 3"
definition INVERTER_VOLTRONICPOWER :: u8 where [simp]: "INVERTER_VOLTRONICPOWER = 4"
definition INVERTER_GOODWE :: u8 where [simp]: "INVERTER_GOODWE = 5"
definition INVERTER_SRNE :: u8 where [simp]: "INVERTER_SRNE = 6"
definition INVERTER_MUST :: u8 where [simp]: "INVERTER_MUST = 7"
definition INVERTER_VICTRONENERGY :: u8 where [simp]: "INVERTER_VICTRONENERGY = 8"

definition BUS_RS485 :: u8 where [simp]: "BUS_RS485 = 0"
definition BUS_CAN :: u8 where [simp]: "BUS_CAN = 1"

definition STATE_IDLE :: u8 where [simp]: "STATE_IDLE = 0"
definition STATE_CHARGING :: u8 where [simp]: "STATE_CHARGING = 1"
definition STATE_DISCHARGING :: u8 where [simp]: "STATE_DISCHARGING = 2"

section \<open>Names\<close>

definition battery_type_name :: "u8 \<Rightarrow> string" where
  "battery_type_name raw =
     (if raw = BATTERY_LFP then ''LFP''
      else if raw = BATTERY_TERNARY then ''ternary''
      else if raw = BATTERY_LTO then ''LTO''
      else ''reserved'')"

definition charge_state_name :: "u8 \<Rightarrow> string" where
  "charge_state_name raw =
     (if raw = STATE_IDLE then ''idle''
      else if raw = STATE_CHARGING then ''charging''
      else if raw = STATE_DISCHARGING then ''discharging''
      else ''reserved'')"

definition key_control_name :: "u8 \<Rightarrow> string" where
  "key_control_name raw =
     (if raw = KEY_NONE then ''controls nothing''
      else if raw = KEY_DISCHARGE_AND_SLEEP then ''discharge MOS and sleep''
      else if raw = KEY_DISCHARGE_NOT_SLEEP then ''discharge MOS, not sleep''
      else ''reserved'')"

definition inverter_type_name :: "u8 \<Rightarrow> string" where
  "inverter_type_name raw =
     (if raw = INVERTER_NONE then ''none''
      else if raw = INVERTER_PYLON then ''Pylontech''
      else if raw = INVERTER_GROWAT then ''Growatt''
      else if raw = INVERTER_SOFAR then ''Sofar''
      else if raw = INVERTER_VOLTRONICPOWER then ''Voltronic Power''
      else if raw = INVERTER_GOODWE then ''GoodWe''
      else if raw = INVERTER_SRNE then ''SRNE''
      else if raw = INVERTER_MUST then ''MUST''
      else if raw = INVERTER_VICTRONENERGY then ''Victron Energy''
      else ''reserved'')"

definition inverter_bus_name :: "u8 \<Rightarrow> string" where
  "inverter_bus_name raw =
     (if raw = BUS_RS485 then ''RS485''
      else if raw = BUS_CAN then ''CAN''
      else ''reserved'')"

definition fault_record_name :: "u8 \<Rightarrow> string" where
  "fault_record_name raw =
     (if raw = RECORD_START_CHARGING then ''charging started''
      else if raw = RECORD_END_CHARGING then ''charging ended''
      else if raw = RECORD_CELL_OVERVOLTAGE then ''cell overvoltage''
      else if raw = RECORD_CELL_UNDERVOLTAGE then ''cell undervoltage''
      else if raw = RECORD_TOTAL_OVERVOLTAGE then ''pack overvoltage''
      else if raw = RECORD_TOTAL_UNDERVOLTAGE then ''pack undervoltage''
      else if raw = RECORD_OVERTEMPERATURE then ''overtemperature''
      else if raw = RECORD_UNDERTEMPERATURE then ''undertemperature''
      else if raw = RECORD_OVERCURRENT then ''overcurrent''
      else ''reserved'')"

definition alarm_class_name :: "alarm_class \<Rightarrow> string" where
  "alarm_class_name cls =
     (if cls = CLASS_CELL_OVERVOLTAGE then ''cell overvoltage''
      else if cls = CLASS_CELL_UNDERVOLTAGE then ''cell undervoltage''
      else if cls = CLASS_CURRENT then ''overcurrent''
      else if cls = CLASS_HIGH_TEMPERATURE then ''high temperature''
      else if cls = CLASS_LOW_TEMPERATURE then ''low temperature''
      else if cls = CLASS_TOTAL_OVERVOLTAGE then ''pack overvoltage''
      else if cls = CLASS_TOTAL_UNDERVOLTAGE then ''pack undervoltage''
      else if cls = CLASS_VOLTAGE_DIFFERENCE then ''voltage difference''
      else if cls = CLASS_TEMPERATURE_DIFFERENCE then ''temp difference''
      else ''?'')"

definition FAULT_BITS :: "string option list list" where
  "FAULT_BITS =
     [[Some ''cell overvoltage L1'',
       Some ''cell overvoltage L2'',
       Some ''cell undervoltage L1'',
       Some ''cell undervoltage L2'',
       Some ''pack overvoltage L1'',
       Some ''pack overvoltage L2'',
       Some ''pack undervoltage L1'',
       Some ''pack undervoltage L2''],
      [Some ''charge overtemperature L1'',
       Some ''charge overtemperature L2'',
       Some ''charge undertemperature L1'',
       Some ''charge undertemperature L2'',
       Some ''discharge overtemperature L1'',
       Some ''discharge overtemperature L2'',
       Some ''discharge undertemperature L1'',
       Some ''discharge undertemperature L2''],
      [Some ''charge overcurrent L1'',
       Some ''charge overcurrent L2'',
       Some ''discharge overcurrent L1'',
       Some ''discharge overcurrent L2'',
       Some ''SOC high L1'',
       Some ''SOC high L2'',
       Some ''SOC low L1'',
       Some ''SOC low L2''],
      [Some ''voltage difference L1'',
       Some ''voltage difference L2'',
       Some ''temperature difference L1'',
       Some ''temperature difference L2'',
       None,
       None,
       None,
       None],
      [Some ''charge MOS overtemperature'',
       Some ''discharge MOS overtemperature'',
       Some ''charge MOS sensor fault'',
       Some ''discharge MOS sensor fault'',
       Some ''charge MOS adhesion fault'',
       Some ''discharge MOS adhesion fault'',
       Some ''charge MOS open circuit'',
       Some ''discharge MOS open circuit''],
      [Some ''AFE acquisition chip fault'',
       Some ''cell acquisition dropout'',
       Some ''cell temperature sensor fault'',
       Some ''EEPROM storage fault'',
       Some ''RTC clock fault'',
       Some ''pre-charge failure'',
       Some ''vehicle comms fault'',
       Some ''internal network module fault''],
      [Some ''current module fault'',
       Some ''internal total voltage detection fault'',
       Some ''short circuit protection'',
       Some ''low voltage disables charging'',
       Some ''GPS or soft switch disconnected MOS'',
       None,
       None,
       None]]"

section \<open>Helpers\<close>

text \<open>\<open>CONT\<close> is the prefix of a line as spaces.\<close>

definition CONT :: string where
  "CONT = replicate 37 CHR '' ''"

function trimmed_len :: "u8 list \<Rightarrow> nat \<Rightarrow> nat option" where
  "trimmed_len text n =
    (if n > 0 then
       do {
         c \<leftarrow> rd text (n - 1);
         if c \<noteq> 0 \<and> c \<noteq> 0xFF \<and> c \<noteq> 0x20 then Some n else trimmed_len text (n - 1)
       }
     else Some n)"
  by pat_completeness auto
termination by (relation "measure snd") auto

declare trimmed_len.simps [simp del]

text \<open>\<open>isprint\<close> in the C locale.\<close>

definition isprint :: "u8 \<Rightarrow> bool" where
  "isprint c \<longleftrightarrow> 0x20 \<le> c \<and> c \<le> 0x7E"

definition ascii_char :: "u8 \<Rightarrow> char" where
  "ascii_char c = (if isprint c then char_of (unat c) else CHR ''.'')"

definition print_ascii :: "u8 list \<Rightarrow> nat \<Rightarrow> string option" where
  "print_ascii text n = do {
     n \<leftarrow> trimmed_len text n;
     if n = 0 then Some ''(empty)''
     else do {
       t \<leftarrow> for_loop [0..<n] (\<lambda>i t. do { c \<leftarrow> rd text i; Some (t @ [ascii_char c]) }) [];
       Some ([CHR 0x22] @ t @ [CHR 0x22])
     }
   }"

definition print_hex :: "u8 list \<Rightarrow> string option" where
  "print_hex d =
    for_loop [0..<length d]
      (\<lambda>i t. do { b \<leftarrow> rd d i; Some (t @ (if i = 0 then [] else '' '') @ show_hex b) }) []"

definition on_off :: "bool \<Rightarrow> string" where
  "on_off on = (if on then ''on'' else ''off'')"

definition yes_no :: "bool \<Rightarrow> string" where
  "yes_no yes = (if yes then ''yes'' else ''no'')"

text \<open>The unit of an alarm value follows its class.\<close>

definition print_alarm_value :: "alarm_class \<Rightarrow> u16 \<Rightarrow> string" where
  "print_alarm_value cls v =
    (if cls = CLASS_TOTAL_OVERVOLTAGE \<or> cls = CLASS_TOTAL_UNDERVOLTAGE then show_fixed 1 (uint v) 10 @ '' V''
     else if cls = CLASS_TEMPERATURE_DIFFERENCE then show_u v @ '' C''
     else show_u v @ '' mV'')"

section \<open>Payloads of several lines\<close>

definition scan_voltage :: "u16 list \<Rightarrow> nat \<Rightarrow> u32 \<times> u16 \<times> u16 \<times> u8 \<times> u8 \<Rightarrow>
    (u32 \<times> u16 \<times> u16 \<times> u8 \<times> u8) option" where
  "scan_voltage xs i = (\<lambda>(total, lo, hi, lo_at, hi_at). do {
     v \<leftarrow> rd xs i;
     let total = total + ucast v;
     let (lo, lo_at) = (if v < lo then (v, word_of_nat (i + 1)) else (lo, lo_at));
     let (hi, hi_at) = (if v > hi then (v, word_of_nat (i + 1)) else (hi, hi_at));
     Some (total, lo, hi, lo_at, hi_at)
   })"

definition print_cell_voltages :: "cell_voltages \<Rightarrow> string option" where
  "print_cell_voltages p =
    (let n = cell_voltages.count p; xs = cell_voltages.mv p in
     if n = 0 then Some (''no cells reported'' @ nl)
     else do {
       v0 \<leftarrow> rd xs 0;
       (total, lo, hi, lo_at, hi_at) \<leftarrow> for_loop [0..<unat n] (scan_voltage xs) (0, v0, v0, 1, 1);
       let heading = show_u n @ '' cells, min '' @ show_u lo @ '' mV (#'' @ show_u lo_at @ ''), max '' @
         show_u hi @ '' mV (#'' @ show_u hi_at @ ''), spread '' @ show_u (ucast hi - ucast lo :: u32) @
         '' mV, mean '' @ show_u (total div ucast n) @ '' mV'' @ nl;
       for_loop [0..<unat n] (\<lambda>i t. do {
         v \<leftarrow> rd xs i;
         Some (t @ (if i mod 6 = 0 then CONT else []) @
           ''#'' @ pad_right 2 (show_size (i + 1)) @ '' '' @ pad_left 5 CHR '' '' (show_u v) @ '' mV'' @
           (if i mod 6 = 5 \<or> i + 1 = unat n then nl else ''  ''))
       }) heading
     })"

definition scan_temperature :: "i16 list \<Rightarrow> nat \<Rightarrow> i16 \<times> i16 \<Rightarrow> (i16 \<times> i16) option" where
  "scan_temperature xs i = (\<lambda>(lo, hi). do {
     v \<leftarrow> rd xs i;
     Some (if sint v < sint lo then v else lo, if sint v > sint hi then v else hi)
   })"

definition print_cell_temperatures :: "cell_temperatures \<Rightarrow> string option" where
  "print_cell_temperatures p =
    (let n = cell_temperatures.count p; xs = cell_temperatures.celsius p in
     if n = 0 then Some (''no sensors reported'' @ nl)
     else do {
       v0 \<leftarrow> rd xs 0;
       (lo, hi) \<leftarrow> for_loop [0..<unat n] (scan_temperature xs) (v0, v0);
       let heading = show_u n @ '' sensors, min '' @ show_d lo @ '' C, max '' @ show_d hi @ '' C'' @ nl;
       for_loop [0..<unat n] (\<lambda>i t. do {
         v \<leftarrow> rd xs i;
         Some (t @ (if i mod 6 = 0 then CONT else []) @
           ''#'' @ pad_right 2 (show_size (i + 1)) @ '' '' @ pad_left 4 CHR '' '' (show_d v) @ '' C'' @
           (if i mod 6 = 5 \<or> i + 1 = unat n then nl else ''   ''))
       }) heading
     })"

definition count_faults :: "fault_status \<Rightarrow> u32 option" where
  "count_faults p =
    for_loop [0..<7] (\<lambda>byte. for_loop [0..<8] (\<lambda>bit_index n. do {
      f \<leftarrow> fault p byte bit_index;
      Some (n + (if f then 1 else 0))
    })) 0"

definition list_fault :: "fault_status \<Rightarrow> nat \<Rightarrow> nat \<Rightarrow> string \<Rightarrow> string option" where
  "list_fault p byte bit_index t = do {
     f \<leftarrow> fault p byte bit_index;
     if \<not> f then Some t
     else do {
       row \<leftarrow> rd FAULT_BITS byte;
       name \<leftarrow> rd row bit_index;
       Some (t @ CONT @ (case name of
           Some n \<Rightarrow> ''! '' @ n @ nl
         | None \<Rightarrow> ''! byte'' @ show_size byte @ '' bit'' @ show_size bit_index @ '' (reserved by the document)'' @ nl))
     }
   }"

definition print_fault_status :: "fault_status \<Rightarrow> string option" where
  "print_fault_status p = do {
     active \<leftarrow> count_faults p;
     raw \<leftarrow> print_hex (fault_status.bits p);
     if active = 0 \<and> fault_status_code p = 0 then Some (''none  (raw '' @ raw @ '')'' @ nl)
     else do {
       t \<leftarrow> for_loop [0..<7] (\<lambda>byte. for_loop [0..<8] (list_fault p byte))
         (show_u active @ '' active  (raw '' @ raw @ '')'' @ nl);
       Some (t @ (if fault_status_code p \<noteq> 0
                  then CONT @ ''! fault code '' @ show_u (fault_status_code p) @ nl else []))
     }
   }"

definition print_balancing_bits :: "cell_balancing_bits \<Rightarrow> string option" where
  "print_balancing_bits p = do {
     n \<leftarrow> for_loop [0..<MAX_CELLS] (\<lambda>cell n. do {
       b \<leftarrow> cell_balancing p cell;
       Some (n + (if b then 1 else 0))
     }) (0 :: u32);
     raw \<leftarrow> print_hex (cell_balancing_bits.bits p);
     if n = 0 then Some (''no cell balancing  (raw '' @ raw @ '')'' @ nl)
     else do {
       t \<leftarrow> for_loop [0..<MAX_CELLS] (\<lambda>cell t. do {
         b \<leftarrow> cell_balancing p cell;
         Some (if b then t @ '' #'' @ show_size (cell + 1) else t)
       }) (show_u n @ '' balancing:'');
       Some (t @ ''  (raw '' @ raw @ '')'' @ nl)
     }
   }"

definition print_fault_record :: "fault_record \<Rightarrow> u32 \<Rightarrow> string" where
  "print_fault_record p ordinal =
    ''record '' @ show_u ordinal @ '': '' @ show_u0 4 (fault_record.year p) @ ''-'' @
    show_u0 2 (fault_record.month p) @ ''-'' @ show_u0 2 (fault_record.day p) @ '' '' @
    show_u0 2 (fault_record.hour p) @ '':'' @ show_u0 2 (fault_record.minute p) @ '':'' @
    show_u0 2 (fault_record.second p) @ ''  '' @ fault_record_name (fault_record.record_id p) @ '' ('' @
    (if fault_record.occurred p then ''occurred'' else ''cleared'') @ '')'' @ nl @
    CONT @ ''  pack '' @ show_fixed 1 (uint (fault_record.total_voltage_dv p)) 10 @ '' V, '' @
    show_fixed 1 (sint (fault_record.current_da p)) 10 @ '' A, SOC '' @
    show_fixed 1 (uint (fault_record.soc_pm p)) 10 @ '' %, chg MOS '' @
    on_off (fault_record.charge_mos_on p) @ '', dsg MOS '' @ on_off (fault_record.discharge_mos_on p) @ nl @
    CONT @ ''  cells '' @ show_u (fault_record.lowest_cell_mv p) @ '' mV (#'' @
    show_u (fault_record.lowest_cell_number p) @ '') .. '' @ show_u (fault_record.highest_cell_mv p) @
    '' mV (#'' @ show_u (fault_record.highest_cell_number p) @ ''), temps '' @
    show_d (fault_record.lowest_temp_c p) @ '' C (#'' @ show_u (fault_record.lowest_temp_number p) @ '') .. '' @
    show_d (fault_record.highest_temp_c p) @ '' C (#'' @ show_u (fault_record.highest_temp_number p) @ '')'' @ nl @
    CONT @ ''  fault code '' @ show_u (fault_record.fault_code p) @ '', record checksum '' @
    (if fault_record.checksum_ok p then ''ok'' else ''MISMATCH'') @ nl"

section \<open>One printer per payload\<close>

text \<open>The branches of \<open>print_payload\<close>.\<close>

definition print_capacity_voltage :: "capacity_voltage \<Rightarrow> string" where
  "print_capacity_voltage p =
    show_u (capacity_voltage.capacity_mah p) @ '' mAh ('' @
    show_fixed 1 (uint (capacity_voltage.capacity_mah p)) 1000 @ '' Ah), '' @
    show_u (capacity_voltage.voltage_mv p) @ '' mV ('' @
    show_fixed 2 (uint (capacity_voltage.voltage_mv p)) 1000 @ '' V)'' @ nl"

definition print_bmu_cell_temp_count :: "bmu_cell_temp_count \<Rightarrow> string option" where
  "print_bmu_cell_temp_count p = do {
     c0 \<leftarrow> rd (bmu_cell_temp_count.cell_count p) 0;
     c1 \<leftarrow> rd (bmu_cell_temp_count.cell_count p) 1;
     c2 \<leftarrow> rd (bmu_cell_temp_count.cell_count p) 2;
     t0 \<leftarrow> rd (bmu_cell_temp_count.temp_count p) 0;
     t1 \<leftarrow> rd (bmu_cell_temp_count.temp_count p) 1;
     t2 \<leftarrow> rd (bmu_cell_temp_count.temp_count p) 2;
     Some (show_u (bmu_cell_temp_count.board_count p) @ '' board(s), cells '' @
       show_u c0 @ ''/'' @ show_u c1 @ ''/'' @ show_u c2 @ '', sensors '' @
       show_u t0 @ ''/'' @ show_u t1 @ ''/'' @ show_u t2 @ nl)
   }"

definition print_total_charge_discharge_ah :: "total_charge_discharge_ah \<Rightarrow> string" where
  "print_total_charge_discharge_ah p =
    ''charged '' @ show_u (total_charge_discharge_ah.charge_ah p) @ '' Ah, discharged '' @
    show_u (total_charge_discharge_ah.discharge_ah p) @ '' Ah'' @ nl"

definition print_battery_operation_mode :: "battery_operation_mode \<Rightarrow> string" where
  "print_battery_operation_mode p =
    battery_type_name (battery_operation_mode.battery_type p) @ '', '' @
    (if battery_operation_mode.operation_mode p = 0x02 then ''short-press'' else ''long-press'') @
    '' power key, built '' @ show_u0 4 (battery_operation_mode.year p) @ ''-'' @
    show_u0 2 (battery_operation_mode.month p) @ ''-'' @ show_u0 2 (battery_operation_mode.day p) @
    '', auto sleep '' @ show_u (battery_operation_mode.auto_sleep_s p) @ '' s, zero drift '' @
    show_fixed 1 (uint (battery_operation_mode.zero_drift_current_da p)) 10 @ '' A'' @ nl"

definition print_firmware_index :: "firmware_index \<Rightarrow> string option" where
  "print_firmware_index p = do {
     t \<leftarrow> print_ascii (firmware_index.text_bytes p) (length (firmware_index.text_bytes p));
     Some (t @ nl)
   }"

definition print_text :: "text_payload \<Rightarrow> string option" where
  "print_text p = do {
     t \<leftarrow> print_ascii (text_payload.text_bytes p) (text_size p);
     Some (t @ ''  ('' @ show_size (text_size p) @ '' bytes)'' @ nl)
   }"

definition print_version :: "version_payload \<Rightarrow> string option" where
  "print_version p = do {
     t \<leftarrow> print_ascii (version_payload.text_bytes p) (version_size p);
     Some (t @ ''  ('' @ show_size (version_size p) @ '' bytes)'' @ nl)
   }"

definition print_date_time :: "rtc \<Rightarrow> string" where
  "print_date_time p =
    show_u0 4 (rtc.year p) @ ''-'' @ show_u0 2 (rtc.month p) @ ''-'' @ show_u0 2 (rtc.day p) @ '' '' @
    show_u0 2 (rtc.hour p) @ '':'' @ show_u0 2 (rtc.minute p) @ '':'' @ show_u0 2 (rtc.second p)"

definition print_production_date :: "rtc \<Rightarrow> string" where
  "print_production_date p = print_date_time p @ ''  (layout assumed from 0x61)'' @ nl"

definition print_rtc :: "rtc \<Rightarrow> string" where
  "print_rtc p = print_date_time p @ nl"

definition print_cell_voltage_alarm :: "cell_voltage_alarm \<Rightarrow> string" where
  "print_cell_voltage_alarm p =
    ''over '' @ show_u (cell_voltage_alarm.overvoltage_l1_mv p) @ '' / '' @
    show_u (cell_voltage_alarm.overvoltage_l2_mv p) @ '' mV, under '' @
    show_u (cell_voltage_alarm.undervoltage_l1_mv p) @ '' / '' @
    show_u (cell_voltage_alarm.undervoltage_l2_mv p) @ '' mV  (L1 / L2)'' @ nl"

definition print_total_voltage_alarm :: "total_voltage_alarm \<Rightarrow> string" where
  "print_total_voltage_alarm p =
    ''over '' @ show_fixed 1 (uint (total_voltage_alarm.overvoltage_l1_dv p)) 10 @ '' / '' @
    show_fixed 1 (uint (total_voltage_alarm.overvoltage_l2_dv p)) 10 @ '' V, under '' @
    show_fixed 1 (uint (total_voltage_alarm.undervoltage_l1_dv p)) 10 @ '' / '' @
    show_fixed 1 (uint (total_voltage_alarm.undervoltage_l2_dv p)) 10 @ '' V  (L1 / L2)'' @ nl"

definition print_current_alarm :: "current_alarm \<Rightarrow> string" where
  "print_current_alarm p =
    ''charge '' @ show_fixed 1 (sint (current_alarm.charge_overcurrent_l1_da p)) 10 @ '' / '' @
    show_fixed 1 (sint (current_alarm.charge_overcurrent_l2_da p)) 10 @ '' A, discharge '' @
    show_fixed 1 (sint (current_alarm.discharge_overcurrent_l1_da p)) 10 @ '' / '' @
    show_fixed 1 (sint (current_alarm.discharge_overcurrent_l2_da p)) 10 @ '' A  (L1 / L2)'' @ nl"

definition print_temperature_alarm :: "temperature_alarm \<Rightarrow> string" where
  "print_temperature_alarm p =
    ''charge   over '' @ show_d (temperature_alarm.charge_over_l1_c p) @ '' / '' @
    show_d (temperature_alarm.charge_over_l2_c p) @ '' C, under '' @
    show_d (temperature_alarm.charge_under_l1_c p) @ '' / '' @
    show_d (temperature_alarm.charge_under_l2_c p) @ '' C  (L1 / L2)'' @ nl @
    CONT @ ''discharge over '' @ show_d (temperature_alarm.discharge_over_l1_c p) @ '' / '' @
    show_d (temperature_alarm.discharge_over_l2_c p) @ '' C, under '' @
    show_d (temperature_alarm.discharge_under_l1_c p) @ '' / '' @
    show_d (temperature_alarm.discharge_under_l2_c p) @ '' C  (L1 / L2)'' @ nl"

definition print_soc_alarm :: "soc_alarm \<Rightarrow> string" where
  "print_soc_alarm p =
    ''high '' @ show_fixed 1 (uint (soc_alarm.over_l1_pm p)) 10 @ '' / '' @
    show_fixed 1 (uint (soc_alarm.over_l2_pm p)) 10 @ '' %, low '' @
    show_fixed 1 (uint (soc_alarm.under_l1_pm p)) 10 @ '' / '' @
    show_fixed 1 (uint (soc_alarm.under_l2_pm p)) 10 @ '' %  (L1 / L2)'' @ nl"

definition print_difference_alarm :: "difference_alarm \<Rightarrow> string" where
  "print_difference_alarm p =
    ''voltage '' @ show_u (difference_alarm.voltage_diff_l1_mv p) @ '' / '' @
    show_u (difference_alarm.voltage_diff_l2_mv p) @ '' mV, temperature '' @
    show_u (difference_alarm.temp_diff_l1_c p) @ '' / '' @
    show_u (difference_alarm.temp_diff_l2_c p) @ '' C  (L1 / L2)'' @ nl"

definition print_balancing_params :: "balancing_params \<Rightarrow> string" where
  "print_balancing_params p =
    ''start above '' @ show_u (balancing_params.start_voltage_mv p) @ '' mV, start on '' @
    show_u (balancing_params.start_difference_mv p) @ '' mV spread'' @ nl"

definition print_current_params :: "current_params \<Rightarrow> string" where
  "print_current_params p =
    ''alarm current '' @ show_u (current_params.alarm_current_a p) @ '' A, shunt '' @
    show_u (current_params.sense_resistor_uohm p) @ '' uOhm'' @ nl"

definition print_board_number :: "board_number \<Rightarrow> string" where
  "print_board_number p =
    ''board '' @ show_u (board_number.board_number p) @ '' of '' @
    show_u (board_number.bmu_count p) @ '' BMU(s)'' @ nl"

definition print_heating_temperature :: "heating_temperature \<Rightarrow> string" where
  "print_heating_temperature p =
    ''heater below '' @ show_d (heating_temperature.heating_start_c p) @ '' C, fan above '' @
    show_d (heating_temperature.fan_start_c p) @ '' C, key '' @
    key_control_name (heating_temperature.key_control_mos p) @ nl"

definition print_active_balancing_switch :: "active_balancing_switch \<Rightarrow> string" where
  "print_active_balancing_switch p = on_off (active_balancing_switch.enabled p) @ nl"

definition print_active_balancing_params :: "active_balancing_params \<Rightarrow> string" where
  "print_active_balancing_params p =
    show_u (active_balancing_params.series_count p) @ '' cells in series, '' @
    show_fixed 1 (uint (active_balancing_params.balancing_current_da p)) 10 @ '' A balancing current'' @ nl"

definition print_inverter_params :: "inverter_params \<Rightarrow> string" where
  "print_inverter_params p =
    inverter_type_name (inverter_params.inverter_type p) @ '' over '' @
    inverter_bus_name (inverter_params.comm_type p) @ nl"

definition print_current_alarm_threshold :: "current_alarm_threshold \<Rightarrow> string" where
  "print_current_alarm_threshold p =
    ''charge '' @ show_fixed 1 (sint (current_alarm_threshold.charge_overcurrent_da p)) 10 @ '' A after '' @
    show_fixed 2 (uint (current_alarm_threshold.charge_delay_cs p)) 100 @ '' s, discharge '' @
    show_fixed 1 (sint (current_alarm_threshold.discharge_overcurrent_da p)) 10 @ '' A after '' @
    show_fixed 2 (uint (current_alarm_threshold.discharge_delay_cs p)) 100 @ '' s'' @ nl"

definition print_temp_alarm_threshold :: "temp_alarm_threshold \<Rightarrow> string" where
  "print_temp_alarm_threshold p =
    ''charge    trip '' @ show_d (temp_alarm_threshold.charge_alarm_c p) @ '' C after '' @
    show_fixed 1 (uint (temp_alarm_threshold.charge_delay_ds p)) 10 @ '' s, recover '' @
    show_d (temp_alarm_threshold.charge_recovery_c p) @ '' C after '' @
    show_fixed 1 (uint (temp_alarm_threshold.charge_recovery_delay_ds p)) 10 @ '' s'' @ nl @
    CONT @ ''discharge trip '' @ show_d (temp_alarm_threshold.discharge_alarm_c p) @ '' C after '' @
    show_fixed 1 (uint (temp_alarm_threshold.discharge_delay_ds p)) 10 @ '' s, recover '' @
    show_d (temp_alarm_threshold.discharge_recovery_c p) @ '' C after '' @
    show_fixed 1 (uint (temp_alarm_threshold.discharge_recovery_delay_ds p)) 10 @ '' s'' @ nl"

definition print_alarm_threshold :: "alarm_class \<Rightarrow> alarm_threshold \<Rightarrow> string" where
  "print_alarm_threshold cls p =
    ''trip '' @ print_alarm_value cls (alarm_threshold.alarm_value p) @ '' after '' @
    show_fixed 2 (uint (alarm_threshold.delay_cs p)) 100 @ '' s, recover '' @
    print_alarm_value cls (alarm_threshold.recovery_value p) @ '' after '' @
    show_fixed 2 (uint (alarm_threshold.recovery_delay_cs p)) 100 @ '' s'' @ nl"

definition print_total_voltage_current_soc :: "total_voltage_current_soc \<Rightarrow> string" where
  "print_total_voltage_current_soc p =
    show_fixed 1 (uint (total_voltage_current_soc.cumulative_voltage_dv p)) 10 @ '' V cumulative, '' @
    show_fixed 1 (uint (total_voltage_current_soc.measured_voltage_dv p)) 10 @ '' V measured, '' @
    show_fixed 1 (sint (total_voltage_current_soc.current_da p)) 10 @ '' A, SOC '' @
    show_fixed 1 (uint (total_voltage_current_soc.soc_pm p)) 10 @ '' %'' @ nl"

text \<open>The spread is computed in \<open>int\<close>, so it prints as negative when the reply has it so.\<close>

definition print_cell_voltage_extremes :: "cell_voltage_extremes \<Rightarrow> string" where
  "print_cell_voltage_extremes p =
    ''high '' @ show_u (cell_voltage_extremes.highest_mv p) @ '' mV (#'' @
    show_u (cell_voltage_extremes.highest_cell_number p) @ ''), low '' @
    show_u (cell_voltage_extremes.lowest_mv p) @ '' mV (#'' @
    show_u (cell_voltage_extremes.lowest_cell_number p) @ ''), spread '' @
    show_int (uint (cell_voltage_extremes.highest_mv p) - uint (cell_voltage_extremes.lowest_mv p)) @
    '' mV'' @ nl"

definition print_cell_temperature_extremes :: "cell_temperature_extremes \<Rightarrow> string" where
  "print_cell_temperature_extremes p =
    ''high '' @ show_d (cell_temperature_extremes.highest_c p) @ '' C (#'' @
    show_u (cell_temperature_extremes.highest_cell_number p) @ ''), low '' @
    show_d (cell_temperature_extremes.lowest_c p) @ '' C (#'' @
    show_u (cell_temperature_extremes.lowest_cell_number p) @ '')'' @ nl"

definition print_charge_discharge_mos :: "charge_discharge_mos_status \<Rightarrow> string" where
  "print_charge_discharge_mos p =
    charge_state_name (charge_discharge_mos_status.mos_state p) @ '', chg MOS '' @
    on_off (charge_discharge_mos_status.charge_mos_state p \<noteq> 0) @ '', dsg MOS '' @
    on_off (charge_discharge_mos_status.discharge_mos_state p \<noteq> 0) @ '', '' @
    show_u (charge_discharge_mos_status.remaining_capacity_mah p) @ '' mAh remaining, life '' @
    show_u (charge_discharge_mos_status.bms_life p) @ nl"

definition io_bit :: "status_info \<Rightarrow> nat \<Rightarrow> string" where
  "io_bit p k = show_u (drop_bit k (ucast (status_info.io_bits p)) AND 1 :: u32)"

definition print_status_info :: "status_info \<Rightarrow> string" where
  "print_status_info p =
    show_u (status_info.series_count p) @ '' cells, '' @
    show_u (status_info.temp_sensor_count p) @ '' sensors, charger '' @
    yes_no (status_info.charger_connected p) @ '', load '' @
    yes_no (status_info.load_connected p) @ '', '' @
    show_u (status_info.cycle_count p) @ '' cycles, board '' @
    show_d (status_info.onboard_temp_c p) @ '' C'' @ nl @
    CONT @ ''DI1-4 '' @ io_bit p 0 @ io_bit p 1 @ io_bit p 2 @ io_bit p 3 @ '', DO1-4 '' @
    io_bit p 4 @ io_bit p 5 @ io_bit p 6 @ io_bit p 7 @ nl"

definition print_balancing_state :: "balancing_state \<Rightarrow> string" where
  "print_balancing_state p =
    on_off (balancing_state.enabled p) @ '', '' @
    show_fixed 1 (sint (balancing_state.current_da p)) 10 @ '' A, position '' @
    show_u (balancing_state.position p) @ nl"

definition print_battery_status :: "battery_status \<Rightarrow> string" where
  "print_battery_status p = ''SOH '' @ show_fixed 1 (uint (battery_status.soh_pm p)) 10 @ '' %'' @ nl"

definition print_wakeup_source :: "wakeup_source \<Rightarrow> string" where
  "print_wakeup_source p =
    ''key '' @ yes_no (wakeup_source.key_signal p) @ '', button '' @
    yes_no (wakeup_source.button_signal p) @ '', 485 '' @
    yes_no (wakeup_source.rs485_signal p) @ '', CAN '' @
    yes_no (wakeup_source.can_signal p) @ '', charge/discharge current '' @
    yes_no (wakeup_source.charge_discharge_current p) @ nl"

definition print_mos_control_ack :: "mos_control_ack \<Rightarrow> string" where
  "print_mos_control_ack p =
    ''requested '' @ on_off (mos_control_ack.requested_on p) @ '', device reports '' @
    on_off (mos_control_ack.reported_on p) @ nl"

section \<open>The chain\<close>

datatype printed = Printed string | No_printer | Undefined

text \<open>\<open>if (const T* p = as_...(event)) { ... } else ...\<close>\<close>

definition print_via :: "'a access \<Rightarrow> ('a \<Rightarrow> string option) \<Rightarrow> printed \<Rightarrow> printed" where
  "print_via a printer otherwise =
    (case a of
       Nullptr \<Rightarrow> otherwise
     | Ptr p \<Rightarrow> (case printer p of None \<Rightarrow> Undefined | Some t \<Rightarrow> Printed t)
     | Inactive_member \<Rightarrow> Undefined)"

definition print_payload :: "event \<Rightarrow> u32 \<Rightarrow> printed" where
  "print_payload e ordinal =
    (print_via (as_capacity_voltage e) (Some \<circ> print_capacity_voltage) \<circ>
     print_via (as_bmu_cell_temp_count e) print_bmu_cell_temp_count \<circ>
     print_via (as_total_charge_discharge_ah e) (Some \<circ> print_total_charge_discharge_ah) \<circ>
     print_via (as_battery_operation_mode e) (Some \<circ> print_battery_operation_mode) \<circ>
     print_via (as_firmware_index e) print_firmware_index \<circ>
     print_via (as_text e) print_text \<circ>
     print_via (as_version e) print_version \<circ>
     print_via (as_battery_production_date e) (Some \<circ> print_production_date) \<circ>
     print_via (as_cell_voltage_alarm e) (Some \<circ> print_cell_voltage_alarm) \<circ>
     print_via (as_total_voltage_alarm e) (Some \<circ> print_total_voltage_alarm) \<circ>
     print_via (as_current_alarm e) (Some \<circ> print_current_alarm) \<circ>
     print_via (as_temperature_alarm e) (Some \<circ> print_temperature_alarm) \<circ>
     print_via (as_soc_alarm e) (Some \<circ> print_soc_alarm) \<circ>
     print_via (as_difference_alarm e) (Some \<circ> print_difference_alarm) \<circ>
     print_via (as_balancing_params e) (Some \<circ> print_balancing_params) \<circ>
     print_via (as_current_params e) (Some \<circ> print_current_params) \<circ>
     print_via (as_rtc e) (Some \<circ> print_rtc) \<circ>
     print_via (as_fault_record e) (\<lambda>p. Some (print_fault_record p ordinal)) \<circ>
     print_via (as_board_number e) (Some \<circ> print_board_number) \<circ>
     print_via (as_heating_temperature e) (Some \<circ> print_heating_temperature) \<circ>
     print_via (as_active_balancing_switch e) (Some \<circ> print_active_balancing_switch) \<circ>
     print_via (as_active_balancing_params e) (Some \<circ> print_active_balancing_params) \<circ>
     print_via (as_inverter_params e) (Some \<circ> print_inverter_params) \<circ>
     print_via (as_current_alarm_threshold e) (Some \<circ> print_current_alarm_threshold) \<circ>
     print_via (as_temp_alarm_threshold e) (Some \<circ> print_temp_alarm_threshold) \<circ>
     print_via (as_alarm_threshold e) (Some \<circ> print_alarm_threshold (alarm_class_of (event_id e))) \<circ>
     print_via (as_total_voltage_current_soc e) (Some \<circ> print_total_voltage_current_soc) \<circ>
     print_via (as_cell_voltage_extremes e) (Some \<circ> print_cell_voltage_extremes) \<circ>
     print_via (as_cell_temperature_extremes e) (Some \<circ> print_cell_temperature_extremes) \<circ>
     print_via (as_charge_discharge_mos e) (Some \<circ> print_charge_discharge_mos) \<circ>
     print_via (as_status_info e) (Some \<circ> print_status_info) \<circ>
     print_via (as_cell_voltages e) print_cell_voltages \<circ>
     print_via (as_cell_temperatures e) print_cell_temperatures \<circ>
     print_via (as_cell_balancing_bits e) print_balancing_bits \<circ>
     print_via (as_fault_status e) print_fault_status \<circ>
     print_via (as_balancing_state e) (Some \<circ> print_balancing_state) \<circ>
     print_via (as_battery_status e) (Some \<circ> print_battery_status) \<circ>
     print_via (as_wakeup_source e) (Some \<circ> print_wakeup_source) \<circ>
     print_via (as_mos_control_ack e) (Some \<circ> print_mos_control_ack)) No_printer"

section \<open>Text and bytes\<close>

text \<open>What the printed text keeps of a field: everything up to the last byte that is no padding.\<close>

definition padding :: "u8 \<Rightarrow> bool" where
  "padding c \<longleftrightarrow> c = 0 \<or> c = 0xFF \<or> c = 0x20"

lemma not_padding: "c \<noteq> 0 \<and> c \<noteq> 0xFF \<and> c \<noteq> 0x20 \<longleftrightarrow> \<not> padding c"
  by (simp add: padding_def)

lemma trimmed_len_eq:
  "n \<le> length text \<Longrightarrow>
    trimmed_len text n = Some (length (dropWhile padding (rev (take n text))))"
proof (induction n)
  case (Suc n)
  then have "rev (take (Suc n) text) = text ! n # rev (take n text)"
    by (simp add: take_Suc_conv_app_nth)
  moreover have "length (rev (take n text)) = n" using Suc.prems by simp
  ultimately show ?case
    using Suc by (subst trimmed_len.simps) (simp add: not_padding)
qed (simp add: trimmed_len.simps)

definition unpadded :: "u8 list \<Rightarrow> u8 list" where
  "unpadded text = rev (dropWhile padding (rev text))"

lemma unpadded_prefix: "unpadded text = take (length (unpadded text)) text"
proof -
  have "text = unpadded text @ rev (takeWhile padding (rev text))"
    unfolding unpadded_def by (metis rev_append rev_rev_ident takeWhile_dropWhile_id)
  then show ?thesis by (metis append_eq_conv_conj)
qed

lemma collect_loop:
  assumes "\<And>i. i < n \<Longrightarrow> f i = Some (g i)"
  shows "for_loop [0..<n] (\<lambda>i t. do { c \<leftarrow> f i; Some (t @ [h c]) }) t0 = Some (t0 @ map (h \<circ> g) [0..<n])"
  using assms
proof (induction n)
  case (Suc n)
  then show ?case by (simp add: for_loop_append)
qed simp

lemma print_ascii_eq:
  assumes "n \<le> length text"
  shows "print_ascii text n = Some
    (if unpadded (take n text) = [] then ''(empty)''
     else [CHR 0x22] @ map ascii_char (unpadded (take n text)) @ [CHR 0x22])"
proof -
  define m where "m = length (unpadded (take n text))"
  have m: "trimmed_len text n = Some m" using trimmed_len_eq [OF assms] by (simp add: m_def unpadded_def)
  have t: "unpadded (take n text) = take m (take n text)" using unpadded_prefix m_def by metis
  have le: "m \<le> n" using length_dropWhile_le [of padding "rev (take n text)"] by (simp add: m_def unpadded_def)
  have "for_loop [0..<m] (\<lambda>i t. do { c \<leftarrow> rd text i; Some (t @ [ascii_char c]) }) [] =
      Some ([] @ map (ascii_char \<circ> (!) text) [0..<m])"
    using le assms by (intro collect_loop) simp
  also have "map (ascii_char \<circ> (!) text) [0..<m] = map ascii_char (unpadded (take n text))"
    using le assms by (simp add: t min_def map_map [symmetric] del: map_map)
  finally have *: "for_loop [0..<m] (\<lambda>i t. do { c \<leftarrow> rd text i; Some (t @ [ascii_char c]) }) [] =
    Some (map ascii_char (unpadded (take n text)))" by simp
  have "m = 0 \<longleftrightarrow> unpadded (take n text) = []" by (simp add: m_def)
  with m * show ?thesis by (simp add: print_ascii_def)
qed

lemma loop_defined:
  assumes "\<And>i s. i \<in> set is \<Longrightarrow> P s \<Longrightarrow> \<exists>s'. body i s = Some s' \<and> P s'" and "P s"
  shows "\<exists>s'. for_loop is body s = Some s' \<and> P s'"
  using assms
proof (induction "is" arbitrary: s)
  case (Cons i js)
  then obtain s' where "body i s = Some s'" "P s'" by (metis list.set_intros(1))
  with Cons show ?case by simp
qed simp

lemmas loop_returns = loop_defined [where P = "\<lambda>_. True", simplified]

lemma print_hex_defined: "\<exists>t. print_hex d = Some t"
  unfolding print_hex_def by (rule loop_returns) simp

section \<open>Cell statistics\<close>

text \<open>The state of the scan after \<open>m\<close> of the cells: sum, extremes and their first positions.\<close>

definition scanned :: "u16 list \<Rightarrow> nat \<Rightarrow> u32 \<times> u16 \<times> u16 \<times> u8 \<times> u8 \<Rightarrow> bool" where
  "scanned xs m = (\<lambda>(total, lo, hi, lo_at, hi_at).
     unat total = (\<Sum>i<m. unat (xs ! i)) \<and>
     1 \<le> unat lo_at \<and> unat lo_at \<le> max 1 m \<and> lo = xs ! (unat lo_at - 1) \<and>
     (\<forall>i < m. lo \<le> xs ! i) \<and> (\<forall>i < unat lo_at - 1. lo < xs ! i) \<and>
     1 \<le> unat hi_at \<and> unat hi_at \<le> max 1 m \<and> hi = xs ! (unat hi_at - 1) \<and>
     (\<forall>i < m. xs ! i \<le> hi) \<and> (\<forall>i < unat hi_at - 1. xs ! i < hi))"

lemma unat_ucast_16_32: "unat (ucast (x :: u16) :: u32) = unat x"
  by (simp add: unsigned_ucast_eq take_bit_nat_eq_self less_trans [OF unat_u16_less])

lemma unat_u8_of_nat: "k < 256 \<Longrightarrow> unat (word_of_nat k :: u8) = k"
  by (simp add: unsigned_of_nat take_bit_nat_eq_self)

lemma sum_u16_bound: "(\<Sum>i<m. unat (xs ! i :: u16)) \<le> m * 65535"
proof (induction m)
  case (Suc m)
  moreover have "unat (xs ! m) \<le> 65535" using unat_u16_less [of "xs ! m"] by linarith
  ultimately show ?case by simp
qed simp

lemma scan_step:
  assumes "scanned xs m st" and "m < 255" and "m < length xs"
  shows "\<exists>st'. scan_voltage xs m st = Some st' \<and> scanned xs (Suc m) st'"
proof -
  obtain total lo hi lo_at hi_at where st: "st = (total, lo, hi, lo_at, hi_at)" by (cases st)
  let ?v = "xs ! m"
  have at: "unat (word_of_nat (m + 1) :: u8) = m + 1"
    by (rule unat_u8_of_nat) (use assms(2) in simp)
  have "(\<Sum>i<m. unat (xs ! i)) + unat ?v < 4294967296"
    using sum_u16_bound [of xs m] unat_u16_less [of ?v] assms(2) by linarith
  moreover have "unat (ucast ?v :: u32) = unat ?v" by (rule unat_ucast_16_32)
  ultimately have total: "unat (total + ucast ?v) = (\<Sum>i<Suc m. unat (xs ! i))"
    using assms(1) by (simp add: st scanned_def unat_add_lem [THEN iffD1])
  let ?lo = "if ?v < lo then (?v, word_of_nat (m + 1)) else (lo, lo_at)"
  let ?hi = "if ?v > hi then (?v, word_of_nat (m + 1)) else (hi, hi_at)"
  have "scan_voltage xs m st = Some (total + ucast ?v, fst ?lo, fst ?hi, snd ?lo, snd ?hi)"
    using assms(3) by (simp add: scan_voltage_def st Let_def split: prod.split)
  moreover have "scanned xs (Suc m) (total + ucast ?v, fst ?lo, fst ?hi, snd ?lo, snd ?hi)"
    unfolding scanned_def split_conv
  proof (intro conjI)
    from assms(1) have s: "1 \<le> unat lo_at" "unat lo_at \<le> max 1 m" "lo = xs ! (unat lo_at - 1)"
      "\<forall>i < m. lo \<le> xs ! i" "\<forall>i < unat lo_at - 1. lo < xs ! i"
      "1 \<le> unat hi_at" "unat hi_at \<le> max 1 m" "hi = xs ! (unat hi_at - 1)"
      "\<forall>i < m. xs ! i \<le> hi" "\<forall>i < unat hi_at - 1. xs ! i < hi"
      unfolding st scanned_def split_conv by blast+
    show "unat (total + ucast ?v) = (\<Sum>i<Suc m. unat (xs ! i))" by (rule total)
    show "1 \<le> unat (snd ?lo)" "1 \<le> unat (snd ?hi)" using s(1, 6) at by simp_all
    show "unat (snd ?lo) \<le> max 1 (Suc m)" "unat (snd ?hi) \<le> max 1 (Suc m)" using s(2, 7) at by auto
    show "fst ?lo = xs ! (unat (snd ?lo) - 1)" "fst ?hi = xs ! (unat (snd ?hi) - 1)"
      using s(3, 8) at by simp_all
    show "\<forall>i < Suc m. fst ?lo \<le> xs ! i" "\<forall>i < Suc m. xs ! i \<le> fst ?hi"
      using s(4, 9) by (auto simp: less_Suc_eq)
    show "\<forall>i < unat (snd ?lo) - 1. fst ?lo < xs ! i" "\<forall>i < unat (snd ?hi) - 1. xs ! i < fst ?hi"
      using s(4, 5, 9, 10) at by auto
  qed
  ultimately show ?thesis by blast
qed

lemma scan_loop:
  assumes "m \<le> 255" and "m \<le> length xs"
  shows "\<exists>st. for_loop [0..<m] (scan_voltage xs) (0, xs ! 0, xs ! 0, 1, 1) = Some st \<and> scanned xs m st"
  using assms
proof (induction m)
  case 0
  then show ?case by (simp add: scanned_def)
next
  case (Suc m)
  then obtain st where "for_loop [0..<m] (scan_voltage xs) (0, xs ! 0, xs ! 0, 1, 1) = Some st"
    "scanned xs m st" by auto
  with scan_step [of xs m st] Suc.prems show ?case by (auto simp: for_loop_append)
qed

text \<open>The summary line, and the text of one cell in the list that follows.\<close>

definition voltage_heading :: "nat \<Rightarrow> nat \<Rightarrow> u16 \<Rightarrow> u16 \<Rightarrow> u8 \<Rightarrow> u8 \<Rightarrow> string" where
  "voltage_heading n tot lo hi lo_at hi_at =
     show_size n @ '' cells, min '' @ show_u lo @ '' mV (#'' @ show_u lo_at @
     ''), max '' @ show_u hi @ '' mV (#'' @ show_u hi_at @ ''), spread '' @
     show_size (unat hi - unat lo) @ '' mV, mean '' @ show_size (tot div n) @ '' mV'' @ nl"

definition voltage_cell :: "nat \<Rightarrow> nat \<Rightarrow> u16 \<Rightarrow> string" where
  "voltage_cell n i v = (if i mod 6 = 0 then CONT else []) @
     ''#'' @ pad_right 2 (show_size (i + 1)) @ '' '' @ pad_left 5 CHR '' '' (show_u v) @ '' mV'' @
     (if i mod 6 = 5 \<or> i + 1 = n then nl else ''  '')"

lemma append_loop:
  assumes "n \<le> length xs"
  shows "for_loop [0..<n] (\<lambda>i t. do { v \<leftarrow> rd xs i; Some (t @ g i v) }) t =
    Some (t @ concat (map (\<lambda>i. g i (xs ! i)) [0..<n]))"
  using assms
proof (induction n)
  case (Suc n)
  then show ?case by (simp add: for_loop_append)
qed simp

lemma print_cell_voltages_eq:
  assumes "0 < n" and "n = unat (cell_voltages.count p)" and "n \<le> length (cell_voltages.mv p)"
  shows "\<exists>total lo hi lo_at hi_at.
    scanned (cell_voltages.mv p) n (total, lo, hi, lo_at, hi_at) \<and>
    print_cell_voltages p = Some (voltage_heading n (unat total) lo hi lo_at hi_at @
      concat (map (\<lambda>i. voltage_cell n i (cell_voltages.mv p ! i)) [0..<n]))"
proof -
  let ?xs = "cell_voltages.mv p" and ?c = "cell_voltages.count p"
  have c: "?c \<noteq> 0" "n \<le> 255" using assms(1, 2) unat_le_255 [of ?c] by auto
  obtain total lo hi lo_at hi_at where st: "scanned ?xs n (total, lo, hi, lo_at, hi_at)"
    "for_loop [0..<n] (scan_voltage ?xs) (0, ?xs ! 0, ?xs ! 0, 1, 1) = Some (total, lo, hi, lo_at, hi_at)"
    using scan_loop [OF c(2) assms(3)] by (metis prod_cases5)
  have le: "lo \<le> hi" using st(1) assms(1) by (auto simp: scanned_def intro: order_trans [of _ "?xs ! 0"])
  have "unat (ucast hi - ucast lo :: u32) = unat hi - unat lo"
    using le by (subst unat_sub) (simp_all add: word_le_nat_alt unat_ucast_16_32)
  then have spread: "show_u (ucast hi - ucast lo :: u32) = show_size (unat hi - unat lo)"
    by (simp only: show_u_def show_size_def uint_nat)
  have mean: "show_u (total div ucast ?c) = show_size (unat total div n)"
    by (simp only: show_u_def show_size_def uint_nat unat_div assms(2) unat_ucast_8_32)
  have num: "show_u ?c = show_size n" by (simp only: show_u_def show_size_def uint_nat assms(2))
  have v0: "rd ?xs 0 = Some (?xs ! 0)" by (rule rd_Some, rule less_le_trans [OF assms(1, 3)])
  have "print_cell_voltages p =
      for_loop [0..<n] (\<lambda>i t. do { v \<leftarrow> rd ?xs i; Some (t @ voltage_cell n i v) })
        (voltage_heading n (unat total) lo hi lo_at hi_at)"
    unfolding voltage_heading_def print_cell_voltages_def Let_def assms(2) [symmetric] voltage_cell_def
    using c(1) st(2) by (simp only: if_False Option.bind.bind_lunit split_conv v0 spread mean num)
  then have "print_cell_voltages p = Some (voltage_heading n (unat total) lo hi lo_at hi_at @
      concat (map (\<lambda>i. voltage_cell n i (?xs ! i)) [0..<n]))"
    unfolding append_loop [OF assms(3)] .
  with st(1) show ?thesis by blast
qed

section \<open>Every printer returns\<close>

lemma FAULT_BITS_shape:
  "byte < 7 \<Longrightarrow> k < 8 \<Longrightarrow> \<exists>row name. rd FAULT_BITS byte = Some row \<and> rd row k = Some name"
proof -
  assume "byte < 7" "k < 8"
  moreover have "length FAULT_BITS = 7" "list_all (\<lambda>row. length row = 8) FAULT_BITS"
    by (simp_all add: FAULT_BITS_def)
  ultimately show ?thesis by (auto simp: rd_def list_all_length)
qed

lemma bind_returns:
  "\<exists>x. m = Some x \<Longrightarrow> (\<And>x. m = Some x \<Longrightarrow> \<exists>y. f x = Some y) \<Longrightarrow> \<exists>y. m \<bind> f = Some y"
  by auto

lemma if_returns:
  "(c \<Longrightarrow> \<exists>y. a = Some y) \<Longrightarrow> (\<not> c \<Longrightarrow> \<exists>y. b = Some y) \<Longrightarrow> \<exists>y. (if c then a else b) = Some y"
  by simp

lemma rd_returns: "i < length xs \<Longrightarrow> \<exists>x. rd xs i = Some x"
  by simp

lemma Some_returns: "\<exists>y. Some x = Some y"
  by simp

lemmas returns = bind_returns if_returns loop_returns rd_returns print_hex_defined Some_returns

lemma print_cell_temperatures_returns:
  assumes "unat (cell_temperatures.count p) \<le> length (cell_temperatures.celsius p)"
  shows "\<exists>t. print_cell_temperatures p = Some t"
proof -
  have "0 < length (cell_temperatures.celsius p)" if "cell_temperatures.count p \<noteq> 0"
    using that assms by (metis gr0I le_zero_eq unat_eq_zero)
  with assms show ?thesis
    unfolding print_cell_temperatures_def Let_def scan_temperature_def split_beta
    by (intro returns) auto
qed

lemma print_cell_voltages_returns:
  assumes "unat (cell_voltages.count p) \<le> length (cell_voltages.mv p)"
  shows "\<exists>t. print_cell_voltages p = Some t"
proof (cases "cell_voltages.count p = 0")
  case False
  then have "0 < unat (cell_voltages.count p)" by (simp add: unat_gt_0)
  from print_cell_voltages_eq [OF this refl assms] show ?thesis by blast
qed (simp add: print_cell_voltages_def Let_def)

lemma print_fault_status_returns:
  assumes "length (fault_status.bits p) = 8"
  shows "\<exists>t. print_fault_status p = Some t"
proof -
  note f = fault_bit [OF assms]
  have "\<exists>n. count_faults p = Some n"
    unfolding count_faults_def by (intro loop_returns) (simp add: f)
  moreover have "\<exists>t'. list_fault p byte k t = Some t'" if "byte < 7" "k < 8" for byte k t
    using FAULT_BITS_shape [OF that] that by (auto simp: list_fault_def f)
  ultimately show ?thesis unfolding print_fault_status_def by (intro returns) auto
qed

lemma print_balancing_bits_returns:
  assumes "length (cell_balancing_bits.bits p) = 8"
  shows "\<exists>t. print_balancing_bits p = Some t"
proof -
  have "\<exists>b. cell_balancing p cell = Some b" if "cell \<in> set [0..<MAX_CELLS]" for cell
    using that by (simp add: cell_balancing_bit [OF assms])
  then show ?thesis unfolding print_balancing_bits_def Let_def by (intro returns) auto
qed

lemma print_texts_return:
  "\<exists>t. print_text p = Some t" "\<exists>t. print_version q = Some t" "\<exists>t. print_firmware_index f = Some t"
  by (simp_all add: print_text_def print_version_def print_firmware_index_def print_ascii_eq
      text_size_def version_size_def)

lemma print_bmu_cell_temp_count_returns:
  "length (bmu_cell_temp_count.cell_count p) = 3 \<Longrightarrow> length (bmu_cell_temp_count.temp_count p) = 3 \<Longrightarrow>
    \<exists>t. print_bmu_cell_temp_count p = Some t"
  by (simp add: print_bmu_cell_temp_count_def)

section \<open>Every response has a printer\<close>

lemma print_via_Nullptr [simp]: "print_via Nullptr f r = r"
  by (simp add: print_via_def)

lemma print_via_Ptr [simp]:
  "print_via (Ptr p) f r = (case f p of None \<Rightarrow> Undefined | Some t \<Rightarrow> Printed t)"
  by (simp add: print_via_def)

lemma outside_block:
  "is_alarm_threshold_id i \<Longrightarrow> \<not> is_alarm_threshold_id c \<Longrightarrow> i = c \<longleftrightarrow> False"
  by auto

lemmas numeral_in_block = is_alarm_threshold_id_def [of "numeral k"] for k

lemmas printer_chain = print_payload_def accessor_defs as_text_def as_version_def as_mos_control_ack_def
  as_current_alarm_threshold_def as_temp_alarm_threshold_def as_alarm_threshold_def
  responds_to_def carries_mos_ack_def is_response_def point_to_def payload_fits_def numeral_in_block Let_def

lemma printed_if_returns: "\<exists>t. m = Some t \<Longrightarrow> \<exists>t. (case m of None \<Rightarrow> Undefined | Some t \<Rightarrow> Printed t) = Printed t"
  by auto

lemma threshold_printed:
  assumes "kind e = RESPONSE" and "payload_fits (event_id e) (payload e)"
    and "is_alarm_threshold_id (event_id e)"
  shows "\<exists>t. print_payload e ordinal = Printed t"
  using assms
  by (simp add: printer_chain outside_block [OF assms(3)] split: if_split_asm)

lemma fitting_id:
  "payload_fits i p \<Longrightarrow> is_alarm_threshold_id i \<or> i = FAULT_RECORDS \<or>
    i \<in> set single_ids \<or> i \<in> set paginated_ids \<or> i \<in> set mos_ids"
  by (simp add: payload_fits_def single_ids_def paginated_ids_def mos_ids_def split: if_split_asm)

lemma single_printed:
  assumes "kind e = RESPONSE" and "payload_fits (event_id e) (payload e)" and "payload_sized (payload e)"
    and "event_id e \<in> set single_ids"
  shows "\<exists>t. print_payload e ordinal = Printed t"
  using assms(4)
  by (simp add: single_ids_def, elim disjE)
    (use assms(1-3) print_bmu_cell_temp_count_returns print_texts_return(3) print_fault_status_returns
        print_balancing_bits_returns in
      \<open>auto simp: printer_chain payload_sized_def intro!: printed_if_returns split: event_payload.splits\<close>)

lemma page_printed:
  assumes "kind e = RESPONSE" and "payload_fits (event_id e) (payload e)" and "payload_sized (payload e)"
    and "event_id e = FAULT_RECORDS \<or> event_id e \<in> set paginated_ids \<or> event_id e \<in> set mos_ids"
  shows "\<exists>t. print_payload e ordinal = Printed t"
  using assms(4)
  by (simp add: paginated_ids_def mos_ids_def, elim disjE)
    (use assms(1-3) print_texts_return(1, 2) print_cell_voltages_returns
        print_cell_temperatures_returns in
      \<open>auto simp: printer_chain payload_sized_def intro!: printed_if_returns split: event_payload.splits\<close>)

lemma response_printed:
  assumes "kind e = RESPONSE" and "payload_fits (event_id e) (payload e)" and "payload_sized (payload e)"
  shows "\<exists>t. print_payload e ordinal = Printed t"
  using fitting_id [OF assms(2)] threshold_printed [OF assms(1, 2)] single_printed [OF assms]
    page_printed [OF assms] by blast

section \<open>What the printed numbers say\<close>

text \<open>
  C33: the summary of the cell voltages is right.  For a reply that names at least one cell and no
  more than the array holds, the heading gives the number of cells, the lowest and the highest
  voltage with the number of the first cell that has each, the difference and the mean (rounded
  down), with no wrap-around in the sum; and every cell is listed after it.
\<close>

theorem cell_voltage_summary:
  assumes "0 < n" and "n = unat (cell_voltages.count p)" and "n \<le> length (cell_voltages.mv p)"
  defines "xs \<equiv> take n (cell_voltages.mv p)"
  shows "\<exists>lo hi lo_at hi_at. lo = Min (set xs) \<and> hi = Max (set xs) \<and>
    1 \<le> unat lo_at \<and> unat lo_at \<le> n \<and> xs ! (unat lo_at - 1) = lo \<and> (\<forall>i < unat lo_at - 1. lo < xs ! i) \<and>
    1 \<le> unat hi_at \<and> unat hi_at \<le> n \<and> xs ! (unat hi_at - 1) = hi \<and> (\<forall>i < unat hi_at - 1. xs ! i < hi) \<and>
    print_cell_voltages p = Some (voltage_heading n (sum_list (map unat xs)) lo hi lo_at hi_at @
      concat (map (\<lambda>i. voltage_cell n i (xs ! i)) [0..<n]))"
proof -
  let ?ys = "cell_voltages.mv p"
  have xs: "length xs = n" "\<And>i. i < n \<Longrightarrow> xs ! i = ?ys ! i" using assms(3) by (simp_all add: xs_def)
  from print_cell_voltages_eq [OF assms(1-3)] obtain tot lo hi lo_at hi_at where
    st: "scanned ?ys n (tot, lo, hi, lo_at, hi_at)"
    and pr: "print_cell_voltages p = Some (voltage_heading n (unat tot) lo hi lo_at hi_at @
      concat (map (\<lambda>i. voltage_cell n i (?ys ! i)) [0..<n]))" by blast
  from st have s: "unat tot = (\<Sum>i<n. unat (?ys ! i))"
    "1 \<le> unat lo_at" "unat lo_at \<le> max 1 n" "lo = ?ys ! (unat lo_at - 1)"
    "\<forall>i < n. lo \<le> ?ys ! i" "\<forall>i < unat lo_at - 1. lo < ?ys ! i"
    "1 \<le> unat hi_at" "unat hi_at \<le> max 1 n" "hi = ?ys ! (unat hi_at - 1)"
    "\<forall>i < n. ?ys ! i \<le> hi" "\<forall>i < unat hi_at - 1. ?ys ! i < hi"
    unfolding scanned_def split_conv by blast+
  have at: "unat lo_at \<le> n" "unat hi_at \<le> n" using s(3, 8) assms(1) by simp_all
  then have idx: "unat lo_at - 1 < n" "unat hi_at - 1 < n" using s(2, 7) by linarith+
  have lo: "xs ! (unat lo_at - 1) = lo" "xs ! (unat hi_at - 1) = hi"
    using xs(2) idx s(4, 9) by simp_all
  then have mem: "lo \<in> set xs" "hi \<in> set xs" using idx xs(1) by (metis nth_mem)+
  have "\<forall>x \<in> set xs. lo \<le> x" "\<forall>x \<in> set xs. x \<le> hi"
    using s(5, 10) xs by (auto simp: in_set_conv_nth)
  with mem have "lo = Min (set xs)" "hi = Max (set xs)"
    by (auto intro: Min_eqI [symmetric] Max_eqI [symmetric])
  moreover have "sum_list (map unat xs) = unat tot"
    by (simp add: s(1) sum_list_sum_nth xs atLeast0LessThan)
  moreover have "concat (map (\<lambda>i. voltage_cell n i (xs ! i)) [0..<n]) =
      concat (map (\<lambda>i. voltage_cell n i (?ys ! i)) [0..<n])"
    by (rule arg_cong [where f = concat]) (use xs(2) in simp)
  moreover have "\<forall>i < unat lo_at - 1. lo < xs ! i" "\<forall>i < unat hi_at - 1. xs ! i < hi"
    using s(6, 11) idx xs(2) by (metis less_trans)+
  ultimately show ?thesis using pr s(2, 7) at lo
    by - (rule exI [of _ lo], rule exI [of _ hi], rule exI [of _ lo_at], rule exI [of _ hi_at], simp)
qed

theorem cell_voltage_summary_witness:
  "\<exists>lo hi lo_at hi_at. lo = 3100 \<and> hi = 3300 \<and>
    print_cell_voltages (cell_voltages.make 3 [3200, 3100, 3300]) =
      Some (voltage_heading 3 9600 lo hi lo_at hi_at @
        concat (map (\<lambda>i. voltage_cell 3 i ([3200, 3100, 3300] ! i)) [0..<3]))"
proof -
  let ?p = "cell_voltages.make 3 [3200, 3100, 3300]"
  have "0 < (3 :: nat)" "3 = unat (cell_voltages.count ?p)" "3 \<le> length (cell_voltages.mv ?p)"
    by (simp_all add: cell_voltages.make_def)
  from cell_voltage_summary [OF this] obtain lo hi lo_at hi_at where
    "lo = Min (set (take 3 (cell_voltages.mv ?p)))" "hi = Max (set (take 3 (cell_voltages.mv ?p)))"
    "print_cell_voltages ?p = Some (voltage_heading 3 (sum_list (map unat (take 3 (cell_voltages.mv ?p)))) lo hi lo_at hi_at @
      concat (map (\<lambda>i. voltage_cell 3 i (take 3 (cell_voltages.mv ?p) ! i)) [0..<3]))" by blast
  moreover have v: "take 3 (cell_voltages.mv ?p) = [3200, 3100, 3300]" by (simp add: cell_voltages.make_def)
  moreover have "Min (set [3200, 3100, 3300 :: u16]) = 3100" "Max (set [3200, 3100, 3300 :: u16]) = 3300"
    "sum_list (map unat [3200, 3100, 3300 :: u16]) = 9600" by simp_all
  ultimately have "lo = 3100 \<and> hi = 3300 \<and> print_cell_voltages ?p = Some (voltage_heading 3 9600 lo hi lo_at hi_at @
      concat (map (\<lambda>i. voltage_cell 3 i ([3200, 3100, 3300] ! i)) [0..<3]))"
    by (simp only: v)
  then show ?thesis by (intro exI)
qed

text \<open>
  The printed decimals are exact.  Every number of the live telemetry line, read back as
  decimal text, is the raw value of the payload: the division in binary floating point and the
  rounding to one decimal lose nothing.
\<close>

lemma telemetry_prints_exactly:
  "\<exists>a b c d. print_total_voltage_current_soc p =
      a @ '' V cumulative, '' @ b @ '' V measured, '' @ c @ '' A, SOC '' @ d @ '' %'' @ nl \<and>
    fixed_value a = uint (total_voltage_current_soc.cumulative_voltage_dv p) \<and>
    fixed_value b = uint (total_voltage_current_soc.measured_voltage_dv p) \<and>
    fixed_value c = sint (total_voltage_current_soc.current_da p) \<and>
    fixed_value d = uint (total_voltage_current_soc.soc_pm p)"
proof -
  have "fixed_value (show_fixed 1 x 10) = x" for x using fixed_value_show_fixed [of 1 x] by simp
  then show ?thesis unfolding print_total_voltage_current_soc_def by blast
qed

end
