(* ===== verification/Schedule.thy ===== *)
theory Schedule
  imports Commands Printers
begin

text \<open>
  What \<open>examples/dump_all.cpp\<close> reads and how it asks for it: the command-line options, the schedule
  of probes, their labels, and \<open>issue\<close>, which turns a probe into a call of the session.

  \<open>getopt\<close> is not part of the repository: \<open>parse_options\<close> takes the options it reports, in order,
  each with its argument.  \<open>strtoul\<close> is the one of the C library, with a 64-bit \<open>unsigned long\<close>.
\<close>

section \<open>Options\<close>

record options =
  device :: string
  baud :: u32
  opt_host_address :: u32
  opt_response_timeout_ms :: u32
  opt_interframe_timeout_ms :: u32
  opt_retries :: u32
  opt_cell_count :: u32
  opt_temp_count :: u32
  sweeps :: u32
  interval_ms :: u32
  skip_alarm_thresholds :: bool
  skip_fault_records :: bool
  opt_trace :: bool

definition default_options :: options where
  "default_options =
    \<lparr>device = ''/dev/ttyUSB0'', baud = 9600, opt_host_address = 0x40,
     opt_response_timeout_ms = DEFAULT_RESPONSE_TIMEOUT_MS,
     opt_interframe_timeout_ms = DEFAULT_INTERFRAME_TIMEOUT_MS,
     opt_retries = ucast DEFAULT_MAX_RETRIES, opt_cell_count = 0, opt_temp_count = 0,
     sweeps = 1, interval_ms = 1000,
     skip_alarm_thresholds = False, skip_fault_records = False, opt_trace = False\<rparr>"

text \<open>\<open>strtoul(s, nullptr, base)\<close> for the two bases used, and the cast to \<open>unsigned\<close>.\<close>

definition c_isspace :: "char \<Rightarrow> bool" where
  "c_isspace c \<longleftrightarrow> of_char c = (32 :: nat) \<or> 9 \<le> (of_char c :: nat) \<and> (of_char c :: nat) \<le> 13"

definition digit_in :: "nat \<Rightarrow> char \<Rightarrow> nat option" where
  "digit_in base c =
    (let n = of_char c :: nat;
         d = (if 48 \<le> n \<and> n \<le> 57 then n - 48
              else if 65 \<le> n \<and> n \<le> 90 then n - 55
              else if 97 \<le> n \<and> n \<le> 122 then n - 87 else 36)
     in if d < base then Some d else None)"

definition strip_prefix :: "nat \<Rightarrow> string \<Rightarrow> string" where
  "strip_prefix base t =
    (if base = 16 \<and> length t > 2 \<and> t ! 0 = CHR ''0'' \<and> (t ! 1 = CHR ''x'' \<or> t ! 1 = CHR ''X'') \<and>
       digit_in 16 (t ! 2) \<noteq> None
     then drop 2 t else t)"

definition strtoul :: "string \<Rightarrow> nat \<Rightarrow> 64 word" where
  "strtoul s base =
    (let t = dropWhile c_isspace s;
         signed = t \<noteq> [] \<and> (hd t = CHR ''-'' \<or> hd t = CHR ''+'');
         negative = t \<noteq> [] \<and> hd t = CHR ''-'';
         t = strip_prefix base (if signed then tl t else t);
         ds = takeWhile (\<lambda>c. digit_in base c \<noteq> None) t;
         v = foldl (\<lambda>v c. v * base + the (digit_in base c)) 0 ds
     in if v \<ge> 2 ^ 64 then - 1 else if negative then - of_nat v else of_nat v)"

definition unsigned_arg :: "string \<Rightarrow> nat \<Rightarrow> u32" where
  "unsigned_arg s base = ucast (strtoul s base)"

fun parse_flags :: "(char \<times> string) list \<Rightarrow> options \<Rightarrow> (bool \<times> options) option" where
  "parse_flags [] opt = Some (False, opt)"
| "parse_flags ((c, optarg) # rest) opt =
    (if c = CHR ''d'' then parse_flags rest (opt\<lparr>device := optarg\<rparr>)
     else if c = CHR ''b'' then parse_flags rest (opt\<lparr>baud := unsigned_arg optarg 10\<rparr>)
     else if c = CHR ''a'' then parse_flags rest (opt\<lparr>opt_host_address := unsigned_arg optarg 16\<rparr>)
     else if c = CHR ''t'' then parse_flags rest (opt\<lparr>opt_response_timeout_ms := unsigned_arg optarg 10\<rparr>)
     else if c = CHR ''f'' then parse_flags rest (opt\<lparr>opt_interframe_timeout_ms := unsigned_arg optarg 10\<rparr>)
     else if c = CHR ''r'' then parse_flags rest (opt\<lparr>opt_retries := unsigned_arg optarg 10\<rparr>)
     else if c = CHR ''c'' then parse_flags rest (opt\<lparr>opt_cell_count := unsigned_arg optarg 10\<rparr>)
     else if c = CHR ''T'' then parse_flags rest (opt\<lparr>opt_temp_count := unsigned_arg optarg 10\<rparr>)
     else if c = CHR ''n'' then parse_flags rest (opt\<lparr>sweeps := unsigned_arg optarg 10\<rparr>)
     else if c = CHR ''i'' then parse_flags rest (opt\<lparr>interval_ms := unsigned_arg optarg 10\<rparr>)
     else if c = CHR ''A'' then parse_flags rest (opt\<lparr>skip_alarm_thresholds := True\<rparr>)
     else if c = CHR ''F'' then parse_flags rest (opt\<lparr>skip_fault_records := True\<rparr>)
     else if c = CHR ''v'' then parse_flags rest (opt\<lparr>opt_trace := True\<rparr>)
     else if c = CHR ''h'' then Some (True, opt)
     else None)"

text \<open>The result, the options and \<open>want_help\<close>; \<open>None\<close> for \<open>false\<close>.\<close>

definition parse_options :: "(char \<times> string) list \<Rightarrow> options \<Rightarrow> (bool \<times> options) option" where
  "parse_options flags opt =
    (case parse_flags flags opt of
       None \<Rightarrow> None
     | Some (want_help, opt) \<Rightarrow>
         if want_help then Some (True, opt)
         else if opt_retries opt > 255 \<or> unat (opt_cell_count opt) > MAX_CELLS \<or>
           unat (opt_temp_count opt) > MAX_TEMPERATURES then None
         else Some (False, opt))"

section \<open>The schedule\<close>

record probe =
  probe_section :: "string option"
  probe_id :: data_id

definition MAX_PROBES :: nat where [simp]: "MAX_PROBES = 96"

text \<open>The lambda \<open>add\<close>: the pending section title goes to the first probe added after it.\<close>

type_synonym schedule_state = "string option \<times> probe list"

definition add_probe :: "data_id \<Rightarrow> schedule_state \<Rightarrow> schedule_state option" where
  "add_probe i = (\<lambda>(title, out).
     if length out < MAX_PROBES then Some (None, out @ [\<lparr>probe_section = title, probe_id = i\<rparr>])
     else None)"

fun add_probes :: "data_id list \<Rightarrow> schedule_state \<Rightarrow> schedule_state option" where
  "add_probes [] st = Some st"
| "add_probes (i # is) st = add_probe i st \<bind> add_probes is"

definition begin_section :: "string \<Rightarrow> schedule_state \<Rightarrow> schedule_state" where
  "begin_section title st = (Some title, snd st)"

definition identification_ids :: "data_id list" where
  "identification_ids =
    [CAPACITY_VOLTAGE, BMU_CELL_TEMP_COUNT, BATTERY_OPERATION_MODE, FIRMWARE_INDEX,
     MANUFACTURER_NAME, BATTERY_NAME, BATTERY_SERIAL_NUMBER, SN_SERIAL_NUMBER,
     BATTERY_PRODUCTION_DATE, SOFTWARE_VERSION, HARDWARE_VERSION, BOARD_NUMBER]"

definition telemetry_ids :: "data_id list" where
  "telemetry_ids =
    [TOTAL_VOLTAGE_CURRENT_SOC, CHARGE_DISCHARGE_MOS_STATUS, STATUS_INFO, BATTERY_STATUS,
     TOTAL_CHARGE_DISCHARGE_AH, CELL_VOLTAGE_EXTREMES, CELL_TEMPERATURE_EXTREMES, CELL_VOLTAGES,
     CELL_TEMPERATURES, BALANCING_STATE, CELL_BALANCING_BITS, FAULT_STATUS, WAKEUP_SOURCE, RTC]"

definition configuration_ids :: "data_id list" where
  "configuration_ids =
    [CELL_VOLTAGE_ALARM, TOTAL_VOLTAGE_ALARM, CURRENT_ALARM, TEMPERATURE_ALARM, SOC_ALARM,
     DIFFERENCE_ALARM, BALANCING_PARAMS, CURRENT_PARAMS, HEATING_TEMPERATURE,
     ACTIVE_BALANCING_SWITCH, ACTIVE_BALANCING_PARAMS, INVERTER_PARAMS]"

definition threshold_ids :: "data_id list" where
  "threshold_ids =
    concat (map (\<lambda>level. map (\<lambda>cls. alarm_threshold_id (of_nat cls) (of_nat level))
      [0..<unat ALARM_CLASS_COUNT]) [0..<unat ALARM_LEVEL_COUNT])"

definition build_schedule :: "options \<Rightarrow> probe list option" where
  "build_schedule opt = do {
     st \<leftarrow> add_probes identification_ids (begin_section ''Identification'' (None, []));
     st \<leftarrow> add_probes telemetry_ids (begin_section ''Live telemetry'' st);
     st \<leftarrow> add_probes configuration_ids (begin_section ''Configuration'' st);
     st \<leftarrow> (if skip_alarm_thresholds opt then Some st
           else add_probes threshold_ids (begin_section ''Alarm thresholds'' st));
     st \<leftarrow> (if skip_fault_records opt then Some st
           else add_probe FAULT_RECORDS (begin_section ''Stored fault records'' st));
     Some (snd st)
   }"

text \<open>\<open>snprintf\<close> into an array of \<open>cap\<close> characters keeps \<open>cap - 1\<close> of them.\<close>

definition probe_label :: "data_id \<Rightarrow> nat \<Rightarrow> string" where
  "probe_label i cap =
    take (cap - 1)
      (if is_alarm_threshold_id i
       then alarm_class_name (alarm_class_of i) @ '' L'' @ show_u (ucast (alarm_level_of i) + 1 :: u32)
       else data_id_to_string i)"

text \<open>The call \<open>issue\<close> makes, \<open>None\<close> where it answers \<open>BAD_REQUEST\<close> itself.\<close>

definition probe_call :: "data_id \<Rightarrow> options \<Rightarrow> call option" where
  "probe_call i opt =
    (if is_alarm_threshold_id i
     then Some (Poll_alarm_threshold (alarm_class_of i) (alarm_level_of i) None 0)
     else if i = CAPACITY_VOLTAGE then Some (Poll_capacity_voltage None 0)
     else if i = BMU_CELL_TEMP_COUNT then Some (Poll_bmu_cell_temp_count None 0)
     else if i = TOTAL_CHARGE_DISCHARGE_AH then Some (Poll_total_charge_discharge_ah None 0)
     else if i = BATTERY_OPERATION_MODE then Some (Poll_battery_operation_mode None 0)
     else if i = FIRMWARE_INDEX then Some (Poll_firmware_index None 0)
     else if i = MANUFACTURER_NAME then Some (Poll_manufacturer_name None 0)
     else if i = BATTERY_NAME then Some (Poll_battery_name None 0)
     else if i = BATTERY_SERIAL_NUMBER then Some (Poll_battery_serial_number None 0)
     else if i = BATTERY_PRODUCTION_DATE then Some (Poll_battery_production_date None 0)
     else if i = CELL_VOLTAGE_ALARM then Some (Poll_cell_voltage_alarm None 0)
     else if i = TOTAL_VOLTAGE_ALARM then Some (Poll_total_voltage_alarm None 0)
     else if i = CURRENT_ALARM then Some (Poll_current_alarm None 0)
     else if i = TEMPERATURE_ALARM then Some (Poll_temperature_alarm None 0)
     else if i = SOC_ALARM then Some (Poll_soc_alarm None 0)
     else if i = DIFFERENCE_ALARM then Some (Poll_difference_alarm None 0)
     else if i = BALANCING_PARAMS then Some (Poll_balancing_params None 0)
     else if i = CURRENT_PARAMS then Some (Poll_current_params None 0)
     else if i = RTC then Some (Poll_rtc None 0)
     else if i = SOFTWARE_VERSION then Some (Poll_software_version None 0)
     else if i = HARDWARE_VERSION then Some (Poll_hardware_version None 0)
     else if i = FAULT_RECORDS then Some (Poll_fault_records None 0)
     else if i = BOARD_NUMBER then Some (Poll_board_number None 0)
     else if i = HEATING_TEMPERATURE then Some (Poll_heating_temperature None 0)
     else if i = ACTIVE_BALANCING_SWITCH then Some (Poll_active_balancing_switch None 0)
     else if i = ACTIVE_BALANCING_PARAMS then Some (Poll_active_balancing_params None 0)
     else if i = INVERTER_PARAMS then Some (Poll_inverter_params None 0)
     else if i = SN_SERIAL_NUMBER then Some (Poll_sn_serial_number None 0)
     else if i = TOTAL_VOLTAGE_CURRENT_SOC then Some (Poll_total_voltage_current_soc None 0)
     else if i = CELL_VOLTAGE_EXTREMES then Some (Poll_cell_voltage_extremes None 0)
     else if i = CELL_TEMPERATURE_EXTREMES then Some (Poll_cell_temperature_extremes None 0)
     else if i = CHARGE_DISCHARGE_MOS_STATUS then Some (Poll_charge_discharge_mos_status None 0)
     else if i = STATUS_INFO then Some (Poll_status_info None 0)
     else if i = CELL_VOLTAGES then Some (Poll_cell_voltages (ucast (opt_cell_count opt)) None 0)
     else if i = CELL_TEMPERATURES then Some (Poll_cell_temperatures (ucast (opt_temp_count opt)) None 0)
     else if i = CELL_BALANCING_BITS then Some (Poll_cell_balancing_bits None 0)
     else if i = FAULT_STATUS then Some (Poll_fault_status None 0)
     else if i = BALANCING_STATE then Some (Poll_balancing_state None 0)
     else if i = BATTERY_STATUS then Some (Poll_battery_status None 0)
     else if i = WAKEUP_SOURCE then Some (Poll_wakeup_source None 0)
     else None)"

definition issue :: "data_id \<Rightarrow> options \<Rightarrow> session \<Rightarrow> (queue_status \<times> session) option" where
  "issue i opt s =
    (case probe_call i opt of None \<Rightarrow> Some (BAD_REQUEST, s) | Some c \<Rightarrow> do_call c s)"

fun queue_status_name :: "queue_status \<Rightarrow> string" where
  "queue_status_name QUEUED = ''QUEUED''"
| "queue_status_name QUEUE_FULL = ''QUEUE_FULL''"
| "queue_status_name NO_TX_HANDLER = ''NO_TX_HANDLER''"
| "queue_status_name BAD_REQUEST = ''BAD_REQUEST''"

section \<open>What is scheduled\<close>

lemma add_probes_eq:
  assumes "length out + length is \<le> MAX_PROBES"
  shows "add_probes is (t, out) = Some (if is = [] then t else None,
    out @ (case is of [] \<Rightarrow> [] | i # js \<Rightarrow> \<lparr>probe_section = t, probe_id = i\<rparr> #
      map (\<lambda>j. \<lparr>probe_section = None, probe_id = j\<rparr>) js))"
  using assms
proof (induction "is" arbitrary: t out)
  case (Cons i js)
  then have "add_probes (i # js) (t, out) =
      add_probes js (None, out @ [\<lparr>probe_section = t, probe_id = i\<rparr>])"
    by (simp add: add_probe_def)
  with Cons show ?case by (simp split: list.splits)
qed simp

lemma threshold_ids_eq:
  "threshold_ids = [112, 113, 114, 115, 116, 117, 118, 119, 120, 121, 122, 123, 124, 125, 126, 127,
     128, 129, 130, 131, 132, 133, 134, 135, 136, 137, 138]"
  by code_simp

definition scheduled_ids :: "options \<Rightarrow> data_id list" where
  "scheduled_ids opt = identification_ids @ telemetry_ids @ configuration_ids @
     (if skip_alarm_thresholds opt then [] else threshold_ids) @
     (if skip_fault_records opt then [] else [FAULT_RECORDS])"

lemma scheduled:
  "\<exists>ps. build_schedule opt = Some ps \<and> map probe_id ps = scheduled_ids opt"
  by (simp add: build_schedule_def begin_section_def scheduled_ids_def add_probes_eq threshold_ids_eq
      identification_ids_def telemetry_ids_def configuration_ids_def add_probe_def comp_def)

lemma set_threshold_ids: "set threshold_ids = {i. is_alarm_threshold_id i}"
proof (intro equalityI subsetI)
  fix i assume "i \<in> {i. is_alarm_threshold_id i}"
  then have "112 \<le> unat i" "unat i \<le> 138" by (simp_all add: is_alarm_threshold_id_def word_le_nat_alt)
  then have "unat i \<in> set [112..<139]" unfolding set_upt atLeastLessThan_iff by simp
  then have "of_nat (unat i) \<in> (of_nat :: nat \<Rightarrow> u8) ` set [112..<139]" by (rule imageI)
  also have "(of_nat :: nat \<Rightarrow> u8) ` set [112..<139] = set threshold_ids"
    by (simp add: threshold_ids_eq upt_rec)
  finally show "i \<in> set threshold_ids" by simp
qed (auto simp: threshold_ids_eq is_alarm_threshold_id_def)

lemma distinct_scheduled: "distinct (scheduled_ids opt)"
  by (simp add: scheduled_ids_def identification_ids_def telemetry_ids_def configuration_ids_def
      threshold_ids_eq)

lemma set_scheduled:
  "set (scheduled_ids opt) = {i. is_known_data_id i} - set mos_ids
     - (if skip_alarm_thresholds opt then {i. is_alarm_threshold_id i} else {})
     - (if skip_fault_records opt then {FAULT_RECORDS} else {})"
proof -
  have "set single_ids \<union> set paginated_ids = set (identification_ids @ telemetry_ids @ configuration_ids)"
    by (auto simp: single_ids_def paginated_ids_def identification_ids_def telemetry_ids_def
        configuration_ids_def)
  moreover have "i \<notin> set single_ids \<union> set paginated_ids" "i \<notin> set mos_ids" "i \<noteq> FAULT_RECORDS"
    if "is_alarm_threshold_id i" for i
    using that by (auto simp: single_ids_def paginated_ids_def mos_ids_def numeral_in_block)
  moreover have "set mos_ids \<inter> (set single_ids \<union> set paginated_ids) = {}" "FAULT_RECORDS \<notin> set mos_ids"
    "FAULT_RECORDS \<notin> set single_ids \<union> set paginated_ids"
    by (simp_all add: single_ids_def paginated_ids_def mos_ids_def)
  ultimately show ?thesis
    unfolding scheduled_ids_def set_append set_threshold_ids [symmetric]
    using known_ids_iff set_threshold_ids by (auto split: if_splits)
qed

text \<open>
  C32: the schedule is every read command once.  For any options it fits its array, names every
  command the protocol documents except the two MOSFET writes and the groups the options leave
  out, names none twice, and asks for both sources of the cell and sensor counts before the two
  reads they size.
\<close>

theorem schedule_reads_everything_once:
  "\<exists>ps. build_schedule opt = Some ps \<and> distinct (map probe_id ps) \<and>
    set (map probe_id ps) = {i. is_known_data_id i} - set mos_ids
      - (if skip_alarm_thresholds opt then {i. is_alarm_threshold_id i} else {})
      - (if skip_fault_records opt then {FAULT_RECORDS} else {}) \<and>
    length ps = 38 + (if skip_alarm_thresholds opt then 0 else 27) + (if skip_fault_records opt then 0 else 1) \<and>
    (\<exists>before after. map probe_id ps = before @ CELL_VOLTAGES # CELL_TEMPERATURES # after \<and>
      BMU_CELL_TEMP_COUNT \<in> set before \<and> STATUS_INFO \<in> set before)"
proof -
  from scheduled obtain ps where ps: "build_schedule opt = Some ps" "map probe_id ps = scheduled_ids opt"
    by blast
  have "length ps = length (scheduled_ids opt)" using ps(2) by (metis length_map)
  then have len: "length ps = 38 + (if skip_alarm_thresholds opt then 0 else 27) +
      (if skip_fault_records opt then 0 else 1)"
    by (simp add: scheduled_ids_def identification_ids_def telemetry_ids_def configuration_ids_def
        threshold_ids_eq)
  have "scheduled_ids opt = (identification_ids @ take 7 telemetry_ids) @ CELL_VOLTAGES #
      CELL_TEMPERATURES # drop 9 telemetry_ids @ drop 26 (scheduled_ids opt)"
    by (simp add: scheduled_ids_def identification_ids_def telemetry_ids_def)
  moreover have "BMU_CELL_TEMP_COUNT \<in> set (identification_ids @ take 7 telemetry_ids)"
    "STATUS_INFO \<in> set (identification_ids @ take 7 telemetry_ids)"
    by (simp_all add: identification_ids_def telemetry_ids_def)
  ultimately have split: "\<exists>before after. scheduled_ids opt = before @ CELL_VOLTAGES # CELL_TEMPERATURES # after \<and>
      BMU_CELL_TEMP_COUNT \<in> set before \<and> STATUS_INFO \<in> set before" by blast
  show ?thesis
    using ps(1) len split by (intro exI [of _ ps]) (simp only: ps(2) distinct_scheduled set_scheduled)
qed

lemma labels_checked:
  "distinct (map (\<lambda>i. probe_label i 48) (scheduled_ids default_options)) \<and>
   list_all (\<lambda>i. length (probe_label i 48) \<le> 27) (scheduled_ids default_options)"
  by code_simp

lemma no_digits_zero:
  assumes "dropWhile c_isspace t = c # cs" and "digit_in 10 c = None" and "c \<noteq> CHR ''-''" and "c \<noteq> CHR ''+''"
  shows "strtoul t 10 = 0"
  using assms by (simp add: strtoul_def strip_prefix_def)

text \<open>
  A malformed number is not noticed.  Whatever text follows \<open>-t\<close>, the options are accepted; a
  text that does not begin with a number reads as 0, and one that does not fit 32 bits is reduced
  modulo \<open>2 ^ 32\<close>.  Only \<open>-r\<close>, \<open>-c\<close> and \<open>-T\<close> are checked, against their upper bounds.
\<close>

lemma malformed_number_accepted:
  "parse_options [(CHR ''t'', arg)] default_options =
     Some (False, default_options\<lparr>opt_response_timeout_ms := unsigned_arg arg 10\<rparr>) \<and>
   unsigned_arg ''abc'' 10 = 0 \<and> unsigned_arg ''4294967546'' 10 = 250 \<and>
   parse_options [(CHR ''r'', ''256'')] default_options = None"
proof (intro conjI)
  show "unsigned_arg ''abc'' 10 = 0"
    unfolding unsigned_arg_def
    by (subst no_digits_zero [of "''abc''" "CHR ''a''" "''bc''"]) (simp_all add: c_isspace_def digit_in_def)
  show "unsigned_arg ''4294967546'' 10 = 250"
    by (simp add: unsigned_arg_def strtoul_def strip_prefix_def digit_in_def c_isspace_def Let_def)
  have "unsigned_arg ''256'' 10 = 256"
    by (simp add: unsigned_arg_def strtoul_def strip_prefix_def digit_in_def c_isspace_def Let_def)
  then show "parse_options [(CHR ''r'', ''256'')] default_options = None"
    by (simp add: parse_options_def)
qed (simp add: parse_options_def default_options_def)

end
