(* ===== verification/Sweep.thy ===== *)
theory Sweep
  imports Schedule Link
begin

text \<open>
  The run of \<open>examples/dump_all.cpp\<close>: the terminal, the handlers, \<open>pump\<close>, a probe, a sweep over the
  schedule and the main program after its options are parsed.

  What the program prints is the text \<open>screen\<close>; what it writes to the port is in the session's
  \<open>trace\<close>.  The outside is a parameter: \<open>outside\<close> gives for the k-th reading of the clock the time,
  for the k-th \<open>read\<close> its result, for the k-th look at \<open>g_stop\<close> its value.  The two handlers print
  and count and never call the session, so what they do inside a call of the session is done here
  right after it, in the order in which the trace says they were called.  Error messages to
  \<open>stderr\<close> and sleeping are not modelled; theories Serial and Programs open and close the port.
\<close>

section \<open>The terminal\<close>

record tally =
  responses :: u32
  timeouts :: u32
  errors :: u32
  undecoded :: u32
  this_probe :: u32

record console = tally +
  screen :: string
  line_open :: bool
  tracing :: bool

definition say :: "string \<Rightarrow> console \<Rightarrow> console" where
  "say t c = c\<lparr>screen := screen c @ t\<rparr>"

definition LABEL_W :: nat where [simp]: "LABEL_W = 27"

definition BANNER :: string where
  "BANNER = replicate 80 CHR ''=''"

definition end_line :: "console \<Rightarrow> console" where
  "end_line c = (if line_open c then (say nl c)\<lparr>line_open := False\<rparr> else c)"

definition column :: "data_id \<Rightarrow> string \<Rightarrow> string" where
  "column i label = ''  0x'' @ show_hex i @ ''  '' @ pad_right LABEL_W label @ ''  ''"

definition field :: "data_id \<Rightarrow> string \<Rightarrow> console \<Rightarrow> console" where
  "field i label c = (say (column i label) c)\<lparr>line_open := True\<rparr>"

definition continuation :: "data_id \<Rightarrow> console \<Rightarrow> console" where
  "continuation i c =
    (let c = (if \<not> line_open c then say (column i []) c else c) in c\<lparr>line_open := False\<rparr>)"

definition trace_bytes :: "string \<Rightarrow> u8 list \<Rightarrow> console \<Rightarrow> console" where
  "trace_bytes direction d c =
    (if \<not> tracing c then c
     else say (CONT @ direction @ concat (map (\<lambda>b. '' '' @ show_hex b) d) @ nl) (end_line c))"

definition RULE_W :: nat where [simp]: "RULE_W = 74"

definition rule_line :: "string \<Rightarrow> console \<Rightarrow> console" where
  "rule_line title = say (nl @ ''-- '' @ title @ '' '' @
     replicate (if length title < RULE_W then RULE_W - length title else 0) CHR ''-'' @ nl)"

section \<open>The handlers\<close>

definition ON_TX :: fn_ptr where [simp]: "ON_TX = 1"
definition ON_EVENT :: fn_ptr where [simp]: "ON_EVENT = 2"

definition on_tx :: "message_bytes \<Rightarrow> console \<Rightarrow> console" where
  "on_tx frame = trace_bytes ''->'' frame"

definition dump_event :: "event \<Rightarrow> console \<Rightarrow> console option" where
  "dump_event e c =
    (let c = continuation (event_id e) c; c = c\<lparr>this_probe := this_probe c + 1\<rparr>
     in case kind e of
       RESPONSE \<Rightarrow>
         let c = c\<lparr>responses := responses c + 1\<rparr>
         in (case print_payload e (this_probe c) of
               Printed t \<Rightarrow> Some (say t c)
             | No_printer \<Rightarrow> Some (say (''decoded, but this program has no printer for it'' @ nl)
                 (c\<lparr>undecoded := undecoded c + 1\<rparr>))
             | Undefined \<Rightarrow> None)
     | TIMEOUT \<Rightarrow>
         let c = c\<lparr>timeouts := timeouts c + 1\<rparr>
         in Some (say (''-- no reply ('' @ show_u (ucast (event_retries e) + 1 :: u32) @ '' attempt'' @
              (if event_retries e = 0 then [] else ''s'') @ '')'' @ nl) c)
     | PROTOCOL_ERROR \<Rightarrow>
         let c = c\<lparr>errors := errors c + 1\<rparr>
         in Some (say (''-- protocol error: '' @ error_code_to_string (error e) @ nl) c))"

fun handle_output :: "observable \<Rightarrow> console \<Rightarrow> console option" where
  "handle_output (TX f ctx m) c = Some (if f = ON_TX then on_tx m c else c)"
| "handle_output (EMIT e) c = Some c"
| "handle_output (HANDLER f ctx e) c = (if f = ON_EVENT then dump_event e c else Some c)"

fun handle_outputs :: "observable list \<Rightarrow> console \<Rightarrow> console option" where
  "handle_outputs [] c = Some c"
| "handle_outputs (x # xs) c = handle_output x c \<bind> handle_outputs xs"

section \<open>The outside\<close>

datatype read_result = Got "u8 list" | Would_block | Port_gone

record outside =
  clock :: "nat \<Rightarrow> 64 word \<times> 64 word"
  port :: "nat \<Rightarrow> read_result"
  stop :: "nat \<Rightarrow> bool"

record dump =
  bms :: session
  console :: console
  clocks :: nat
  reads_done :: nat
  stops :: nat

text \<open>Seconds and nanoseconds in milliseconds, modulo \<open>2 ^ 32\<close>.\<close>

definition monotonic_ms :: "64 word \<times> 64 word \<Rightarrow> u32" where
  "monotonic_ms ts = ucast (fst ts * 1000 + snd ts div 1000000)"

definition read_clock :: "outside \<Rightarrow> dump \<Rightarrow> u32 \<times> dump" where
  "read_clock w d = (monotonic_ms (clock w (clocks d)), d\<lparr>clocks := clocks d + 1\<rparr>)"

definition stopped :: "outside \<Rightarrow> dump \<Rightarrow> bool \<times> dump" where
  "stopped w d = (stop w (stops d), d\<lparr>stops := stops d + 1\<rparr>)"

definition on_console :: "(console \<Rightarrow> console) \<Rightarrow> dump \<Rightarrow> dump" where
  "on_console f d = d\<lparr>console := f (console d)\<rparr>"

text \<open>After an operation of the session, the handlers it called.\<close>

definition settle :: "session \<Rightarrow> dump \<Rightarrow> dump option" where
  "settle s d = do {
     c \<leftarrow> handle_outputs (drop (length (trace (bms d))) (trace s)) (console d);
     Some (d\<lparr>bms := s, console := c\<rparr>)
   }"

section \<open>Pumping\<close>

text \<open>\<open>read\<close> yields at most the 128 bytes of its buffer; \<open>false\<close> means the port went away.\<close>

definition dump_pump :: "outside \<Rightarrow> dump \<Rightarrow> (bool \<times> dump) option" where
  "dump_pump w d = do {
     let (t, d) = read_clock w d;
     s \<leftarrow> tick quiet_env t (bms d);
     d \<leftarrow> settle s d;
     let r = port w (reads_done d);
     let d = d\<lparr>reads_done := reads_done d + 1\<rparr>;
     (case r of
        Got bytes \<Rightarrow>
          if take 128 bytes \<noteq> [] then do {
            let d = on_console (trace_bytes ''<-'' (take 128 bytes)) d;
            s \<leftarrow> feed quiet_env (Some (take 128 bytes)) (bms d);
            d \<leftarrow> settle s d;
            Some (True, d)
          }
          else Some (True, d)
      | Would_block \<Rightarrow> Some (True, d)
      | Port_gone \<Rightarrow> Some (False, d))
   }"

definition PROBE_GUARD_MS :: u32 where [simp]: "PROBE_GUARD_MS = 30000"

definition give_up :: "data_id \<Rightarrow> dump \<Rightarrow> dump" where
  "give_up i d =
    (let d = on_console (\<lambda>c. say (''-- gave up after '' @ show_u PROBE_GUARD_MS @ '' ms'' @ nl) (continuation i c)) d
     in d\<lparr>bms := reset (bms d)\<rparr>)"

text \<open>
  The loop of a probe; \<open>False\<close> when the port went away.  It has no bound of its own: \<open>None\<close> when it
  does not end.
\<close>

partial_function (option) probe_loop :: "outside \<Rightarrow> u32 \<Rightarrow> data_id \<Rightarrow> dump \<Rightarrow> (bool \<times> dump) option" where
  "probe_loop w guard i d =
    (if busy (bms d) \<or> pending (bms d) > 0 then
       dump_pump w d \<bind> (\<lambda>(ok, d).
         if \<not> ok then Some (False, on_console (say nl) d)
         else
           let (s, d) = stopped w d
           in if s then Some (True, d)
              else
                let (t, d) = read_clock w d
                in if sint (t - guard) \<ge> 0 then Some (True, give_up i d)
                   else probe_loop w guard i d)
     else Some (True, d))"

declare probe_loop.simps [code]

section \<open>A sweep\<close>

definition close_line :: "outside \<Rightarrow> data_id \<Rightarrow> dump \<Rightarrow> dump" where
  "close_line w i d =
    (if this_probe (console d) = 0 then
       let d = on_console (continuation i) d; (s, d) = stopped w d
       in on_console (say ((if s then ''-- interrupted''
            else if i = FAULT_RECORDS then ''none stored''
            else ''-- no event'') @ nl)) d
     else d)"

definition run_probe :: "outside \<Rightarrow> options \<Rightarrow> probe \<Rightarrow> dump \<Rightarrow> (bool \<times> dump) option" where
  "run_probe w opt p d = do {
     let i = probe_id p;
     let d = (case probe_section p of None \<Rightarrow> d | Some title \<Rightarrow> on_console (rule_line title) d);
     let d = on_console (\<lambda>c. (field i (probe_label i 48) c)\<lparr>this_probe := 0\<rparr>) d;
     (status, s) \<leftarrow> issue i opt (bms d);
     d \<leftarrow> settle s d;
     if status \<noteq> QUEUED then
       Some (True, on_console (\<lambda>c. say (''-- not sent: '' @ queue_status_name status @ nl) (continuation i c)) d)
     else do {
       let (t, d) = read_clock w d;
       (ok, d) \<leftarrow> probe_loop w (t + PROBE_GUARD_MS) i d;
       if \<not> ok then Some (False, d) else Some (True, close_line w i d)
     }
   }"

fun run_sweep :: "outside \<Rightarrow> options \<Rightarrow> probe list \<Rightarrow> dump \<Rightarrow> (bool \<times> dump) option" where
  "run_sweep w opt [] d = Some (True, d)"
| "run_sweep w opt (p # ps) d =
    (let (s, d) = stopped w d
     in if s then Some (True, d)
        else run_probe w opt p d \<bind> (\<lambda>(ok, d). if ok then run_sweep w opt ps d else Some (False, d)))"

section \<open>The main program\<close>

text \<open>The session after its construction and configuration, and the first reading of the clock.\<close>

definition open_session :: "options \<Rightarrow> session" where
  "open_session opt =
    (let s = init_session DEFAULT_QUEUE_CAPACITY (ucast (opt_host_address opt)) BMS_ADDRESS;
         s = set_tx_handler (Some ON_TX) 0 s;
         s = set_event_handler (Some ON_EVENT) 0 s;
         s = set_response_timeout_ms (opt_response_timeout_ms opt) s;
         s = set_interframe_timeout_ms (opt_interframe_timeout_ms opt) s
     in set_max_retries (ucast (opt_retries opt)) s)"

definition start_dump :: "outside \<Rightarrow> options \<Rightarrow> dump option" where
  "start_dump w opt = do {
     let d = \<lparr>bms = open_session opt,
       console = \<lparr>responses = 0, timeouts = 0, errors = 0, undecoded = 0, this_probe = 0,
         screen = [], line_open = False, tracing = opt_trace opt\<rparr>,
       clocks = 0, reads_done = 0, stops = 0\<rparr>;
     let (t, d) = read_clock w d;
     s \<leftarrow> tick quiet_env t (bms d);
     settle s d
   }"

definition heading :: "options \<Rightarrow> u32 \<Rightarrow> nat \<Rightarrow> string" where
  "heading opt sweep probes =
    nl @ BANNER @ nl @ '' HAIDI BMS dump -- '' @ device opt @ '' @ '' @ show_u (baud opt) @
    '' 8N1, host 0x'' @ show_hex0 2 (opt_host_address opt) @ '' -- sweep '' @ show_u sweep @ '', '' @
    show_size probes @ '' commands'' @ nl @ BANNER @ nl"

text \<open>The pause between two sweeps, counted by iterations of two milliseconds.\<close>

partial_function (option) pause_loop :: "outside \<Rightarrow> options \<Rightarrow> u32 \<Rightarrow> dump \<Rightarrow> dump option" where
  "pause_loop w opt waited d =
    (if waited < interval_ms opt then
       let (s, d) = stopped w d
       in if s then Some d
          else dump_pump w d \<bind> (\<lambda>(ok, d). if \<not> ok then Some d else pause_loop w opt (waited + 2) d)
     else Some d)"

definition last_sweep :: "options \<Rightarrow> u32 \<Rightarrow> bool" where
  "last_sweep opt sweep \<longleftrightarrow> sweeps opt \<noteq> 0 \<and> sweep = sweeps opt"

partial_function (option) sweep_loop ::
  "outside \<Rightarrow> options \<Rightarrow> probe list \<Rightarrow> u32 \<Rightarrow> bool \<Rightarrow> dump \<Rightarrow> (bool \<times> dump) option" where
  "sweep_loop w opt ps sweep ok d =
    (if \<not> ok then Some (ok, d)
     else
       let (s, d) = stopped w d
       in if s \<or> \<not> (sweeps opt = 0 \<or> sweep \<le> sweeps opt) then Some (ok, d)
          else
            run_sweep w opt ps (on_console (say (heading opt sweep (length ps))) d) \<bind> (\<lambda>(ok, d).
              if \<not> ok then sweep_loop w opt ps (sweep + 1) ok d
              else
                let (s, d) = stopped w d
                in if s \<or> last_sweep opt sweep then sweep_loop w opt ps (sweep + 1) ok d
                   else pause_loop w opt 0 d \<bind> (\<lambda>d. sweep_loop w opt ps (sweep + 1) ok d)))"

declare pause_loop.simps [code] sweep_loop.simps [code]

definition summary :: "outside \<Rightarrow> dump \<Rightarrow> dump" where
  "summary w d =
    (let d = on_console (rule_line ''Summary'') d;
         d = on_console (\<lambda>c. say (''  '' @ show_u (responses c) @ '' replied, '' @ show_u (timeouts c) @
           '' no reply, '' @ show_u (errors c) @ '' protocol errors, '' @ show_u (undecoded c) @
           '' undecoded, '' @ show_u (discarded_bytes (bms d)) @ '' junk bytes'' @ nl) c) d;
         (s, d) = stopped w d
     in if s then on_console (say (''  interrupted'' @ nl)) d else d)"

text \<open>\<open>main\<close> once the port is open: its exit status and the final state.\<close>

definition main_dump :: "outside \<Rightarrow> options \<Rightarrow> (nat \<times> dump) option" where
  "main_dump w opt = do {
     d \<leftarrow> start_dump w opt;
     ps \<leftarrow> build_schedule opt;
     (ok, d) \<leftarrow> sweep_loop w opt ps 1 True d;
     Some (if ok then 0 else 1, summary w d)
   }"

end
