(* ===== verification/Dump.thy ===== *)
theory Dump
  imports Sweep
begin

text \<open>
  What a run of \<open>examples/dump_all.cpp\<close> guarantees whatever the port delivers: it prints every event
  without reading outside an object, has a printer for every reply, sends nothing but reads of its
  schedule, and ends, as long as the clock runs.
\<close>

section \<open>The handlers\<close>

lemma say_simps [simp]:
  "undecoded (say t c) = undecoded c" "this_probe (say t c) = this_probe c"
  by (simp_all add: say_def)

lemma console_simps [simp]:
  "undecoded (continuation i c) = undecoded c" "undecoded (trace_bytes t d c) = undecoded c"
  "undecoded (end_line c) = undecoded c" "undecoded (field i l c) = undecoded c"
  "undecoded (rule_line t c) = undecoded c" "undecoded (on_tx m c) = undecoded c"
  by (simp_all add: continuation_def trace_bytes_def end_line_def field_def rule_line_def on_tx_def Let_def)

lemma dump_event_prints:
  assumes "good_event e"
  shows "\<exists>c'. dump_event e c = Some c' \<and> undecoded c' = undecoded c"
proof (cases "kind e")
  case RESPONSE
  let ?c = "continuation (event_id e) c"
  from response_printed [OF RESPONSE, of "this_probe ?c + 1"] assms RESPONSE obtain t where
    "print_payload e (this_probe ?c + 1) = Printed t"
    by (auto simp: good_event_def event_wf_def)
  with RESPONSE show ?thesis by (simp add: dump_event_def Let_def)
qed (simp_all add: dump_event_def Let_def)

lemma handle_outputs_print:
  "list_all good_entry xs \<Longrightarrow> \<exists>c'. handle_outputs xs c = Some c' \<and> undecoded c' = undecoded c"
proof (induction xs arbitrary: c)
  case (Cons x xs)
  have "\<exists>c'. handle_output x c = Some c' \<and> undecoded c' = undecoded c"
    using Cons.prems dump_event_prints by (cases x) auto
  then obtain c1 where "handle_output x c = Some c1" "undecoded c1 = undecoded c" by blast
  with Cons.IH [of c1] Cons.prems show ?case by auto
qed simp

section \<open>The session under the dump\<close>

text \<open>What holds of the session at every moment: only requests of \<open>R\<close> wait and have been sent.\<close>

definition asked :: "request set \<Rightarrow> u8 \<Rightarrow> session \<Rightarrow> bool" where
  "asked R host s \<longleftrightarrow> reachable s \<and> host_address s = host \<and> set (pending_requests s) \<subseteq> R \<and>
     (\<forall>f c m. TX f c m \<in> set (trace s) \<longrightarrow> m \<in> wire_of host ` R)"

lemma link_run_waiting:
  "link_run host R l out l' \<Longrightarrow> set (waiting l) \<subseteq> R \<Longrightarrow> set (waiting l') \<subseteq> R"
  by (induction rule: link_run.induct) (auto dest: link_step_waiting)

lemma asked_api:
  assumes "asked R host s" and "api_asks R c" and "api c s = Some s'"
  shows "asked R host s'" and "\<exists>out. trace s' = trace s @ out \<and> list_all good_entry out"
proof -
  from assms(1) have s: "reachable s" "host_address s = host" "set (pending_requests s) \<subseteq> R"
    by (simp_all add: asked_def)
  have r: "reachable s'" using s(1) assms(3) by (rule reachable.use)
  from api_follows [OF reachable_ok [OF s(1)] assms(2, 3)] s(2) obtain out where
    out: "host_address s' = host" "link_run host R (link_of s) out (link_of s')" "trace s' = trace s @ out"
    unfolding follows_def by blast
  have w: "set (waiting (link_of s)) \<subseteq> R" using s(3) by (simp add: link_of_def)
  have "set (pending_requests s') \<subseteq> R" using link_run_waiting [OF out(2) w] by (simp add: link_of_def)
  with r out(1) assms(1) link_run_sends [OF out(2) w] show "asked R host s'"
    unfolding asked_def out(3) by auto
  from traced_entry_good [OF r] show "\<exists>out. trace s' = trace s @ out \<and> list_all good_entry out"
    by (auto simp: out(3) list_all_iff)
qed

definition dump_ok :: "request set \<Rightarrow> u8 \<Rightarrow> dump \<Rightarrow> bool" where
  "dump_ok R host d \<longleftrightarrow> asked R host (bms d) \<and> undecoded (console d) = 0"

lemma dump_ok_hidden [simp]:
  "dump_ok R host (d\<lparr>clocks := n\<rparr>) = dump_ok R host d"
  "dump_ok R host (d\<lparr>reads_done := n\<rparr>) = dump_ok R host d"
  "dump_ok R host (d\<lparr>stops := n\<rparr>) = dump_ok R host d"
  by (simp_all add: dump_ok_def)

lemma dump_ok_console:
  "dump_ok R host d \<Longrightarrow> (\<And>c. undecoded (f c) = undecoded c) \<Longrightarrow> dump_ok R host (on_console f d)"
  by (simp add: dump_ok_def on_console_def)

lemma settle_ok:
  assumes "dump_ok R host d" and "api_asks R c" and "api c (bms d) = Some s"
  shows "\<exists>d'. settle s d = Some d' \<and> dump_ok R host d' \<and> bms d' = s \<and> clocks d' = clocks d"
proof -
  from assms(1) have a: "asked R host (bms d)" "undecoded (console d) = 0" by (simp_all add: dump_ok_def)
  from asked_api(2) [OF a(1) assms(2, 3)] obtain out where
    out: "trace s = trace (bms d) @ out" "list_all good_entry out" by blast
  from handle_outputs_print [OF out(2), of "console d"] a(2) obtain c' where
    "handle_outputs out (console d) = Some c'" "undecoded c' = 0" by auto
  then show ?thesis using asked_api(1) [OF a(1) assms(2, 3)] by (simp add: settle_def out(1) dump_ok_def)
qed

lemma quiet_asks [simp]: "env_asks R quiet_env"
  by (simp add: env_asks_def quiet_env_def)

lemma asked_total: "asked R host s \<Longrightarrow> \<exists>s'. api c s = Some s'"
  using api_ok [OF reachable_ok] unfolding asked_def by blast

lemma dump_api:
  assumes "dump_ok R host d" and "api_asks R c"
  shows "\<exists>s d'. api c (bms d) = Some s \<and> settle s d = Some d' \<and> dump_ok R host d' \<and> bms d' = s \<and>
    clocks d' = clocks d"
proof -
  from assms(1) obtain s where "api c (bms d) = Some s" using asked_total unfolding dump_ok_def by blast
  with settle_ok [OF assms this] show ?thesis by blast
qed

lemma dump_pump_ok:
  assumes "dump_ok R host d"
  shows "\<exists>ok d'. dump_pump w d = Some (ok, d') \<and> dump_ok R host d' \<and> clocks d' = clocks d + 1"
proof -
  let ?d = "d\<lparr>clocks := clocks d + 1\<rparr>" and ?t = "monotonic_ms (clock w (clocks d))"
  from dump_api [of R host ?d "Api_tick quiet_env ?t"] assms obtain s d1 where
    d1: "tick quiet_env ?t (bms d) = Some s" "settle s ?d = Some d1" "dump_ok R host d1"
      "clocks d1 = clocks d + 1" by auto
  show ?thesis
  proof (cases "port w (reads_done d1)")
    case (Got bytes)
    let ?b = "take 128 bytes"
    let ?d2 = "on_console (trace_bytes ''<-'' ?b) (d1\<lparr>reads_done := reads_done d1 + 1\<rparr>)"
    have ok: "dump_ok R host ?d2" using d1(3) by (intro dump_ok_console) simp_all
    have c: "clocks ?d2 = clocks d + 1" using d1(4) by (simp add: on_console_def)
    from dump_api [OF ok, of "Api_feed quiet_env (Some ?b)"] c obtain s' d3 where
      "feed quiet_env (Some ?b) (bms ?d2) = Some s'" "settle s' ?d2 = Some d3" "dump_ok R host d3"
      "clocks d3 = clocks d + 1" by auto
    with d1 Got show ?thesis by (auto simp: dump_pump_def read_clock_def Let_def)
  qed (use d1 in \<open>auto simp: dump_pump_def read_clock_def Let_def\<close>)
qed

section \<open>The loops end\<close>

definition dump_request :: "options \<Rightarrow> request \<Rightarrow> bool" where
  "dump_request opt r \<longleftrightarrow> req_id r \<in> set (scheduled_ids opt) \<and> req_data r = no_data"

text \<open>The clock shows two readings in a row at or past a moment.\<close>

definition passes :: "outside \<Rightarrow> u32 \<Rightarrow> nat \<Rightarrow> bool" where
  "passes w guard k \<longleftrightarrow> sint (monotonic_ms (clock w k) - guard) \<ge> 0 \<and>
     sint (monotonic_ms (clock w (Suc k)) - guard) \<ge> 0"

text \<open>Whenever it is read, the clock later passes that moment by thirty seconds.\<close>

definition clock_runs :: "outside \<Rightarrow> bool" where
  "clock_runs w \<longleftrightarrow> (\<forall>n. \<exists>k > n. passes w (monotonic_ms (clock w n) + PROBE_GUARD_MS) k)"

lemma give_up_ok:
  assumes "dump_ok R host d"
  shows "dump_ok R host (give_up i d)"
proof -
  have "asked R host (reset (bms d))"
    using asked_api(1) [of R host "bms d" "Api_action Reset"] assms by (simp add: dump_ok_def)
  then show ?thesis using assms by (simp add: dump_ok_def give_up_def on_console_def Let_def)
qed

lemma probe_loop_returns:
  assumes "dump_ok R host d" and "passes w guard k" and "clocks d \<le> k"
  shows "\<exists>ok d'. probe_loop w guard i d = Some (ok, d') \<and> dump_ok R host d'"
  using assms
proof (induction "k - clocks d" arbitrary: d rule: less_induct)
  case less
  show ?case
  proof (cases "busy (bms d) \<or> pending (bms d) > 0")
    case True
    from dump_pump_ok [OF less.prems(1)] obtain ok d1 where
      d1: "dump_pump w d = Some (ok, d1)" "dump_ok R host d1" "clocks d1 = clocks d + 1" by blast
    let ?d2 = "d1\<lparr>stops := stops d1 + 1, clocks := clocks d + 2\<rparr>"
    let ?late = "sint (monotonic_ms (clock w (clocks d + 1)) - guard) \<ge> 0"
    have loop: "probe_loop w guard i d =
        (if \<not> ok then Some (False, on_console (say nl) d1)
         else if stop w (stops d1) then Some (True, d1\<lparr>stops := stops d1 + 1\<rparr>)
         else if ?late then Some (True, give_up i ?d2) else probe_loop w guard i ?d2)"
      using True d1 by (subst probe_loop.simps) (simp add: stopped_def read_clock_def Let_def)
    have ok2: "dump_ok R host ?d2" using d1(2) by simp
    have out: "dump_ok R host (on_console (say nl) d1)" by (rule dump_ok_console [OF d1(2)]) simp
    show ?thesis
    proof (cases "\<not> ok \<or> stop w (stops d1) \<or> ?late")
      case True
      then show ?thesis using loop out d1(2) give_up_ok [OF ok2] by auto
    next
      case False
      then have "clocks d \<noteq> k" "clocks d + 1 \<noteq> k" using less.prems(2) by (auto simp: passes_def)
      with less.prems(3) have "clocks ?d2 \<le> k" "k - clocks ?d2 < k - clocks d" by auto
      from less.hyps [OF this(2) ok2 less.prems(2) this(1)] False loop show ?thesis by simp
    qed
  next
    case False
    with less.prems(1) show ?thesis by (subst probe_loop.simps) auto
  qed
qed

lemma close_line_ok: "dump_ok R host d \<Longrightarrow> dump_ok R host (close_line w i d)"
  by (auto simp: close_line_def stopped_def Let_def intro!: dump_ok_console)

lemma scheduled_call:
  assumes "i \<in> set (scheduled_ids opt)"
  shows "\<exists>c. probe_call i opt = Some c \<and> req_id (call_request c) = i \<and> req_data (call_request c) = no_data \<and>
    on_event (call_request c) = None"
proof (cases "is_alarm_threshold_id i")
  case True
  with alarm_id_cases [OF True] show ?thesis
    by (simp add: probe_call_def request.make_def)
next
  case False
  then have "i \<in> set (identification_ids @ telemetry_ids @ configuration_ids @ [FAULT_RECORDS])"
    using assms set_threshold_ids by (auto simp: scheduled_ids_def split: if_splits)
  then show ?thesis
    by (simp add: identification_ids_def telemetry_ids_def configuration_ids_def, elim disjE)
      (simp_all add: probe_call_def numeral_in_block request.make_def)
qed

lemma run_probe_returns:
  assumes "dump_ok (Collect (dump_request opt)) host d" and "probe_id p \<in> set (scheduled_ids opt)"
    and "clock_runs w"
  shows "\<exists>ok d'. run_probe w opt p d = Some (ok, d') \<and> dump_ok (Collect (dump_request opt)) host d'"
proof -
  let ?R = "Collect (dump_request opt)" and ?i = "probe_id p"
  define d0 where "d0 = on_console (\<lambda>c. (field ?i (probe_label ?i 48) c)\<lparr>this_probe := 0\<rparr>)
    (case probe_section p of None \<Rightarrow> d | Some title \<Rightarrow> on_console (rule_line title) d)"
  have d0: "dump_ok ?R host d0"
    unfolding d0_def using assms(1) by (intro dump_ok_console) (auto intro: dump_ok_console split: option.split)
  from scheduled_call [OF assms(2)] obtain c where
    c: "probe_call ?i opt = Some c" "call_request c \<in> ?R"
    using assms(2) by (auto simp: dump_request_def)
  from dump_api [OF d0, of "Api_call c"] c(2) obtain s d1 where
    d1: "map_option snd (do_call c (bms d0)) = Some s" "settle s d0 = Some d1" "dump_ok ?R host d1" by auto
  then obtain st where st: "issue ?i opt (bms d0) = Some (st, s)" by (auto simp: issue_def c(1))
  let ?d2 = "d1\<lparr>clocks := clocks d1 + 1\<rparr>" and ?g = "monotonic_ms (clock w (clocks d1)) + PROBE_GUARD_MS"
  from assms(3) obtain k where k: "clocks d1 < k" "passes w ?g k" unfolding clock_runs_def by blast
  have "dump_ok ?R host ?d2" using d1(3) by simp
  from probe_loop_returns [OF this k(2), of ?i] k(1) obtain ok d3 where
    d3: "probe_loop w ?g ?i ?d2 = Some (ok, d3)" "dump_ok ?R host d3" by auto
  have run: "run_probe w opt p d =
      (if st \<noteq> QUEUED then Some (True, on_console (\<lambda>c. say (''-- not sent: '' @ queue_status_name st @ nl)
          (continuation ?i c)) d1)
       else if \<not> ok then Some (False, d3) else Some (True, close_line w ?i d3))"
    using st d1(2) d3(1) unfolding run_probe_def d0_def [symmetric] Let_def
    by (simp add: read_clock_def)
  have "dump_ok ?R host (on_console (\<lambda>c. say t (continuation ?i c)) d1)" for t
    by (rule dump_ok_console [OF d1(3)]) simp
  with run d3(2) close_line_ok [OF d3(2)] show ?thesis by auto
qed

lemma run_sweep_returns:
  assumes "dump_ok (Collect (dump_request opt)) host d" and "set (map probe_id ps) \<subseteq> set (scheduled_ids opt)"
    and "clock_runs w"
  shows "\<exists>ok d'. run_sweep w opt ps d = Some (ok, d') \<and> dump_ok (Collect (dump_request opt)) host d'"
  using assms(1, 2)
proof (induction ps arbitrary: d)
  case (Cons p ps)
  let ?d = "d\<lparr>stops := stops d + 1\<rparr>"
  have "dump_ok (Collect (dump_request opt)) host ?d" using Cons.prems(1) by simp
  from run_probe_returns [OF this _ assms(3), of p] Cons.prems(2) obtain ok d1 where
    d1: "run_probe w opt p ?d = Some (ok, d1)" "dump_ok (Collect (dump_request opt)) host d1" by auto
  with Cons.IH [OF d1(2)] Cons.prems show ?case by (auto simp: stopped_def)
qed auto

section \<open>The main program\<close>

lemma unat_plus_u32: "unat x + unat y < 2 ^ 32 \<Longrightarrow> unat (x + y :: u32) = unat x + unat y"
  by (simp add: unat_add_lem [THEN iffD1])

lemma below_top: "(x :: u32) \<noteq> - 1 \<Longrightarrow> unat x < 4294967295"
proof -
  assume "x \<noteq> - 1"
  moreover have "unat (- 1 :: u32) = 4294967295"
    by (simp add: unsigned_minus_1_eq_mask mask_eq_exp_minus_1)
  ultimately have "unat x \<noteq> 4294967295" by (metis word_unat_eq_iff)
  moreover have "unat x < 4294967296" using unsigned_less [of x] by simp
  ultimately show ?thesis by simp
qed

lemma pause_loop_returns:
  assumes "dump_ok R host d" and "interval_ms opt \<noteq> - 1" and "unat waited \<le> unat (interval_ms opt) + 1"
  shows "\<exists>d'. pause_loop w opt waited d = Some d' \<and> dump_ok R host d'"
  using assms(1, 3)
proof (induction "unat (interval_ms opt) + 2 - unat waited" arbitrary: waited d rule: less_induct)
  case less
  show ?case
  proof (cases "waited < interval_ms opt")
    case True
    let ?d = "d\<lparr>stops := stops d + 1\<rparr>"
    have lt: "unat waited < unat (interval_ms opt)" using True by (simp add: word_less_nat_alt)
    have two: "unat (waited + 2) = unat waited + 2"
      using lt below_top [OF assms(2)] by (subst unat_plus_u32) simp_all
    have "dump_ok R host ?d" using less.prems(1) by simp
    from dump_pump_ok [OF this] obtain ok d1 where
      d1: "dump_pump w ?d = Some (ok, d1)" "dump_ok R host d1" by blast
    have "unat (interval_ms opt) + 2 - unat (waited + 2) < unat (interval_ms opt) + 2 - unat waited"
      "unat (waited + 2) \<le> unat (interval_ms opt) + 1" using lt two by simp_all
    from less.hyps [OF this(1) d1(2) this(2)] d1 True less.prems(1) show ?thesis
      by (subst pause_loop.simps) (auto simp: stopped_def)
  next
    case False
    with less.prems(1) show ?thesis by (subst pause_loop.simps) auto
  qed
qed

lemma sweep_loop_returns:
  assumes "dump_ok (Collect (dump_request opt)) host d" and "set (map probe_id ps) \<subseteq> set (scheduled_ids opt)"
    and "clock_runs w" and "interval_ms opt \<noteq> - 1" and "sweeps opt \<noteq> 0" and "sweeps opt \<noteq> - 1"
    and "unat sweep \<le> unat (sweeps opt) + 1"
  shows "\<exists>ok' d'. sweep_loop w opt ps sweep ok d = Some (ok', d') \<and> dump_ok (Collect (dump_request opt)) host d'"
  using assms(1, 7)
proof (induction "unat (sweeps opt) + 1 - unat sweep" arbitrary: sweep ok d rule: less_induct)
  case less
  let ?ok = "dump_ok (Collect (dump_request opt)) host"
  let ?d = "d\<lparr>stops := stops d + 1\<rparr>"
  show ?case
  proof (cases "ok \<and> \<not> stop w (stops d) \<and> sweep \<le> sweeps opt")
    case True
    have le: "unat sweep \<le> unat (sweeps opt)" using True by (simp add: word_le_nat_alt)
    have one: "unat (sweep + 1) = unat sweep + 1"
      using le below_top [OF assms(6)] by (subst unat_plus_u32) simp_all
    have again: "\<exists>ok' d'. sweep_loop w opt ps (sweep + 1) ok d = Some (ok', d') \<and> ?ok d'"
      if "?ok d" for ok d
      using less.hyps [of "sweep + 1" d ok] that le one by simp
    let ?d1 = "on_console (say (heading opt sweep (length ps))) ?d"
    have "?ok ?d1" using less.prems(1) by (intro dump_ok_console) simp_all
    from run_sweep_returns [OF this assms(2, 3)] obtain ok2 d2 where
      d2: "run_sweep w opt ps ?d1 = Some (ok2, d2)" "?ok d2" by blast
    let ?d3 = "d2\<lparr>stops := stops d2 + 1\<rparr>"
    have d3: "?ok ?d3" using d2(2) by simp
    from pause_loop_returns [OF this assms(4), of 0 w] obtain d4 where
      d4: "pause_loop w opt 0 ?d3 = Some d4" "?ok d4" by auto
    have "sweep_loop w opt ps sweep ok d =
        (if \<not> ok2 then sweep_loop w opt ps (sweep + 1) ok2 d2
         else if stop w (stops d2) \<or> last_sweep opt sweep then sweep_loop w opt ps (sweep + 1) ok2 ?d3
         else sweep_loop w opt ps (sweep + 1) ok2 d4)"
      using True d2(1) d4(1) by (subst sweep_loop.simps) (simp add: stopped_def Let_def)
    with again [OF d2(2), of ok2] again [OF d3, of ok2] again [OF d4(2), of ok2] show ?thesis by auto
  next
    case False
    with less.prems(1) assms(5) show ?thesis
      by (subst sweep_loop.simps) (auto simp: stopped_def Let_def)
  qed
qed

lemma asked_actions:
  "asked R host s \<Longrightarrow> asked R host (do_action a s)"
  using asked_api(1) [of R host s "Api_action a"] by simp

lemma open_session_asked: "asked R (ucast (opt_host_address opt)) (open_session opt)"
proof -
  let ?s = "init_session DEFAULT_QUEUE_CAPACITY (ucast (opt_host_address opt)) BMS_ADDRESS"
  have "reachable ?s" by (rule reachable.construct) simp
  then have "asked R (ucast (opt_host_address opt)) ?s"
    by (simp add: asked_def init_session_def pending_requests_def)
  note a = asked_actions [OF this]
  show ?thesis unfolding open_session_def Let_def
    using asked_actions [OF asked_actions [OF asked_actions [OF asked_actions [OF a [of "Set_tx_handler (Some ON_TX) 0"],
      of "Set_event_handler (Some ON_EVENT) 0"], of "Set_response_timeout_ms (opt_response_timeout_ms opt)"],
      of "Set_interframe_timeout_ms (opt_interframe_timeout_ms opt)"], of "Set_max_retries (ucast (opt_retries opt))"]
    by simp
qed

lemma start_dump_ok: "\<exists>d. start_dump w opt = Some d \<and> dump_ok R (ucast (opt_host_address opt)) d"
proof -
  define d0 where "d0 = \<lparr>bms = open_session opt,
       console = \<lparr>responses = 0, timeouts = 0, errors = 0, undecoded = 0, this_probe = 0,
         screen = [], line_open = False, tracing = opt_trace opt\<rparr>,
       clocks = 1, reads_done = 0, stops = 0\<rparr>"
  have "dump_ok R (ucast (opt_host_address opt)) d0"
    using open_session_asked by (simp add: dump_ok_def d0_def)
  from dump_api [OF this, of "Api_tick quiet_env (monotonic_ms (clock w 0))"] show ?thesis
    by (auto simp: start_dump_def d0_def read_clock_def Let_def)
qed

lemma main_dump_returns:
  assumes "clock_runs w" and "interval_ms opt \<noteq> - 1" and "sweeps opt \<noteq> 0" and "sweeps opt \<noteq> - 1"
  shows "\<exists>code d. main_dump w opt = Some (code, d) \<and>
    dump_ok (Collect (dump_request opt)) (ucast (opt_host_address opt)) d"
proof -
  let ?ok = "dump_ok (Collect (dump_request opt)) (ucast (opt_host_address opt))"
  from start_dump_ok obtain d0 where d0: "start_dump w opt = Some d0" "?ok d0" by blast
  from scheduled obtain ps where ps: "build_schedule opt = Some ps" "map probe_id ps = scheduled_ids opt"
    by blast
  have "unat (1 :: u32) \<le> unat (sweeps opt) + 1" by simp
  from sweep_loop_returns [OF d0(2) _ assms(1, 2, 3, 4) this, of ps True] ps(2) obtain ok d1 where
    d1: "sweep_loop w opt ps 1 True d0 = Some (ok, d1)" "?ok d1" by auto
  have "?ok (summary w d1)"
    using d1(2) by (auto simp: summary_def stopped_def Let_def intro!: dump_ok_console)
  with d0(1) ps(1) d1(1) show ?thesis by (simp add: main_dump_def)
qed

section \<open>Properties\<close>

lemma u32_of_u64: "(ucast (of_nat m :: 64 word) :: u32) = of_nat m"
  by (simp add: word_of_nat_eq_iff unsigned_of_nat)

lemma seconds_clock: "monotonic_ms (of_nat n, 0) = of_nat (n * 1000)"
proof -
  have "(of_nat n :: 64 word) * 1000 + 0 div 1000000 = of_nat (n * 1000)" by simp
  then show ?thesis unfolding monotonic_ms_def fst_conv snd_conv by (simp only: u32_of_u64)
qed

definition silent_port :: outside where
  "silent_port = \<lparr>clock = \<lambda>k. (of_nat k, 0), port = \<lambda>k. Would_block, stop = \<lambda>k. False\<rparr>"

lemma silent_port_runs: "clock_runs silent_port"
proof -
  have "passes silent_port (monotonic_ms (clock silent_port n) + PROBE_GUARD_MS) (n + 30)" for n
  proof -
    have a: "(of_nat ((n + 30) * 1000) :: u32) - (of_nat (n * 1000) + 30000) = 0"
      by (simp add: algebra_simps)
    have b: "(of_nat ((Suc (n + 30)) * 1000) :: u32) - (of_nat (n * 1000) + 30000) = 1000"
      by (simp add: algebra_simps)
    show ?thesis unfolding passes_def silent_port_def outside.simps seconds_clock PROBE_GUARD_MS_def a b
      by simp
  qed
  then show ?thesis unfolding clock_runs_def by (metis less_add_same_cancel1 zero_less_numeral)
qed



text \<open>
  A probe goes out as soon as it is issued.  On a session that is wired and has nothing to
  do, issuing any probe of the schedule is accepted and puts exactly that command's frame on the
  wire.
\<close>

lemma scheduled_probe_is_sent:
  assumes "reachable s" and "\<not> busy s" and "pending s = 0" and "tx_fn s = Some f"
    and "i \<in> set (scheduled_ids opt)"
  shows "\<exists>s'. issue i opt s = Some (QUEUED, s') \<and> reachable s' \<and> in_flight s' = Some i \<and>
    trace s' = trace s @ [TX f (tx_ctx s) (encode (host_address s) i (replicate DATA_LEN 0))]"
proof -
  from scheduled_call [OF assms(5)] obtain c where
    c: "probe_call i opt = Some c" "req_id (call_request c) = i" "req_data (call_request c) = no_data" by blast
  have known: "is_known_data_id i" using assms(5) set_scheduled [of opt] by auto
  from reachable_ok [OF assms(1)] have ok: "queue_ok s" "\<not> dispatching s"
    using session_okD(1) by (auto simp: session_idle_ok_def)
  have adm: "admissible_request (call_request c)"
    using call_request_data [of c] known c(2) by (simp add: admissible_request_def)
  have "queue_count s < QUEUE_CAPACITY s" using ok(1) assms(3) by (simp add: queue_ok_def pending_def)
  from enqueue_accepted [OF ok(1) adm _ this] assms(4) obtain q s1 where
    s1: "s1 = s\<lparr>queue := q, queue_count := queue_count s + 1\<rparr>"
      "pending_requests s1 = pending_requests s @ [call_request c]"
      "enqueue (call_request c) s = Some (QUEUED, if state s = IDLE \<and> \<not> dispatching s
        then started (hd (pending_requests s @ [call_request c])) s1 else s1)" by blast
  have idle: "state s = IDLE" using assms(2) by (simp add: busy_def)
  have nil: "pending_requests s = []" using assms(3) by (simp add: pending_def pending_requests_def)
  let ?s' = "started (call_request c) s1"
  have call: "do_call c s = Some (QUEUED, ?s')" using s1(3) idle ok(2) nil by (simp add: do_call_enqueue)
  have r: "reachable ?s'" using reachable.use [OF assms(1), of "Api_call c"] call by simp
  have tr: "trace ?s' = trace s @ [TX f (tx_ctx s) (encode (host_address s) i (replicate DATA_LEN 0))]"
    using assms(4) c(2, 3) by (simp add: started_def s1(1) tx_outputs_def request_frame_def no_data_def)
  have "in_flight ?s' = Some i"
  proof -
    have "session_ok ?s'" using reachable_ok [OF r] by (simp add: session_idle_ok_def)
    moreover have st: "state ?s' = AWAITING" by (simp add: started_def)
    moreover have "pending_requests ?s' = [call_request c]" using s1(2) nil by simp
    ultimately have "head ?s' = Some (call_request c)" "queue_count ?s' \<noteq> 0"
      using session_okD(3, 4) [of ?s'] by simp_all
    with st c(2) show ?thesis by (simp add: in_flight_def)
  qed
  with call c(1) r tr show ?thesis by (simp add: issue_def)
qed

lemma scheduled_probe_is_sent_witness:
  "\<exists>s'. issue 0x70 default_options (open_session default_options) = Some (QUEUED, s') \<and>
    in_flight s' = Some 0x70"
proof -
  have "reachable (open_session default_options)"
    using open_session_asked [of UNIV default_options] by (simp add: asked_def)
  moreover have "\<not> busy (open_session default_options)" "pending (open_session default_options) = 0"
    "tx_fn (open_session default_options) = Some 1" "0x70 \<in> set (scheduled_ids default_options)"
    by (simp_all add: open_session_def busy_def pending_def init_session_def set_tx_handler_def
        set_event_handler_def set_response_timeout_ms_def set_interframe_timeout_ms_def
        set_max_retries_def Let_def scheduled_ids_def threshold_ids_eq default_options_def)
  ultimately show ?thesis
    using scheduled_probe_is_sent [of "open_session default_options" 1 "0x70" default_options] by blast
qed

lemma scheduled_subset: "set (scheduled_ids opt) \<subseteq> set (scheduled_ids default_options)"
  by (auto simp: scheduled_ids_def default_options_def)

lemma length_column: "length label \<le> LABEL_W \<Longrightarrow> length (column i label) = length CONT"
  by (simp add: column_def show_hex_def pad_right_def CONT_def)

text \<open>
  The columns of the dump line up and its labels tell the probes apart.  For every probe of
  any schedule the label fits its buffer and its column, so the line's prefix is as wide as the
  indentation of a continuation line; and no two probes have the same label.
\<close>

lemma labels_identify_probes:
  "(\<forall>i \<in> set (scheduled_ids opt). length (column i (probe_label i 48)) = length CONT) \<and>
   inj_on (\<lambda>i. probe_label i 48) (set (scheduled_ids opt))"
proof -
  have "inj_on (\<lambda>i. probe_label i 48) (set (scheduled_ids default_options))"
    using labels_checked by (simp add: distinct_map)
  then have "inj_on (\<lambda>i. probe_label i 48) (set (scheduled_ids opt))"
    by (rule inj_on_subset [OF _ scheduled_subset])
  moreover have "length (column i (probe_label i 48)) = length CONT" if "i \<in> set (scheduled_ids opt)" for i
    using labels_checked scheduled_subset [of opt] that
    by (intro length_column) (auto simp: list_all_iff)
  ultimately show ?thesis by blast
qed

lemma labels_identify_probes_witness:
  "length (column 0x72 (probe_label 0x72 48)) = 37"
proof -
  have "0x72 \<in> set (scheduled_ids default_options)"
    by (simp add: scheduled_ids_def threshold_ids_eq default_options_def)
  then show ?thesis using labels_identify_probes [of default_options] by (simp add: CONT_def)
qed

text \<open>
  C16: what the dump prints is what the pack said.  Whatever session it comes from, with whatever
  handlers, every response can be printed without undefined behaviour.
\<close>

theorem every_response_prints:
  assumes "reachable s" and "EMIT e \<in> set (trace s)" and "kind e = RESPONSE"
  shows "\<exists>t. print_payload e ordinal = Printed t"
proof -
  have "good_event e" using traced_entry_good [OF assms(1, 2)] by simp
  then show ?thesis using response_printed [OF assms(3)] assms(3)
    by (simp add: good_event_def event_wf_def)
qed

definition replied_run :: "session option" where
  "replied_run = run_from_start [Api_call (Poll_battery_status None 0),
     Api_feed quiet_env (Some (let m = [0xA5, 0x01, 0x9A, 0x08, 0x03, 0xDE, 0, 0, 0, 0, 0, 0] in m @ [sum_list m]))]"

definition soh_event :: event where
  "soh_event = default_event\<lparr>event_id := BATTERY_STATUS, frames := 1,
     payload := P_battery_status (battery_status.make 990)\<rparr>"

lemma replied_run_trace: "map_option (\<lambda>s. last (trace s)) replied_run = Some (EMIT soh_event)"
  by code_simp

theorem every_response_prints_witness:
  "\<exists>t. print_payload soh_event 1 = Printed t"
proof -
  obtain s where s: "replied_run = Some s" "reachable s"
    using run_from_start_reachable unfolding replied_run_def by blast
  have l: "last (trace s) = EMIT soh_event" using replied_run_trace unfolding s(1) by simp
  have "trace s \<noteq> []"
  proof
    assume "trace s = []"
    moreover have "map_option (\<lambda>s. trace s = []) replied_run = Some False" by code_simp
    ultimately show False unfolding s(1) by simp
  qed
  then have "EMIT soh_event \<in> set (trace s)" using l by (metis last_in_set)
  from every_response_prints [OF s(2) this, of 1] show ?thesis by (simp add: soh_event_def default_event_def)
qed

text \<open>A clock that shows 31 seconds more at every reading, and a pack that never answers.\<close>

definition slow_port :: outside where
  "slow_port = \<lparr>clock = \<lambda>k. (of_nat (k * 31), 0), port = \<lambda>k. Would_block, stop = \<lambda>k. False\<rparr>"

definition patient_options :: options where
  "patient_options = default_options\<lparr>opt_response_timeout_ms := 40000, opt_retries := 3\<rparr>"

definition abandoned_probe :: "(bool \<times> dump) option" where
  "abandoned_probe = do {
     d \<leftarrow> start_dump slow_port patient_options;
     run_probe slow_port patient_options \<lparr>probe_section = None, probe_id = FAULT_RECORDS\<rparr> d
   }"

text \<open>
  An abandoned read of the fault records is reported as an empty log.  With a response
  timeout of 40 seconds, three retries and a pack that does not answer, the guard of 30 seconds ends
  the probe of the fault records after two of its four transmissions, and the program prints that
  it gave up and, below it, "none stored".
\<close>

lemma abandoned_probe_says_none_stored:
  "map_option (\<lambda>(ok, d). (ok, trace (bms d), screen (console d))) abandoned_probe =
   Some (True, replicate 2 (TX ON_TX 0 (encode HOST_COMP FAULT_RECORDS (replicate DATA_LEN 0))),
     column FAULT_RECORDS ''fault records'' @ ''-- gave up after 30000 ms'' @ nl @
     column FAULT_RECORDS [] @ ''none stored'' @ nl)"
  by code_simp

end
