(* ===== verification/PollLoop.thy ===== *)
theory PollLoop
  imports Dump
begin

text \<open>
  The monitoring example \<open>examples/poll_loop.cpp\<close>: its two handlers, its printer, its main loop one
  iteration at a time, and the proof that it runs for ever without a fault and only reads.

  The outside is that of theory Sweep (this program never looks at a stop flag).  The endless loop
  is \<open>poll_run\<close>, a given number of iterations; it ends early only when the port goes away.
\<close>

section \<open>The printer\<close>

definition poll_faults :: "fault_status \<Rightarrow> string option" where
  "poll_faults p =
    (if any_fault p \<or> fault_status_code p \<noteq> 0 then do {
       b0 \<leftarrow> rd (fault_status.bits p) 0;
       b1 \<leftarrow> rd (fault_status.bits p) 1;
       b2 \<leftarrow> rd (fault_status.bits p) 2;
       b3 \<leftarrow> rd (fault_status.bits p) 3;
       b4 \<leftarrow> rd (fault_status.bits p) 4;
       b5 \<leftarrow> rd (fault_status.bits p) 5;
       b6 \<leftarrow> rd (fault_status.bits p) 6;
       Some (''  FAULT     '' @ show_hex b0 @ '' '' @ show_hex b1 @ '' '' @ show_hex b2 @ '' '' @
         show_hex b3 @ '' '' @ show_hex b4 @ '' '' @ show_hex b5 @ '' '' @ show_hex b6 @ ''  code '' @
         show_u (fault_status_code p) @ nl)
     }
     else Some (''  faults    none'' @ nl))"

definition poll_mos :: "charge_discharge_mos_status \<Rightarrow> string option" where
  "poll_mos p = do {
     name \<leftarrow> (if charge_discharge_mos_status.mos_state p < 3
       then rd [''idle'', ''charging'', ''discharging''] (unat (charge_discharge_mos_status.mos_state p))
       else Some ''?'');
     Some (''  mos       '' @ name @ ''  chg '' @ show_u (charge_discharge_mos_status.charge_mos_state p) @
       ''  dsg '' @ show_u (charge_discharge_mos_status.discharge_mos_state p) @ ''  remaining '' @
       show_u (charge_discharge_mos_status.remaining_capacity_mah p) @ '' mAh  life '' @
       show_u (charge_discharge_mos_status.bms_life p) @ nl)
   }"

definition poll_cells :: "cell_voltages \<Rightarrow> string option" where
  "poll_cells p = do {
     t \<leftarrow> for_loop [0..<unat (cell_voltages.count p)]
       (\<lambda>i t. do { v \<leftarrow> rd (cell_voltages.mv p) i; Some (t @ '' '' @ show_u v) })
       (''  '' @ show_u (cell_voltages.count p) @ '' cell voltages:'');
     Some (t @ nl)
   }"

definition poll_pack :: "total_voltage_current_soc \<Rightarrow> string" where
  "poll_pack p =
    ''  pack      '' @ pad_left 6 CHR '' '' (show_fixed 1 (uint (total_voltage_current_soc.cumulative_voltage_dv p)) 10) @
    '' V  '' @ pad_left 7 CHR '' '' (show_fixed 1 (sint (total_voltage_current_soc.current_da p)) 10) @
    '' A  SOC '' @ pad_left 5 CHR '' '' (show_fixed 1 (uint (total_voltage_current_soc.soc_pm p)) 10) @ '' %'' @ nl"

definition poll_voltages :: "cell_voltage_extremes \<Rightarrow> string" where
  "poll_voltages p =
    ''  cells     high '' @ show_u (cell_voltage_extremes.highest_mv p) @ '' mV (#'' @
    show_u (cell_voltage_extremes.highest_cell_number p) @ '')  low '' @
    show_u (cell_voltage_extremes.lowest_mv p) @ '' mV (#'' @
    show_u (cell_voltage_extremes.lowest_cell_number p) @ '')  spread '' @
    show_int (uint (cell_voltage_extremes.highest_mv p) - uint (cell_voltage_extremes.lowest_mv p)) @
    '' mV'' @ nl"

definition poll_temperatures :: "cell_temperature_extremes \<Rightarrow> string" where
  "poll_temperatures p =
    ''  temps     high '' @ show_d (cell_temperature_extremes.highest_c p) @ '' C (#'' @
    show_u (cell_temperature_extremes.highest_cell_number p) @ '')  low '' @
    show_d (cell_temperature_extremes.lowest_c p) @ '' C (#'' @
    show_u (cell_temperature_extremes.lowest_cell_number p) @ '')'' @ nl"

definition poll_status :: "status_info \<Rightarrow> string" where
  "poll_status p =
    ''  status    '' @ show_u (status_info.series_count p) @ '' cells  '' @
    show_u (status_info.temp_sensor_count p) @ '' sensors  charger '' @
    yes_no (status_info.charger_connected p) @ ''  load '' @
    yes_no (status_info.load_connected p) @ ''  '' @ show_u (status_info.cycle_count p) @ '' cycles  '' @
    show_d (status_info.onboard_temp_c p) @ '' C'' @ nl"

definition poll_health :: "battery_status \<Rightarrow> string" where
  "poll_health p = ''  health    SOH '' @ show_fixed 1 (uint (battery_status.soh_pm p)) 10 @ '' %'' @ nl"

definition poll_design :: "capacity_voltage \<Rightarrow> string" where
  "poll_design p =
    ''  design    '' @ show_u (capacity_voltage.capacity_mah p) @ '' mAh  '' @
    show_u (capacity_voltage.voltage_mv p) @ '' mV'' @ nl"

definition print_response :: "event \<Rightarrow> printed" where
  "print_response e =
    (print_via (as_total_voltage_current_soc e) (Some \<circ> poll_pack) \<circ>
     print_via (as_cell_voltage_extremes e) (Some \<circ> poll_voltages) \<circ>
     print_via (as_cell_temperature_extremes e) (Some \<circ> poll_temperatures) \<circ>
     print_via (as_charge_discharge_mos e) poll_mos \<circ>
     print_via (as_status_info e) (Some \<circ> poll_status) \<circ>
     print_via (as_fault_status e) poll_faults \<circ>
     print_via (as_battery_status e) (Some \<circ> poll_health) \<circ>
     print_via (as_capacity_voltage e) (Some \<circ> poll_design) \<circ>
     print_via (as_cell_voltages e) poll_cells)
    (Printed (''  '' @ data_id_to_string (event_id e) @ '': decoded, no printer'' @ nl))"

section \<open>The handlers\<close>

record identification =
  id_capacity_mah :: u32
  id_cells :: u8
  id_sensors :: u8

record monitor =
  poll_bms :: session
  shown :: string
  startup :: identification
  next_sweep :: u32
  poll_clocks :: nat
  poll_reads :: nat

definition ON_IDENTIFIED :: fn_ptr where [simp]: "ON_IDENTIFIED = 3"

definition show_text :: "string \<Rightarrow> monitor \<Rightarrow> monitor" where
  "show_text t m = m\<lparr>shown := shown m @ t\<rparr>"

text \<open>
  The two accessors of the per-request handler; a pointer to an inactive member would be undefined
  behaviour.
\<close>

definition identify :: "event \<Rightarrow> identification \<Rightarrow> identification option" where
  "identify e x =
    (case as_capacity_voltage e of
       Ptr p \<Rightarrow> Some (x\<lparr>id_capacity_mah := capacity_voltage.capacity_mah p\<rparr>)
     | Inactive_member \<Rightarrow> None
     | Nullptr \<Rightarrow>
         (case as_status_info e of
            Ptr p \<Rightarrow> Some (x\<lparr>id_cells := status_info.series_count p,
              id_sensors := status_info.temp_sensor_count p\<rparr>)
          | Inactive_member \<Rightarrow> None
          | Nullptr \<Rightarrow> Some x))"

definition on_identified :: "event \<Rightarrow> monitor \<Rightarrow> monitor option" where
  "on_identified e m =
    (if kind e \<noteq> RESPONSE then Some m
     else do {
       x \<leftarrow> identify e (startup m);
       let m = m\<lparr>startup := x\<rparr>;
       Some (if id_capacity_mah x \<noteq> 0 \<and> id_cells x \<noteq> 0
         then show_text (''identified: '' @ show_u (id_capacity_mah x) @ '' mAh, '' @ show_u (id_cells x) @
           '' cells, '' @ show_u (id_sensors x) @ '' sensors'' @ nl) m
         else m)
     })"

definition poll_event :: "event \<Rightarrow> monitor \<Rightarrow> monitor option" where
  "poll_event e m =
    (case kind e of
       RESPONSE \<Rightarrow> (case print_response e of
           Printed t \<Rightarrow> Some (show_text t m) | No_printer \<Rightarrow> Some m | Undefined \<Rightarrow> None)
     | TIMEOUT \<Rightarrow> Some (show_text (''  '' @ pad_right 26 (data_id_to_string (event_id e)) @
         '' timeout after '' @ show_u (event_retries e) @ '' retries'' @ nl) m)
     | PROTOCOL_ERROR \<Rightarrow> Some (show_text (''  '' @ pad_right 26 (data_id_to_string (event_id e)) @
         '' error: '' @ error_code_to_string (error e) @ nl) m))"

fun poll_output :: "observable \<Rightarrow> monitor \<Rightarrow> monitor option" where
  "poll_output (TX f ctx x) m = Some m"
| "poll_output (EMIT e) m = Some m"
| "poll_output (HANDLER f ctx e) m =
    (if f = ON_IDENTIFIED then on_identified e m else if f = ON_EVENT then poll_event e m else Some m)"

fun poll_outputs :: "observable list \<Rightarrow> monitor \<Rightarrow> monitor option" where
  "poll_outputs [] m = Some m"
| "poll_outputs (x # xs) m = poll_output x m \<bind> poll_outputs xs"

definition poll_settle :: "session \<Rightarrow> monitor \<Rightarrow> monitor option" where
  "poll_settle s m = do {
     m' \<leftarrow> poll_outputs (drop (length (trace (poll_bms m))) (trace s)) m;
     Some (m'\<lparr>poll_bms := s\<rparr>)
   }"

section \<open>The main loop\<close>

definition now_reading :: "outside \<Rightarrow> monitor \<Rightarrow> u32 \<times> monitor" where
  "now_reading w m = (monotonic_ms (clock w (poll_clocks m)), m\<lparr>poll_clocks := poll_clocks m + 1\<rparr>)"

definition ask_for :: "call \<Rightarrow> monitor \<Rightarrow> monitor option" where
  "ask_for c m = do {
     (st, s) \<leftarrow> do_call c (poll_bms m);
     poll_settle s m
   }"

fun ask_all :: "call list \<Rightarrow> monitor \<Rightarrow> monitor option" where
  "ask_all [] m = Some m"
| "ask_all (c # cs) m = ask_for c m \<bind> ask_all cs"

definition startup_calls :: "call list" where
  "startup_calls = [Poll_capacity_voltage (Some ON_IDENTIFIED) 1, Poll_status_info (Some ON_IDENTIFIED) 1]"

definition sweep_calls :: "call list" where
  "sweep_calls =
    [Poll_total_voltage_current_soc None 0, Poll_cell_voltage_extremes None 0,
     Poll_cell_temperature_extremes None 0, Poll_charge_discharge_mos_status None 0,
     Poll_status_info None 0, Poll_fault_status None 0, Poll_battery_status None 0]"

definition start_monitor :: "outside \<Rightarrow> monitor option" where
  "start_monitor w = do {
     let s = set_event_handler (Some ON_EVENT) 0
       (set_tx_handler (Some ON_TX) 0 (init_session DEFAULT_QUEUE_CAPACITY HOST_COMP BMS_ADDRESS));
     let m = \<lparr>poll_bms = s, shown = [], startup = \<lparr>id_capacity_mah = 0, id_cells = 0, id_sensors = 0\<rparr>,
       next_sweep = 0, poll_clocks = 0, poll_reads = 0\<rparr>;
     let (t, m) = now_reading w m;
     s \<leftarrow> tick quiet_env t (poll_bms m);
     m \<leftarrow> poll_settle s m;
     m \<leftarrow> ask_all startup_calls m;
     let (t, m) = now_reading w m;
     Some (m\<lparr>next_sweep := t\<rparr>)
   }"

definition begin_sweep :: "u32 \<Rightarrow> u32 \<Rightarrow> monitor \<Rightarrow> monitor option" where
  "begin_sweep sweep_ms now m =
    (if sint (now - next_sweep m) \<ge> 0 \<and> \<not> busy (poll_bms m) \<and> pending (poll_bms m) = 0 then do {
       let m = show_text (''--- sweep at '' @ show_u now @ '' ms (discarded '' @
         show_u (discarded_bytes (poll_bms m)) @ '' junk bytes) ---'' @ nl) m;
       m \<leftarrow> ask_all sweep_calls m;
       Some (m\<lparr>next_sweep := now + sweep_ms\<rparr>)
     }
     else Some m)"

text \<open>One iteration; \<open>False\<close> when the loop is left.  \<open>read\<close> has a buffer of 64 bytes.\<close>

definition poll_step :: "outside \<Rightarrow> u32 \<Rightarrow> monitor \<Rightarrow> (bool \<times> monitor) option" where
  "poll_step w sweep_ms m = do {
     let (now, m) = now_reading w m;
     s \<leftarrow> tick quiet_env now (poll_bms m);
     m \<leftarrow> poll_settle s m;
     let r = port w (poll_reads m);
     let m = m\<lparr>poll_reads := poll_reads m + 1\<rparr>;
     (case r of
        Port_gone \<Rightarrow> Some (False, m)
      | Would_block \<Rightarrow> map_option (Pair True) (begin_sweep sweep_ms now m)
      | Got bytes \<Rightarrow> do {
          m \<leftarrow> (if take 64 bytes \<noteq> [] then do {
                 s \<leftarrow> feed quiet_env (Some (take 64 bytes)) (poll_bms m);
                 poll_settle s m
               }
               else Some m);
          map_option (Pair True) (begin_sweep sweep_ms now m)
        })
   }"

fun poll_run :: "outside \<Rightarrow> u32 \<Rightarrow> nat \<Rightarrow> monitor \<Rightarrow> (bool \<times> monitor) option" where
  "poll_run w sweep_ms 0 m = Some (True, m)"
| "poll_run w sweep_ms (Suc n) m =
    poll_step w sweep_ms m \<bind> (\<lambda>(go_on, m). if go_on then poll_run w sweep_ms n m else Some (False, m))"

section \<open>The handlers never fail\<close>

lemma print_via_defined:
  assumes "a \<noteq> Inactive_member" and "\<And>p. a = Ptr p \<Longrightarrow> \<exists>t. f p = Some t" and "r \<noteq> Undefined"
  shows "print_via a f r \<noteq> Undefined"
  using assms by (cases a) (auto simp: print_via_def split: option.splits)

lemma poll_faults_returns: "length (fault_status.bits p) = 8 \<Longrightarrow> \<exists>t. poll_faults p = Some t"
  by (simp add: poll_faults_def)

lemma poll_mos_returns: "\<exists>t. poll_mos p = Some t"
proof (cases "charge_discharge_mos_status.mos_state p < 3")
  case True
  then have "unat (charge_discharge_mos_status.mos_state p) < 3" by (simp add: word_less_nat_alt)
  then show ?thesis by (simp add: poll_mos_def)
qed (simp add: poll_mos_def)

lemma poll_cells_returns:
  "unat (cell_voltages.count p) \<le> length (cell_voltages.mv p) \<Longrightarrow> \<exists>t. poll_cells p = Some t"
  using append_loop [of "unat (cell_voltages.count p)" "cell_voltages.mv p" "\<lambda>i v. '' '' @ show_u v"]
  by (simp add: poll_cells_def)

lemma payload_shapes:
  assumes "payload_sized (payload e)"
  shows "as_fault_status e = Ptr p \<Longrightarrow> length (fault_status.bits p) = 8"
    and "as_cell_voltages e = Ptr q \<Longrightarrow> unat (cell_voltages.count q) \<le> length (cell_voltages.mv q)"
  using assms
  by (auto simp: as_fault_status_def as_cell_voltages_def point_to_def payload_sized_def
      split: if_splits event_payload.splits)

lemma command_members:
  assumes "event_wf e"
  shows "as_capacity_voltage e \<noteq> Inactive_member" "as_status_info e \<noteq> Inactive_member"
    "as_total_voltage_current_soc e \<noteq> Inactive_member" "as_cell_voltage_extremes e \<noteq> Inactive_member"
    "as_cell_temperature_extremes e \<noteq> Inactive_member" "as_charge_discharge_mos e \<noteq> Inactive_member"
    "as_fault_status e \<noteq> Inactive_member" "as_battery_status e \<noteq> Inactive_member"
    "as_cell_voltages e \<noteq> Inactive_member"
  unfolding accessor_defs
  by (intro command_accessor_ok [OF assms]; simp add: payload_fits_def numeral_in_block)+

lemma print_response_defined:
  assumes "event_wf e" and "payload_sized (payload e)"
  shows "print_response e \<noteq> Undefined"
  unfolding print_response_def comp_apply
  by (intro print_via_defined command_members [OF assms(1)])
    (auto simp: poll_mos_returns intro: poll_faults_returns poll_cells_returns payload_shapes [OF assms(2)])

lemma identify_defined: "event_wf e \<Longrightarrow> \<exists>y. identify e x = Some y"
  using command_members(1, 2) [of e] by (auto simp: identify_def split: access.splits)

lemma poll_output_defined:
  assumes "good_entry x"
  shows "\<exists>m'. poll_output x m = Some m' \<and> poll_bms m' = poll_bms m \<and> poll_clocks m' = poll_clocks m \<and>
    poll_reads m' = poll_reads m \<and> next_sweep m' = next_sweep m"
proof (cases x)
  case (HANDLER f c e)
  with assms have e: "event_wf e" "payload_sized (payload e)" by (simp_all add: good_event_def)
  obtain y where y: "identify e (startup m) = Some y" using identify_defined [OF e(1)] by blast
  have "print_response e \<noteq> Undefined" by (rule print_response_defined [OF e])
  then show ?thesis using HANDLER y
    by (auto simp: on_identified_def poll_event_def show_text_def Let_def
        split: event_kind.splits printed.splits)
qed simp_all

lemma poll_outputs_defined:
  "list_all good_entry xs \<Longrightarrow> \<exists>m'. poll_outputs xs m = Some m' \<and> poll_bms m' = poll_bms m \<and>
    poll_clocks m' = poll_clocks m \<and> poll_reads m' = poll_reads m \<and> next_sweep m' = next_sweep m"
proof (induction xs arbitrary: m)
  case (Cons x xs)
  from poll_output_defined [of x m] Cons.prems obtain m1 where
    m1: "poll_output x m = Some m1" "poll_bms m1 = poll_bms m" "poll_clocks m1 = poll_clocks m"
      "poll_reads m1 = poll_reads m" "next_sweep m1 = next_sweep m" by auto
  from Cons.IH [of m1] Cons.prems m1 show ?case by auto
qed simp

section \<open>The loop never fails\<close>

definition monitor_reads :: "request set" where
  "monitor_reads = {r. req_id r \<in> {CAPACITY_VOLTAGE, TOTAL_VOLTAGE_CURRENT_SOC, CELL_VOLTAGE_EXTREMES,
     CELL_TEMPERATURE_EXTREMES, CHARGE_DISCHARGE_MOS_STATUS, STATUS_INFO, FAULT_STATUS, BATTERY_STATUS} \<and>
     req_data r = no_data}"

abbreviation monitor_ok :: "monitor \<Rightarrow> bool" where
  "monitor_ok m \<equiv> asked monitor_reads HOST_COMP (poll_bms m)"

lemma poll_settle_ok:
  assumes "monitor_ok m" and "api_asks monitor_reads c"
  shows "\<exists>s m'. api c (poll_bms m) = Some s \<and> poll_settle s m = Some m' \<and> monitor_ok m' \<and> poll_bms m' = s"
proof -
  from asked_total [OF assms(1)] obtain s where s: "api c (poll_bms m) = Some s" by blast
  from asked_api(2) [OF assms s] obtain out where
    out: "trace s = trace (poll_bms m) @ out" "list_all good_entry out" by blast
  from poll_outputs_defined [OF out(2), of m] obtain m1 where "poll_outputs out m = Some m1" by blast
  then have "poll_settle s m = Some (m1\<lparr>poll_bms := s\<rparr>)" by (simp add: poll_settle_def out(1))
  with s asked_api(1) [OF assms s] show ?thesis by simp
qed

lemma ask_for_ok:
  assumes "monitor_ok m" and "call_request c \<in> monitor_reads"
  shows "\<exists>st s m'. do_call c (poll_bms m) = Some (st, s) \<and> ask_for c m = Some m' \<and> monitor_ok m' \<and>
    poll_bms m' = s"
proof -
  from poll_settle_ok [of m "Api_call c"] assms obtain s m' where
    "map_option snd (do_call c (poll_bms m)) = Some s" "poll_settle s m = Some m'" "monitor_ok m'"
    "poll_bms m' = s" by auto
  then show ?thesis by (auto simp: ask_for_def)
qed

lemma ask_all_ok:
  "monitor_ok m \<Longrightarrow> \<forall>c \<in> set cs. call_request c \<in> monitor_reads \<Longrightarrow>
    \<exists>m'. ask_all cs m = Some m' \<and> monitor_ok m'"
proof (induction cs arbitrary: m)
  case (Cons c cs)
  from ask_for_ok [OF Cons.prems(1), of c] Cons.prems(2) obtain m1 where
    "ask_for c m = Some m1" "monitor_ok m1" by auto
  with Cons.IH [of m1] Cons.prems(2) show ?case by simp
qed simp

lemma calls_read:
  "\<forall>c \<in> set startup_calls. call_request c \<in> monitor_reads"
  "\<forall>c \<in> set sweep_calls. call_request c \<in> monitor_reads"
  by (simp_all add: startup_calls_def sweep_calls_def monitor_reads_def request.make_def)

lemma begin_sweep_ok: "monitor_ok m \<Longrightarrow> \<exists>m'. begin_sweep sweep_ms now m = Some m' \<and> monitor_ok m'"
proof -
  assume "monitor_ok m"
  let ?m = "show_text (''--- sweep at '' @ show_u now @ '' ms (discarded '' @
         show_u (discarded_bytes (poll_bms m)) @ '' junk bytes) ---'' @ nl) m"
  have "monitor_ok ?m" using \<open>monitor_ok m\<close> by (simp add: show_text_def)
  from ask_all_ok [OF this calls_read(2)] obtain m1 where "ask_all sweep_calls ?m = Some m1" "monitor_ok m1"
    by blast
  then show ?thesis using \<open>monitor_ok m\<close> unfolding begin_sweep_def Let_def by auto
qed

lemma poll_step_ok: "monitor_ok m \<Longrightarrow> \<exists>go_on m'. poll_step w sweep_ms m = Some (go_on, m') \<and> monitor_ok m'"
proof -
  assume m: "monitor_ok m"
  let ?m = "m\<lparr>poll_clocks := poll_clocks m + 1\<rparr>" and ?t = "monotonic_ms (clock w (poll_clocks m))"
  from poll_settle_ok [of ?m "Api_tick quiet_env ?t"] m obtain s m1 where
    m1: "tick quiet_env ?t (poll_bms m) = Some s" "poll_settle s ?m = Some m1" "monitor_ok m1" by auto
  let ?m2 = "m1\<lparr>poll_reads := poll_reads m1 + 1\<rparr>"
  have ok2: "monitor_ok ?m2" using m1(3) by simp
  note sweep = begin_sweep_ok [of _ sweep_ms ?t]
  have step: "poll_step w sweep_ms m = (case port w (poll_reads m1) of
        Port_gone \<Rightarrow> Some (False, ?m2)
      | Would_block \<Rightarrow> map_option (Pair True) (begin_sweep sweep_ms ?t ?m2)
      | Got bytes \<Rightarrow> do {
          m \<leftarrow> (if take 64 bytes \<noteq> [] then do {
                 s \<leftarrow> feed quiet_env (Some (take 64 bytes)) (poll_bms ?m2);
                 poll_settle s ?m2
               }
               else Some ?m2);
          map_option (Pair True) (begin_sweep sweep_ms ?t m)
        })"
    using m1(1, 2) by (simp add: poll_step_def now_reading_def Let_def split: read_result.split)
  show ?thesis
  proof (cases "port w (poll_reads m1)")
    case (Got bytes)
    from poll_settle_ok [OF ok2, of "Api_feed quiet_env (Some (take 64 bytes))"] obtain s2 m3 where
      "feed quiet_env (Some (take 64 bytes)) (poll_bms ?m2) = Some s2" "poll_settle s2 ?m2 = Some m3"
      "monitor_ok m3" by auto
    with sweep [of m3] sweep [OF ok2] Got show ?thesis unfolding step by auto
  next
    case Would_block
    with sweep [OF ok2] show ?thesis unfolding step by auto
  next
    case Port_gone
    with ok2 show ?thesis unfolding step by auto
  qed
qed

lemma poll_run_ok: "monitor_ok m \<Longrightarrow> \<exists>go_on m'. poll_run w sweep_ms n m = Some (go_on, m') \<and> monitor_ok m'"
proof (induction n arbitrary: m)
  case (Suc n)
  from poll_step_ok [OF Suc.prems] obtain go_on m1 where
    "poll_step w sweep_ms m = Some (go_on, m1)" "monitor_ok m1" by blast
  with Suc.IH [of m1] show ?case by auto
qed auto

lemma start_monitor_ok: "\<exists>m. start_monitor w = Some m \<and> monitor_ok m"
proof -
  let ?s0 = "init_session DEFAULT_QUEUE_CAPACITY HOST_COMP BMS_ADDRESS"
  have "reachable ?s0" by (rule reachable.construct) simp
  then have "asked monitor_reads HOST_COMP ?s0"
    by (simp add: asked_def init_session_def pending_requests_def)
  from asked_actions [OF asked_actions [OF this, of "Set_tx_handler (Some ON_TX) 0"],
    of "Set_event_handler (Some ON_EVENT) 0"]
  have a: "asked monitor_reads HOST_COMP (set_event_handler (Some ON_EVENT) 0 (set_tx_handler (Some ON_TX) 0 ?s0))"
    by simp
  define m0 where "m0 = \<lparr>poll_bms = set_event_handler (Some ON_EVENT) 0 (set_tx_handler (Some ON_TX) 0 ?s0),
       shown = [], startup = \<lparr>id_capacity_mah = 0, id_cells = 0, id_sensors = 0\<rparr>,
       next_sweep = 0, poll_clocks = 1, poll_reads = 0\<rparr>"
  have "monitor_ok m0" using a by (simp add: m0_def)
  from poll_settle_ok [OF this, of "Api_tick quiet_env (monotonic_ms (clock w 0))"] obtain s m1 where
    m1: "tick quiet_env (monotonic_ms (clock w 0)) (poll_bms m0) = Some s" "poll_settle s m0 = Some m1"
      "monitor_ok m1" by auto
  from ask_all_ok [OF m1(3) calls_read(1)] obtain m2 where m2: "ask_all startup_calls m1 = Some m2" "monitor_ok m2"
    by blast
  have "start_monitor w = Some (m2\<lparr>poll_clocks := poll_clocks m2 + 1,
      next_sweep := monotonic_ms (clock w (poll_clocks m2))\<rparr>)"
    using m1(1, 2) m2(1) by (simp add: start_monitor_def now_reading_def Let_def m0_def)
  with m2(2) show ?thesis by simp
qed

section \<open>Properties\<close>

text \<open>
  C17: the monitor runs for ever and only reads.  Whatever the port delivers and whatever the clock
  shows, for any number of iterations the program performs them or stops because the port went
  away; no printer and no handler reads outside an object; and every frame sent is one of its eight
  read commands.
\<close>

theorem monitor_runs_and_only_reads:
  "\<exists>m go_on m'. start_monitor w = Some m \<and> poll_run w sweep_ms n m = Some (go_on, m') \<and>
    (\<forall>f c x. TX f c x \<in> set (trace (poll_bms m')) \<longrightarrow>
      (\<exists>r \<in> monitor_reads. x = encode HOST_COMP (req_id r) (replicate DATA_LEN 0)))"
proof -
  from start_monitor_ok obtain m where m: "start_monitor w = Some m" "monitor_ok m" by blast
  from poll_run_ok [OF m(2)] obtain go_on m' where
    m': "poll_run w sweep_ms n m = Some (go_on, m')" "monitor_ok m'" by blast
  have "\<exists>r \<in> monitor_reads. x = encode HOST_COMP (req_id r) (replicate DATA_LEN 0)"
    if "TX f c x \<in> set (trace (poll_bms m'))" for f c x
  proof -
    from that m'(2) have "x \<in> wire_of HOST_COMP ` monitor_reads" unfolding asked_def by blast
    then show ?thesis by (auto simp: wire_of_def monitor_reads_def no_data_def)
  qed
  with m(1) m'(1) show ?thesis by blast
qed

theorem monitor_runs_and_only_reads_witness:
  "\<exists>m go_on m'. start_monitor silent_port = Some m \<and> poll_run silent_port 1000 3 m = Some (go_on, m')"
  using monitor_runs_and_only_reads [of silent_port 1000 3] by blast

lemma ask_one:
  assumes "monitor_ok m" and "call_request c \<in> monitor_reads" and "is_known_data_id (req_id (call_request c))"
    and "tx_fn (poll_bms m) = Some f" and "pending (poll_bms m) < QUEUE_CAPACITY (poll_bms m)"
  shows "\<exists>m'. ask_for c m = Some m' \<and> monitor_ok m' \<and> tx_fn (poll_bms m') = Some f \<and>
    busy (poll_bms m') \<and> QUEUE_CAPACITY (poll_bms m') = QUEUE_CAPACITY (poll_bms m) \<and>
    pending_requests (poll_bms m') = pending_requests (poll_bms m) @ [call_request c]"
proof -
  let ?s = "poll_bms m"
  from ask_for_ok [OF assms(1, 2)] obtain st s m' where
    m': "do_call c ?s = Some (st, s)" "ask_for c m = Some m'" "monitor_ok m'" "poll_bms m' = s" by blast
  from assms(1) have ok: "queue_ok ?s" "\<not> dispatching ?s"
    using reachable_ok session_okD(1) by (auto simp: asked_def session_idle_ok_def)
  have adm: "admissible_request (call_request c)"
    using call_request_data [of c] assms(3) by (simp add: admissible_request_def)
  have tx: "tx_fn ?s \<noteq> None" "queue_count ?s < QUEUE_CAPACITY ?s" using assms(4, 5) by (simp_all add: pending_def)
  from enqueue_accepted [OF ok(1) adm tx] ok(2) obtain q s1 where
    s1: "s1 = ?s\<lparr>queue := q, queue_count := queue_count ?s + 1\<rparr>" "length q = length (queue ?s)"
      "pending_requests s1 = pending_requests ?s @ [call_request c]"
      "enqueue (call_request c) ?s = Some (QUEUED, if state ?s = IDLE
        then started (hd (pending_requests ?s @ [call_request c])) s1 else s1)" by auto
  have s: "s = (if state ?s = IDLE then started (hd (pending_requests ?s @ [call_request c])) s1 else s1)"
    using m'(1) s1(4) by (simp add: do_call_enqueue)
  have "tx_fn s1 = Some f" "QUEUE_CAPACITY s1 = QUEUE_CAPACITY ?s"
    using assms(4) s1(2) by (simp_all add: s1(1) QUEUE_CAPACITY_def)
  then have "tx_fn s = Some f" "QUEUE_CAPACITY s = QUEUE_CAPACITY ?s" "busy s"
    "pending_requests s = pending_requests ?s @ [call_request c]"
    unfolding s using s1(3) by (simp_all add: started_def QUEUE_CAPACITY_def busy_def pending_requests_def s1(1))
  with m'(2-4) show ?thesis by simp
qed

lemma ask_several:
  assumes "\<forall>c \<in> set cs. call_request c \<in> monitor_reads \<and> is_known_data_id (req_id (call_request c))"
    and "monitor_ok m" and "tx_fn (poll_bms m) = Some f"
    and "pending (poll_bms m) + length cs \<le> QUEUE_CAPACITY (poll_bms m)"
  shows "\<exists>m'. ask_all cs m = Some m' \<and>
    pending_requests (poll_bms m') = pending_requests (poll_bms m) @ map call_request cs \<and>
    (cs = [] \<or> busy (poll_bms m'))"
  using assms
proof (induction cs arbitrary: m)
  case (Cons c cs)
  from ask_one [OF Cons.prems(2), of c f] Cons.prems obtain m1 where
    m1: "ask_for c m = Some m1" "monitor_ok m1" "tx_fn (poll_bms m1) = Some f" "busy (poll_bms m1)"
      "QUEUE_CAPACITY (poll_bms m1) = QUEUE_CAPACITY (poll_bms m)"
      "pending_requests (poll_bms m1) = pending_requests (poll_bms m) @ [call_request c]" by auto
  have "pending (poll_bms m1) = pending (poll_bms m) + 1"
    using m1(6) by (metis length_append_singleton length_pending pending_def Suc_eq_plus1)
  then have "pending (poll_bms m1) + length cs \<le> QUEUE_CAPACITY (poll_bms m1)"
    using Cons.prems(4) m1(5) by simp
  from Cons.IH [OF _ m1(2, 3) this] Cons.prems(1) obtain m2 where
    "ask_all cs m1 = Some m2" "pending_requests (poll_bms m2) = pending_requests (poll_bms m1) @ map call_request cs"
    "cs = [] \<or> busy (poll_bms m2)" by auto
  with m1 show ?case by (cases cs) auto
qed simp

text \<open>
  A sweep is asked for whole, in order, and only when the last one is over.  When it is due and
  the session is idle with an empty queue, its seven reads are all accepted, in their order, and
  the next sweep is due \<open>sweep_ms\<close> later; otherwise the iteration asks for nothing.
\<close>

lemma sweep_is_asked_for_whole:
  assumes "monitor_ok m" and "tx_fn (poll_bms m) = Some f" and "7 \<le> QUEUE_CAPACITY (poll_bms m)"
  shows "\<exists>m'. begin_sweep sweep_ms now m = Some m' \<and>
    (if sint (now - next_sweep m) \<ge> 0 \<and> \<not> busy (poll_bms m) \<and> pending (poll_bms m) = 0
     then map req_id (pending_requests (poll_bms m')) =
        [TOTAL_VOLTAGE_CURRENT_SOC, CELL_VOLTAGE_EXTREMES, CELL_TEMPERATURE_EXTREMES,
         CHARGE_DISCHARGE_MOS_STATUS, STATUS_INFO, FAULT_STATUS, BATTERY_STATUS] \<and>
        busy (poll_bms m') \<and> next_sweep m' = now + sweep_ms
     else m' = m)"
proof (cases "sint (now - next_sweep m) \<ge> 0 \<and> \<not> busy (poll_bms m) \<and> pending (poll_bms m) = 0")
  case True
  let ?m = "show_text (''--- sweep at '' @ show_u now @ '' ms (discarded '' @
         show_u (discarded_bytes (poll_bms m)) @ '' junk bytes) ---'' @ nl) m"
  have known: "\<forall>c \<in> set sweep_calls. call_request c \<in> monitor_reads \<and> is_known_data_id (req_id (call_request c))"
    using calls_read(2) by (simp add: sweep_calls_def is_known_data_id_def request.make_def)
  have "pending (poll_bms ?m) + length sweep_calls \<le> QUEUE_CAPACITY (poll_bms ?m)"
    using True assms(3) by (simp add: show_text_def sweep_calls_def)
  from ask_several [OF known _ _ this, of f] assms(1, 2) obtain m1 where
    m1: "ask_all sweep_calls ?m = Some m1" "sweep_calls = [] \<or> busy (poll_bms m1)"
      "pending_requests (poll_bms m1) = pending_requests (poll_bms ?m) @ map call_request sweep_calls"
    by (auto simp: show_text_def)
  have "pending_requests (poll_bms ?m) = []" using True by (simp add: show_text_def pending_def pending_requests_def)
  then have "map req_id (pending_requests (poll_bms m1)) =
      [TOTAL_VOLTAGE_CURRENT_SOC, CELL_VOLTAGE_EXTREMES, CELL_TEMPERATURE_EXTREMES,
       CHARGE_DISCHARGE_MOS_STATUS, STATUS_INFO, FAULT_STATUS, BATTERY_STATUS]"
    by (simp add: m1(3) sweep_calls_def request.make_def)
  moreover have "busy (poll_bms m1)" using m1(2) by (simp add: sweep_calls_def)
  ultimately show ?thesis using True m1(1) by (simp add: begin_sweep_def Let_def)
qed (auto simp: begin_sweep_def)

lemma sweep_is_asked_for_whole_witness:
  "\<exists>m m'. begin_sweep 1000 5 m = Some m' \<and> map req_id (pending_requests (poll_bms m')) =
     [TOTAL_VOLTAGE_CURRENT_SOC, CELL_VOLTAGE_EXTREMES, CELL_TEMPERATURE_EXTREMES,
      CHARGE_DISCHARGE_MOS_STATUS, STATUS_INFO, FAULT_STATUS, BATTERY_STATUS]"
proof -
  let ?init = "init_session DEFAULT_QUEUE_CAPACITY HOST_COMP BMS_ADDRESS"
  let ?s = "set_tx_handler (Some ON_TX) 0 ?init"
  define m where "m = \<lparr>poll_bms = ?s, shown = [], startup = \<lparr>id_capacity_mah = 0, id_cells = 0, id_sensors = 0\<rparr>,
       next_sweep = 0, poll_clocks = 1, poll_reads = 0\<rparr>"
  have "reachable ?init" by (rule reachable.construct) simp
  then have "asked monitor_reads HOST_COMP ?init"
    by (simp add: asked_def init_session_def pending_requests_def)
  from asked_actions [OF this, of "Set_tx_handler (Some ON_TX) 0"]
  have m: "monitor_ok m" by (simp add: m_def)
  have tx: "tx_fn (poll_bms m) = Some 1" "7 \<le> QUEUE_CAPACITY (poll_bms m)"
    by (simp_all add: m_def set_tx_handler_def QUEUE_CAPACITY_def init_session_def)
  have due: "sint (5 - next_sweep m) \<ge> 0" "\<not> busy (poll_bms m)" "pending (poll_bms m) = 0"
    by (simp_all add: m_def busy_def pending_def set_tx_handler_def init_session_def)
  from due have c: "sint (5 - next_sweep m) \<ge> 0 \<and> \<not> busy (poll_bms m) \<and> pending (poll_bms m) = 0" by blast
  from sweep_is_asked_for_whole [OF m tx, of 1000 5, unfolded if_P [OF c]] obtain m' where
    "begin_sweep 1000 5 m = Some m'" "map req_id (pending_requests (poll_bms m')) =
     [TOTAL_VOLTAGE_CURRENT_SOC, CELL_VOLTAGE_EXTREMES, CELL_TEMPERATURE_EXTREMES,
      CHARGE_DISCHARGE_MOS_STATUS, STATUS_INFO, FAULT_STATUS, BATTERY_STATUS]" by (elim exE conjE)
  then show ?thesis by (intro exI [of _ m] exI [of _ m'] conjI)
qed

end
