(* ===== verification/Programs.thy ===== *)
theory Programs
  imports Serial PollLoop
begin

text \<open>
  The two example programs from their arguments to their exit status: the options, the usage text,
  the port, the run, and the closing of the port.  The outcome is the exit status, what was
  written to \<open>stdout\<close>, and the system calls on the port other than \<open>read\<close> and \<open>write\<close>, which
  theories Sweep and PollLoop hold.
\<close>

section \<open>The dump program\<close>

definition usage_text :: "string \<Rightarrow> string" where
  "usage_text argv0 = ''Usage: '' @ argv0 @ '' [options]'' @ nl @ nl @
     ''Reads every documented HAIDI BMS value over a serial port and prints it.'' @ nl @
     ''Reads only -- no MOSFET or configuration write is ever sent.'' @ nl @ nl @
     ''  -d <device>  serial device                     (default /dev/ttyUSB0)'' @ nl @
     ''  -b <baud>    baud rate                         (default 9600)'' @ nl @
     ''  -a <hex>     host address, 80 BLE / 20 GPRS / 40 COMP  (default 40)'' @ nl @
     ''  -t <ms>      response timeout                  (default '' @ show_u DEFAULT_RESPONSE_TIMEOUT_MS @ '')'' @ nl @
     ''  -f <ms>      inter-frame timeout               (default '' @ show_u DEFAULT_INTERFRAME_TIMEOUT_MS @ '')'' @ nl @
     ''  -r <n>       retransmissions per request       (default '' @ show_u DEFAULT_MAX_RETRIES @ '')'' @ nl @
     ''  -c <n>       cell count for the 0x95 read      (default: from 0x94/0x51)'' @ nl @
     ''  -T <n>       sensor count for the 0x96 read    (default: from 0x94/0x51)'' @ nl @
     ''  -n <n>       sweeps to run, 0 = forever        (default 1)'' @ nl @
     ''  -i <ms>      pause between sweeps              (default 1000)'' @ nl @
     ''  -A           skip the 27 alarm thresholds'' @ nl @
     ''  -F           skip the stored fault records'' @ nl @
     ''  -v           trace every frame sent and received, in hex'' @ nl @
     ''  -h           this help'' @ nl"

record outcome =
  exit_status :: nat
  printed_text :: string
  port_calls :: "sys_call list"

definition dump_program ::
  "termios_api \<Rightarrow> kernel \<Rightarrow> outside \<Rightarrow> string \<Rightarrow> (char \<times> string) list \<Rightarrow> outcome option" where
  "dump_program tio k w argv0 flags =
    (case parse_options flags default_options of
       None \<Rightarrow> Some \<lparr>exit_status = 2, printed_text = usage_text argv0, port_calls = []\<rparr>
     | Some (want_help, opt) \<Rightarrow>
         if want_help then Some \<lparr>exit_status = 0, printed_text = usage_text argv0, port_calls = []\<rparr>
         else do {
           (calls, fd) \<leftarrow> open_serial tio k (device opt) (baud opt);
           if fd < 0 then Some \<lparr>exit_status = 1, printed_text = [], port_calls = calls\<rparr>
           else do {
             (status, d) \<leftarrow> main_dump w opt;
             Some \<lparr>exit_status = status, printed_text = screen (console d), port_calls = calls @ [Close fd]\<rparr>
           }
         })"

text \<open>What the options have to be for the program to be meant to end.\<close>

definition ends_by_itself :: "options \<Rightarrow> bool" where
  "ends_by_itself opt \<longleftrightarrow> interval_ms opt \<noteq> - 1 \<and> sweeps opt \<noteq> 0 \<and> sweeps opt \<noteq> - 1"

lemma main_dump_status: "main_dump w opt = Some (status, d) \<Longrightarrow> status \<le> 1"
  by (auto simp: main_dump_def bind_eq_Some_conv split: if_splits)



section \<open>The monitoring program\<close>

text \<open>\<open>atoi\<close>: \<open>None\<close> where the result is no \<open>int\<close> and the behaviour undefined.\<close>

definition c_atoi :: "string \<Rightarrow> int option" where
  "c_atoi s =
    (let t = dropWhile c_isspace s;
         signed = t \<noteq> [] \<and> (hd t = CHR ''-'' \<or> hd t = CHR ''+'');
         negative = t \<noteq> [] \<and> hd t = CHR ''-'';
         ds = takeWhile (\<lambda>c. digit_in 10 c \<noteq> None) (if signed then tl t else t);
         v = foldl (\<lambda>v c. v * 10 + int (the (digit_in 10 c))) 0 ds;
         v = (if negative then - v else v)
     in if - (2 ^ 31) \<le> v \<and> v < 2 ^ 31 then Some v else None)"

datatype monitor_outcome =
    No_port "sys_call list"
  | Running "sys_call list" monitor
  | Left_loop "sys_call list" monitor

primrec monitor_calls :: "monitor_outcome \<Rightarrow> sys_call list" where
  "monitor_calls (No_port calls) = calls"
| "monitor_calls (Running calls m) = calls"
| "monitor_calls (Left_loop calls m) = calls"

primrec monitor_status :: "monitor_outcome \<Rightarrow> nat option" where
  "monitor_status (No_port calls) = Some 1"
| "monitor_status (Running calls m) = None"
| "monitor_status (Left_loop calls m) = Some 0"

text \<open>\<open>main\<close> for at most \<open>n\<close> iterations of its loop; \<open>args\<close> are the arguments after the program's name.\<close>

definition monitor_program ::
  "termios_api \<Rightarrow> kernel \<Rightarrow> outside \<Rightarrow> string list \<Rightarrow> nat \<Rightarrow> monitor_outcome option" where
  "monitor_program tio k w args n = do {
     let dev = (if length args > 0 then args ! 0 else ''/dev/ttyUSB0'');
     sweep_ms \<leftarrow> (if length args > 1 then map_option of_int (c_atoi (args ! 1)) else Some 1000);
     (calls, fd) \<leftarrow> poll_open_serial tio k dev;
     if fd < 0 then Some (No_port calls)
     else do {
       m \<leftarrow> start_monitor w;
       (go_on, m) \<leftarrow> poll_run w sweep_ms n m;
       Some (if go_on then Running calls m else Left_loop (calls @ [Close fd]) m)
     }
   }"

text \<open>
  The monitoring program and its port.  For any number of iterations, it is defined exactly when
  its second argument, if there is one, is in the range \<open>atoi\<close> is defined on.  It ends only with
  no descriptor open, with status 1 if the port could not be opened and 0 after the port went away;
  while it runs it holds the one descriptor it opened.
\<close>

lemma monitor_program_outcome:
  assumes "termios_ok tio" and "kernel_ok k"
  shows "(monitor_program tio k w args n = None \<longleftrightarrow> 1 < length args \<and> c_atoi (args ! 1) = None) \<and>
    (\<forall>r. monitor_program tio k w args n = Some r \<longrightarrow>
      (monitor_status r = None \<longrightarrow> (\<exists>fd \<ge> 0. held k (monitor_calls r) [] = [fd])) \<and>
      (monitor_status r \<noteq> None \<longrightarrow> held k (monitor_calls r) [] = []) \<and>
      (monitor_status r = Some 1 \<longleftrightarrow> (\<exists>text. Message text \<in> set (monitor_calls r))))"
proof (cases "1 < length args \<and> c_atoi (args ! 1) = None")
  case True
  then show ?thesis by (simp add: monitor_program_def)
next
  case False
  then obtain sweep_ms :: u32 where
    sweep: "(if length args > 1 then map_option of_int (c_atoi (args ! 1)) else Some 1000) = Some sweep_ms"
    by (cases "1 < length args"; cases "c_atoi (args ! 1)") auto
  let ?dev = "if length args > 0 then args ! 0 else ''/dev/ttyUSB0''"
  obtain calls fd where o: "poll_open_serial tio k ?dev = Some (calls, fd)"
    "fd \<ge> 0 \<longrightarrow> held k calls [] = [fd] \<and> (\<forall>text. Message text \<notin> set calls)"
    "fd < 0 \<longrightarrow> held k calls [] = [] \<and> (\<exists>text. Message text \<in> set calls)"
    using poll_open_serial_cleans_up [OF assms, of ?dev] by blast
  obtain m go_on m' where m: "start_monitor w = Some m" "poll_run w sweep_ms n m = Some (go_on, m')"
    using start_monitor_ok poll_run_ok by blast
  show ?thesis
    using False sweep o m by (cases "fd < 0"; cases go_on) (auto simp: monitor_program_def held_append Let_def)
qed

lemma monitor_program_outcome_witness:
  "monitor_program linux_termios (sample_kernel 0) silent_port [''/dev/ttyS0'', ''9999999999''] 7 = None \<and>
   (\<exists>r. monitor_program linux_termios (sample_kernel 0) silent_port [''/dev/ttyS0'', ''500''] 7 = Some r \<and>
     (monitor_status r \<noteq> None \<longrightarrow> held (sample_kernel 0) (monitor_calls r) [] = []))"
proof -
  note o = monitor_program_outcome [OF linux_termios_ok sample_kernel_ok [of 0], of silent_port _ 7]
  have "c_atoi ''9999999999'' = None" "c_atoi ''500'' \<noteq> None"
    by (simp_all add: c_atoi_def digit_in_def c_isspace_def Let_def)
  with o [of "[''/dev/ttyS0'', ''9999999999'']"] o [of "[''/dev/ttyS0'', ''500'']"] show ?thesis by auto
qed

end
