(* ===== verification/Spec2Isabelle.thy ===== *)
theory Spec2Isabelle
  imports Restart Budget Dialogues Readings Programs
begin

text \<open>
  Verification of the HAIDI BMS client library: protocol V4.0 over a byte stream, in C++, with the
  two example programs that use it.

  \<^bold>\<open>The program.\<close>  A host owns a serial bus to a battery management system.  \<open>HaidiBMS\<close>
  (\<open>include/haidi_bms.hpp\<close>, \<open>src/haidi_bms.cpp\<close>) queues requests in a ring buffer, sends one at a
  time through a TX callback, takes received bytes through \<open>feed()\<close> and the time through \<open>tick()\<close>,
  and reports every outcome as an \<open>Event\<close> to handlers, which may request more from inside the
  callback.  \<open>FrameParser\<close> cuts the byte stream into frames and resynchronises after garbage.  The
  decoders turn frames, reassembled pages and the fault-record stream into payload structs, which
  the accessors \<open>as_...()\<close> hand out.  \<open>examples/dump_all.cpp\<close> reads every command once and prints the
  replies; \<open>examples/poll_loop.cpp\<close> polls telemetry for ever.

  \<^bold>\<open>The theories and the code.\<close>
  \<^item> Prelude: machine types, checked array accesses, counting loops, list and word lemmas.
  \<^item> Protocol (\<open>haidi_protocol.hpp\<close>, \<open>.cpp\<close>): Data IDs, alarm grid, checksum, \<open>encode\<close>, \<open>data_of\<close>,
    big-endian fields and offsets.  Encoding round trip, detection of a corrupted byte, the command
    groups (\<open>single_ids\<close>, \<open>paginated_ids\<close>, \<open>mos_ids\<close>).
  \<^item> FrameParser (\<open>haidi_frame_parser.hpp\<close>, \<open>.cpp\<close>): the framer over any client state.  Locale
    \<open>framer_client\<close> states what a callback must keep and is interpreted by the session in
    Invariants; totality, soundness, resynchronisation, conservation of bytes, chunking.
  \<^item> Payloads, Event, Decode (\<open>haidi_payloads.hpp\<close>, \<open>haidi_event.*\<close>, \<open>haidi_decode.*\<close>): one record per
    struct, the union as a datatype, accessors that tell an inactive member, the decoders and
    pagination metadata.  Well-formed events (\<open>event_wf\<close>, \<open>payload_fits\<close>, \<open>payload_sized\<close>), and that
    decoding yields them.
  \<^item> Ring: the ring buffer as a queue, a locale interpreted in Queueing.
  \<^item> Session, Commands, Client, Receive (\<open>haidi_bms.hpp\<close>, \<open>haidi_bms.cpp\<close>): the record \<open>session\<close> has the
    members of \<open>HaidiBMS\<close> and a ghost \<open>trace\<close> of frames sent, events and handler calls; one
    definition per method.  Handlers are values of the type \<open>client\<close>, arbitrary programs over the
    interface, chosen by an \<open>environment\<close>.
  \<^item> Queueing, Dispatch, Masks, Invariants: contract of \<open>enqueue\<close>, what a handler can do to the
    session (\<open>handled\<close>), the bit-mask loops in closed form, the invariant \<open>session_ok\<close>, reachable
    sessions, and that no operation ever fails.
  \<^item> Transactions, Timing, Replies, Pagination, FaultStream, Boundaries, Progress: the life of a
    request: one transmission per step, retries and timeout, the three kinds of reply with their
    error paths, rejected frames, sizes taken from an earlier reply, and that every request ends.
  \<^item> Steps: the locale \<open>step_relation\<close>: a relation between states that survives starting, finishing
    and repeating a request and the dispatch of an event survives frames, bytes and ticks.
    Interpreted by Link and Budget.
  \<^item> Link: the abstract machine a session refines, \<open>link_step\<close>, and the consequence that only what
    was asked for is sent.  Budget: what is left of the retries of the pending requests is a
    potential, so the frames sent are bounded by the requests accepted.
  \<^item> Batches, Dialogues, Readings: the layers together.  The bytes of the replies of a conforming
    device to any queue of requests, in one frame, in pages or as a stream, end them in order, a
    status reply sizing the pages behind it; the cell voltages a device sends are those
    \<open>as_cell_voltages\<close> hands out.
  \<^item> Restart: the relation \<open>alike\<close> between sessions no caller can tell apart, preserved by every
    operation; a session after \<open>reset()\<close> is alike a new one.
  \<^item> Format: \<open>printf\<close>'s conversions, the two roundings of \<open>%.Nf\<close> computed in integers; tenths,
    hundredths and thousandths are shown to print exactly.
  \<^item> Printers, Schedule, Sweep (\<open>examples/dump_all.cpp\<close>): printers and \<open>print_payload\<close>; options,
    \<open>build_schedule\<close>, \<open>issue\<close>; handlers, \<open>pump\<close>, the probe loop, \<open>run_sweep\<close> and \<open>main\<close>.  Dump: a
    dump prints every reply, only reads, and ends.
  \<^item> PollLoop (\<open>examples/poll_loop.cpp\<close>): printer, handlers, main loop; it never fails and only reads.
  \<^item> Serial, Programs: \<open>open_serial\<close> of both examples over a kernel and a \<open>termios.h\<close> that are
    parameters (\<open>kernel_ok\<close>, \<open>termios_ok\<close>, met by the values of Linux), and both \<open>main\<close> functions
    from the arguments to the exit status: no descriptor is left open.

  \<^bold>\<open>Undefined behaviour and endless loops.\<close>  They are the value \<open>None\<close> of an operation: accesses go
  through \<open>rd\<close>, \<open>wr\<close> and \<open>slice\<close>, shifts through \<open>shl32\<close>, the loops without a bound of their own are
  \<open>partial_function (option)\<close>.  There is no fuel in the library's model.  \<open>poll_run\<close> counts
  iterations because the loop it models is meant not to end.

  \<^bold>\<open>Bounds.\<close>  Page counters are at most 16, so the 17 pages of 7 bytes fit the 119 bytes of
  \<open>assembly\<close>; a fault record is 4 frames of 7 bytes; the queue's capacity is a parameter, positive.
  The search in \<open>double_scale\<close> covers the quotients the printers form (at most 32 bits over at most
  1000).  That the dump ends assumes a clock that passes any reading by 30 seconds in two readings
  in a row (\<open>clock_runs\<close>), and a number of sweeps and a pause below \<open>2 ^ 32 - 1\<close>, at which the 32-bit
  counters of \<open>main\<close> would wrap.

  \<^bold>\<open>Not modelled.\<close>  Handlers that call \<open>feed()\<close> or \<open>tick()\<close> from inside a callback, and TX handlers
  that call back into the session: no handler of the repository does either, and the documentation
  speaks only of handlers that request more.  What the port, the clock, the kernel and \<open>getopt\<close>
  deliver is a parameter; the signal handler, which only sets a flag, is the parameter \<open>stop\<close>.
  Messages to \<open>stderr\<close> about failed reads and writes and about options out of range are left out.
  Tests, build files and documentation have no logic of the program.
\<close>

end
